(* ===== verification/Prelude.thy ===== *)
theory Prelude
  imports Main "HOL-Library.Word" "HOL-Library.Monad_Syntax"
begin

text \<open>
  Shared vocabulary of the development: the machine types of the C++ code, the result type
  for code that may fault, the standard containers as the sources use them, and the generic
  lemmas the component theories rest on.
\<close>

unbundle bit_operations_syntax

section \<open>Machine types\<close>

type_synonym uint64_t = "64 word"
type_synonym uint32_t = "32 word"
type_synonym uint8_t = "8 word"

named_theorems checker_simps \<open>rewriting of checker results and event filters\<close>

section \<open>Faults\<close>

text \<open>
  A C++ routine that runs into a failing \<open>assert\<close>, an index out of the bounds of a vector, or
  an access through a dangling or a null pointer has no defined result. Such a run is a value
  \<open>Inl f\<close> of the result type; a run that returns \<open>x\<close> is \<open>Inr x\<close>.
\<close>

datatype fault = AssertionFailed | OutOfBounds | UseAfterFree | NullDereference

type_synonym 'a result = "fault + 'a"

definition bind_result :: "'a result \<Rightarrow> ('a \<Rightarrow> 'b result) \<Rightarrow> 'b result" where
  "bind_result m f = (case m of Inl e \<Rightarrow> Inl e | Inr x \<Rightarrow> f x)"

lemma bind_result_simps [simp]:
  "bind_result (Inl e) f = Inl e"
  "bind_result (Inr x) f = f x"
  by (simp_all add: bind_result_def)

lemma bind_result_eq_Inr [simp]:
  "bind_result m f = Inr y \<longleftrightarrow> (\<exists>x. m = Inr x \<and> f x = Inr y)"
  by (cases m) simp_all

text \<open>An indexed read of a \<open>std::vector\<close>.\<close>

definition vec_at :: "'a list \<Rightarrow> nat \<Rightarrow> 'a result" where
  "vec_at xs i = (if i < length xs then Inr (xs ! i) else Inl OutOfBounds)"

lemma vec_at_Inr [simp]: "vec_at xs i = Inr x \<longleftrightarrow> i < length xs \<and> x = xs ! i"
  by (auto simp: vec_at_def)

lemma vec_at_in [simp]: "i < length xs \<Longrightarrow> vec_at xs i = Inr (xs ! i)"
  by simp

definition of_option :: "fault \<Rightarrow> 'a option \<Rightarrow> 'a result" where
  "of_option f x = (case x of None \<Rightarrow> Inl f | Some y \<Rightarrow> Inr y)"

lemma of_option_simps [simp]:
  "of_option f None = Inl f"
  "of_option f (Some x) = Inr x"
  by (simp_all add: of_option_def)

lemma of_option_Inr [simp]: "of_option f x = Inr y \<longleftrightarrow> x = Some y"
  by (cases x) simp_all

section \<open>Maps\<close>

text \<open>\<open>std::map::insert\<close> keeps an entry that is already there.\<close>

definition map_insert :: "'k \<Rightarrow> 'v \<Rightarrow> ('k \<rightharpoonup> 'v) \<Rightarrow> ('k \<rightharpoonup> 'v)" where
  "map_insert k v m = (if m k = None then m(k \<mapsto> v) else m)"

lemma map_insert_simps [simp]:
  "dom (map_insert k v m) = insert k (dom m)"
  "x \<in> ran (map_insert k v m) \<Longrightarrow> x = v \<or> x \<in> ran m"
  by (auto simp: map_insert_def ran_def split: if_splits)

section \<open>Decimal numerals\<close>

fun utostr :: "nat \<Rightarrow> string" where
  "utostr n = (if n < 10 then [char_of (48 + n)] else utostr (n div 10) @ [char_of (48 + n mod 10)])"

declare utostr.simps [simp del]

text \<open>Forget which fault occurred.\<close>

fun ok_of :: "'a result \<Rightarrow> 'a option" where
  "ok_of (Inr x) = Some x"
| "ok_of (Inl _) = None"

end
