(* ===== verification/ImmutableTree.thy ===== *)
theory ImmutableTree
  imports Prelude
begin

text \<open>
  The persistent search tree of \<open>klee/include/klee/Internal/ADT/ImmutableTree.h\<close>, which
  carries every address space of the symbolic executor. A node pointer is a tree value; the
  terminator node is \<open>Terminator\<close>. The template parameters \<open>KOV\<close> and \<open>CMP\<close> are
  the function \<open>kov\<close> and the order of the key type. Reference counting has no counterpart: the
  model shares nothing and frees nothing.
\<close>

section \<open>Nodes and balancing\<close>

datatype 'v node =
    Terminator
  | Node (left: "'v node") (right: "'v node") (node_value: 'v) (height: nat)
where
  "left Terminator = Terminator"
| "right Terminator = Terminator"
| "height Terminator = 0"

definition new_Node :: "'v node \<Rightarrow> 'v node \<Rightarrow> 'v \<Rightarrow> 'v node" where
  "new_Node l r v = Node l r v (max (height l) (height r) + 1)"

definition isTerminator :: "'v node \<Rightarrow> bool" where
  "isTerminator n = (case n of Terminator \<Rightarrow> True | Node _ _ _ _ \<Rightarrow> False)"

definition balance :: "'v node \<Rightarrow> 'v \<Rightarrow> 'v node \<Rightarrow> 'v node" where
  "balance l v r =
     (if height l > height r + 2 then
        (let ll = left l; lr = right l in
         if height ll \<ge> height lr then
           (let nlr = new_Node lr r v in new_Node ll nlr (node_value l))
         else
           (let lrl = left lr; lrr = right lr;
                nll = new_Node ll lrl (node_value l);
                nlr = new_Node lrr r v
            in new_Node nll nlr (node_value lr)))
      else if height r > height l + 2 then
        (let rl = left r; rr = right r in
         if height rr \<ge> height rl then
           (let nrl = new_Node l rl v in new_Node nrl rr (node_value r))
         else
           (let rll = left rl; rlr = right rl;
                nrl = new_Node l rll v;
                nrr = new_Node rlr rr (node_value r)
            in new_Node nrl nrr (node_value rl)))
      else new_Node l r v)"

fun node_size :: "'v node \<Rightarrow> nat" where
  "node_size Terminator = 0"
| "node_size (Node l r v h) = node_size l + 1 + node_size r"

text \<open>
  \<open>popMin\<close> and \<open>popMax\<close> return the extracted value beside the new tree. On the
  terminator the code copies the terminator's default-constructed value, which the model
  shows as \<open>None\<close>.
\<close>

fun popMin :: "'v node \<Rightarrow> 'v option \<times> 'v node" where
  "popMin Terminator = (None, Terminator)"
| "popMin (Node l r v h) =
     (if isTerminator l then (Some v, r)
      else (let (out, l') = popMin l in (out, balance l' v r)))"

fun popMax :: "'v node \<Rightarrow> 'v option \<times> 'v node" where
  "popMax Terminator = (None, Terminator)"
| "popMax (Node l r v h) =
     (if isTerminator r then (Some v, l)
      else (let (out, r') = popMax r in (out, balance l v r')))"

section \<open>Updates\<close>

fun insert_node :: "('v \<Rightarrow> 'k::linorder) \<Rightarrow> 'v \<Rightarrow> 'v node \<Rightarrow> 'v node" where
  "insert_node kov v Terminator = new_Node Terminator Terminator v"
| "insert_node kov v (Node l r w h) =
     (if kov v < kov w then balance (insert_node kov v l) w r
      else if kov w < kov v then balance l w (insert_node kov v r)
      else Node l r w h)"

fun replace_node :: "('v \<Rightarrow> 'k::linorder) \<Rightarrow> 'v \<Rightarrow> 'v node \<Rightarrow> 'v node" where
  "replace_node kov v Terminator = new_Node Terminator Terminator v"
| "replace_node kov v (Node l r w h) =
     (if kov v < kov w then balance (replace_node kov v l) w r
      else if kov w < kov v then balance l w (replace_node kov v r)
      else new_Node l r v)"

fun remove_node :: "('v \<Rightarrow> 'k::linorder) \<Rightarrow> 'k \<Rightarrow> 'v node \<Rightarrow> 'v node" where
  "remove_node kov k Terminator = Terminator"
| "remove_node kov k (Node l r w h) =
     (if k < kov w then balance (remove_node kov k l) w r
      else if kov w < k then balance l w (remove_node kov k r)
      else if isTerminator l then r
      else if isTerminator r then l
      else (case popMin r of
              (Some m, nr) \<Rightarrow> balance l m nr
            | (None, nr) \<Rightarrow> balance l w nr))"

section \<open>Queries\<close>

fun count_node :: "('v \<Rightarrow> 'k::linorder) \<Rightarrow> 'k \<Rightarrow> 'v node \<Rightarrow> nat" where
  "count_node kov k Terminator = 0"
| "count_node kov k (Node l r w h) =
     (if k < kov w then count_node kov k l
      else if kov w < k then count_node kov k r
      else 1)"

fun lookup_node :: "('v \<Rightarrow> 'k::linorder) \<Rightarrow> 'k \<Rightarrow> 'v node \<Rightarrow> 'v option" where
  "lookup_node kov k Terminator = None"
| "lookup_node kov k (Node l r w h) =
     (if k < kov w then lookup_node kov k l
      else if kov w < k then lookup_node kov k r
      else Some w)"

text \<open>The loop of \<open>lookup_previous\<close> with its local variable \<open>result\<close>.\<close>

fun lookup_previous_loop ::
  "('v \<Rightarrow> 'k::linorder) \<Rightarrow> 'k \<Rightarrow> 'v option \<Rightarrow> 'v node \<Rightarrow> 'v option" where
  "lookup_previous_loop kov k result Terminator = result"
| "lookup_previous_loop kov k result (Node l r w h) =
     (if k < kov w then lookup_previous_loop kov k result l
      else if kov w < k then lookup_previous_loop kov k (Some w) r
      else Some w)"

definition lookup_previous :: "('v \<Rightarrow> 'k::linorder) \<Rightarrow> 'k \<Rightarrow> 'v node \<Rightarrow> 'v option" where
  "lookup_previous kov k n = lookup_previous_loop kov k None n"

text \<open>\<open>min\<close> and \<open>max\<close> assert that the tree is not empty.\<close>

fun min_node :: "'v node \<Rightarrow> 'v result" where
  "min_node Terminator = Inl AssertionFailed"
| "min_node (Node l r v h) = (if isTerminator l then Inr v else min_node l)"

fun max_node :: "'v node \<Rightarrow> 'v result" where
  "max_node Terminator = Inl AssertionFailed"
| "max_node (Node l r v h) = (if isTerminator r then Inr v else max_node r)"

section \<open>Abstraction and invariant\<close>

fun inorder :: "'v node \<Rightarrow> 'v list" where
  "inorder Terminator = []"
| "inorder (Node l r v h) = inorder l @ v # inorder r"

text \<open>
  The stored heights are right and siblings differ by at most two levels, the slack that
  \<open>balance\<close> tolerates.
\<close>

fun balanced :: "'v node \<Rightarrow> bool" where
  "balanced Terminator = True"
| "balanced (Node l r v h) =
     (h = max (height l) (height r) + 1 \<and> height l \<le> height r + 2 \<and> height r \<le> height l + 2 \<and>
      balanced l \<and> balanced r)"

definition key_sorted :: "('v \<Rightarrow> 'k::linorder) \<Rightarrow> 'v list \<Rightarrow> bool" where
  "key_sorted kov vs = sorted_wrt (<) (map kov vs)"

definition tree_inv :: "('v \<Rightarrow> 'k::linorder) \<Rightarrow> 'v node \<Rightarrow> bool" where
  "tree_inv kov t \<longleftrightarrow> balanced t \<and> key_sorted kov (inorder t)"

section \<open>Iterators\<close>

text \<open>
  An iterator is the root and a stack of nodes, the current node on top. The source compares
  node pointers; in a search tree no two nodes are equal as values, so the comparison of
  values decides the same.
\<close>

record 'v iterator =
  it_root :: "'v node"
  it_stack :: "'v node list"

fun push_left :: "'v node \<Rightarrow> 'v node list \<Rightarrow> 'v node list" where
  "push_left Terminator st = st"
| "push_left (Node l r v h) st = push_left l (Node l r v h # st)"

fun push_right :: "'v node \<Rightarrow> 'v node list \<Rightarrow> 'v node list" where
  "push_right Terminator st = st"
| "push_right (Node l r v h) st = push_right r (Node l r v h # st)"

definition it_new :: "'v node \<Rightarrow> bool \<Rightarrow> 'v iterator" where
  "it_new root atBeginning =
     \<lparr>it_root = root, it_stack = (if atBeginning then push_left root [] else [])\<rparr>"

definition it_deref :: "'v iterator \<Rightarrow> 'v result" where
  "it_deref it = (case it_stack it of [] \<Rightarrow> Inl OutOfBounds | n # _ \<Rightarrow> Inr (node_value n))"

text \<open>The loops that climb until the child climbed from is a left (a right) child.\<close>

fun climb_left :: "'v node \<Rightarrow> 'v node list \<Rightarrow> 'v node list" where
  "climb_left prev [] = []"
| "climb_left prev (n # st) = (if prev = left n then n # st else climb_left n st)"

fun climb_right :: "'v node \<Rightarrow> 'v node list \<Rightarrow> 'v node list" where
  "climb_right prev [] = []"
| "climb_right prev (n # st) = (if prev = right n then n # st else climb_right n st)"

definition it_next :: "'v iterator \<Rightarrow> 'v iterator result" where
  "it_next it =
     (case it_stack it of
        [] \<Rightarrow> Inl AssertionFailed
      | n # st \<Rightarrow>
          Inr (it\<lparr>it_stack :=
            (if isTerminator (right n) then climb_left n st
             else push_left (left (right n)) (right n # n # st))\<rparr>))"

definition it_prev :: "'v iterator \<Rightarrow> 'v iterator" where
  "it_prev it =
     (case it_stack it of
        [] \<Rightarrow> it\<lparr>it_stack := push_right (it_root it) []\<rparr>
      | n # st \<Rightarrow>
          it\<lparr>it_stack :=
            (if isTerminator (left n) then climb_right n st
             else push_right (right (left n)) (left n # n # st))\<rparr>)"

text \<open>The descent of \<open>lower_bound\<close>; the flag tells that the key itself was found.\<close>

fun descend :: "('v \<Rightarrow> 'k::linorder) \<Rightarrow> 'k \<Rightarrow> 'v node \<Rightarrow> 'v node list \<Rightarrow> 'v node list \<times> bool" where
  "descend kov k Terminator st = (st, False)"
| "descend kov k (Node l r v h) st =
     (if k < kov v then descend kov k l (Node l r v h # st)
      else if kov v < k then descend kov k r (Node l r v h # st)
      else (Node l r v h # st, True))"

definition lower_bound :: "('v \<Rightarrow> 'k::linorder) \<Rightarrow> 'k \<Rightarrow> 'v node \<Rightarrow> 'v iterator result" where
  "lower_bound kov k t =
     (let (st, found) = descend kov k t []; it = \<lparr>it_root = t, it_stack = st\<rparr> in
      if found then Inr it
      else (case st of
              [] \<Rightarrow> Inr it
            | n # _ \<Rightarrow> if kov (node_value n) < k then it_next it else Inr it))"

definition upper_bound :: "('v \<Rightarrow> 'k::linorder) \<Rightarrow> 'k \<Rightarrow> 'v node \<Rightarrow> 'v iterator result" where
  "upper_bound kov k t =
     bind_result (lower_bound kov k t) (\<lambda>it.
       if it_stack it = [] then Inr it
       else bind_result (it_deref it) (\<lambda>v.
         if \<not> k < kov v then it_next it else Inr it))"

definition find_node :: "('v \<Rightarrow> 'k::linorder) \<Rightarrow> 'k \<Rightarrow> 'v node \<Rightarrow> 'v iterator result" where
  "find_node kov k t =
     bind_result (lower_bound kov k t) (\<lambda>it.
       if it_stack it = [] then Inr (it_new t False)
       else bind_result (it_deref it) (\<lambda>v.
         if k < kov v then Inr (it_new t False) else Inr it))"

subsection \<open>What is left to visit\<close>

fun rest_above :: "'v node \<Rightarrow> 'v node list \<Rightarrow> 'v list" where
  "rest_above prev [] = []"
| "rest_above prev (n # st) =
     (if prev = left n then node_value n # inorder (right n) @ rest_above n st
      else rest_above n st)"

fun it_rest :: "'v node list \<Rightarrow> 'v list" where
  "it_rest [] = []"
| "it_rest (n # st) = node_value n # inorder (right n) @ rest_above n st"

text \<open>A stack is a path from the root down to the current node.\<close>

fun path_stack :: "'v node \<Rightarrow> 'v node list \<Rightarrow> bool" where
  "path_stack root [] = True"
| "path_stack root [n] = (n = root \<and> n \<noteq> Terminator)"
| "path_stack root (n # p # st) =
     ((n = left p \<or> n = right p) \<and> n \<noteq> Terminator \<and> path_stack root (p # st))"

definition it_inv :: "('v \<Rightarrow> 'k::linorder) \<Rightarrow> 'v iterator \<Rightarrow> bool" where
  "it_inv kov it \<longleftrightarrow> tree_inv kov (it_root it) \<and> path_stack (it_root it) (it_stack it)"

section \<open>Contents\<close>

lemma isTerminator_simps [simp]:
  "isTerminator Terminator"
  "\<not> isTerminator (Node l r v h)"
  by (simp_all add: isTerminator_def)

lemma isTerminator_iff: "isTerminator t \<longleftrightarrow> t = Terminator"
  by (cases t) simp_all

lemma inorder_new_Node [simp]: "inorder (new_Node l r v) = inorder l @ v # inorder r"
  by (simp add: new_Node_def)

lemma inorder_parts: "n < height t \<Longrightarrow> inorder t = inorder (left t) @ node_value t # inorder (right t)"
  by (cases t) simp_all

lemma inorder_balance [simp]: "inorder (balance l v r) = inorder l @ v # inorder r"
  using inorder_parts [of "height r + 2" l] inorder_parts [of "height l + 2" r]
    inorder_parts [of "height (left l)" "right l"] inorder_parts [of "height (right r)" "left r"]
  by (auto simp: balance_def Let_def)

lemma inorder_popMin:
  "t \<noteq> Terminator \<Longrightarrow> \<exists>m t'. popMin t = (Some m, t') \<and> inorder t = m # inorder t'"
  by (induction t) (auto simp: isTerminator_iff split: prod.splits)

lemma inorder_popMax:
  "t \<noteq> Terminator \<Longrightarrow> \<exists>m t'. popMax t = (Some m, t') \<and> inorder t = inorder t' @ [m]"
  by (induction t) (auto simp: isTerminator_iff split: prod.splits)

lemma key_sorted_simps [simp]:
  "key_sorted kov []"
  "key_sorted kov (xs @ v # ys) \<longleftrightarrow>
     key_sorted kov xs \<and> key_sorted kov ys \<and>
     (\<forall>x \<in> set xs. kov x < kov v) \<and> (\<forall>y \<in> set ys. kov v < kov y)"
  by (auto simp: key_sorted_def sorted_wrt_append intro: less_trans)

lemma key_sorted_Cons [simp]:
  "key_sorted kov (v # ys) \<longleftrightarrow> key_sorted kov ys \<and> (\<forall>y \<in> set ys. kov v < kov y)"
  using key_sorted_simps(2) [of kov "[]"] by simp

lemma node_size_inorder: "node_size t = length (inorder t)"
  by (induction t) simp_all

text \<open>What the updates do to the set of stored values.\<close>

lemma set_insert_node:
  "key_sorted kov (inorder t) \<Longrightarrow>
   set (inorder (insert_node kov v t)) =
     (if \<exists>w \<in> set (inorder t). kov w = kov v then set (inorder t)
      else insert v (set (inorder t)))"
proof (induction t)
  case (Node l r w h)
  then show ?case
    by (cases "kov v" "kov w" rule: linorder_cases) (auto dest: less_asym)
qed simp

lemma set_replace_node:
  "key_sorted kov (inorder t) \<Longrightarrow>
   set (inorder (replace_node kov v t)) = insert v {w \<in> set (inorder t). kov w \<noteq> kov v}"
  by (induction t) auto

lemma set_remove_node:
  "key_sorted kov (inorder t) \<Longrightarrow>
   set (inorder (remove_node kov k t)) = {w \<in> set (inorder t). kov w \<noteq> k}"
proof (induction t)
  case (Node l r w h)
  show ?case
  proof (cases "kov w = k \<and> \<not> isTerminator l \<and> \<not> isTerminator r")
    case True
    then obtain m r' where "popMin r = (Some m, r')" "inorder r = m # inorder r'"
      using inorder_popMin [of r] by (auto simp: isTerminator_iff)
    with True Node.prems show ?thesis by auto
  next
    case False
    with Node show ?thesis by (auto simp: isTerminator_iff)
  qed
qed simp

text \<open>Every update keeps the values in key order.\<close>

lemma sorted_insert_node:
  "key_sorted kov (inorder t) \<Longrightarrow> key_sorted kov (inorder (insert_node kov v t))"
  by (induction t) (auto simp: set_insert_node)

lemma sorted_replace_node:
  "key_sorted kov (inorder t) \<Longrightarrow> key_sorted kov (inorder (replace_node kov v t))"
  by (induction t) (auto simp: set_replace_node)

lemma sorted_remove_node:
  "key_sorted kov (inorder t) \<Longrightarrow> key_sorted kov (inorder (remove_node kov k t))"
proof (induction t)
  case (Node l r w h)
  show ?case
  proof (cases "kov w = k \<and> \<not> isTerminator l \<and> \<not> isTerminator r")
    case True
    then obtain m r' where "popMin r = (Some m, r')" "inorder r = m # inorder r'"
      using inorder_popMin [of r] by (auto simp: isTerminator_iff)
    moreover from this Node.prems have "x \<in> set (inorder l) \<Longrightarrow> kov x < kov m" for x
      by (auto intro: less_trans [of _ "kov w"])
    ultimately show ?thesis using True Node.prems by simp
  next
    case False
    with Node show ?thesis by (auto simp: isTerminator_iff set_remove_node)
  qed
qed simp

text \<open>Queries in terms of the stored values.\<close>

lemma lookup_node_iff:
  "key_sorted kov (inorder t) \<Longrightarrow>
   lookup_node kov k t = Some v \<longleftrightarrow> v \<in> set (inorder t) \<and> kov v = k"
proof (induction t)
  case (Node l r w h)
  then show ?case
    by (cases k "kov w" rule: linorder_cases) (auto dest: less_asym)
qed simp

lemma lookup_node_None_iff:
  "key_sorted kov (inorder t) \<Longrightarrow>
   lookup_node kov k t = None \<longleftrightarrow> (\<forall>v \<in> set (inorder t). kov v \<noteq> k)"
  using lookup_node_iff [of kov t k] by (metis not_None_eq)

lemma count_node_iff: "count_node kov k t = (case lookup_node kov k t of None \<Rightarrow> 0 | Some _ \<Rightarrow> 1)"
  by (induction t) simp_all

lemma lookup_previous_loop_iff:
  "key_sorted kov (inorder t) \<Longrightarrow>
   lookup_previous_loop kov k res t =
     (case rev (filter (\<lambda>v. kov v \<le> k) (inorder t)) of [] \<Rightarrow> res | v # _ \<Rightarrow> Some v)"
proof (induction t arbitrary: res)
  case (Node l r w h)
  consider "k < kov w" | "kov w < k" | "k = kov w" by fastforce
  then show ?case
  proof cases
    case 1
    with Node.prems have "filter (\<lambda>v. kov v \<le> k) (inorder r) = []"
      by (auto simp: filter_empty_conv)
    moreover from 1 have "\<not> kov w \<le> k" by simp
    ultimately show ?thesis using 1 Node by simp
  next
    case 2
    with Node show ?thesis by (auto split: list.splits)
  next
    case 3
    with Node.prems have "filter (\<lambda>v. kov v \<le> k) (inorder r) = []"
      by (auto simp: filter_empty_conv)
    with 3 show ?thesis by simp
  qed
qed simp

lemma last_filter_key_sorted:
  assumes "key_sorted kov xs" "rev (filter (\<lambda>v. kov v \<le> k) xs) = v # vs"
  shows "v \<in> set xs \<and> kov v \<le> k \<and> (\<forall>w \<in> set xs. kov w \<le> k \<longrightarrow> kov w \<le> kov v)"
proof -
  have eq: "filter (\<lambda>v. kov v \<le> k) xs = rev vs @ [v]"
    using arg_cong [OF assms(2), of rev] by simp
  have "key_sorted kov (filter (\<lambda>v. kov v \<le> k) xs)"
    using assms(1) by (induction xs) auto
  then have "\<forall>w \<in> set vs. kov w < kov v" unfolding eq by simp
  moreover have "set (filter (\<lambda>v. kov v \<le> k) xs) = insert v (set vs)" unfolding eq by simp
  ultimately show ?thesis by (auto simp: set_eq_iff le_less)
qed

lemma lookup_previous_Some:
  assumes "key_sorted kov (inorder t)" "lookup_previous kov k t = Some v"
  shows "v \<in> set (inorder t) \<and> kov v \<le> k \<and>
         (\<forall>w \<in> set (inorder t). kov w \<le> k \<longrightarrow> kov w \<le> kov v)"
proof -
  from assms obtain vs where "rev (filter (\<lambda>v. kov v \<le> k) (inorder t)) = v # vs"
    by (auto simp: lookup_previous_def lookup_previous_loop_iff simp del: rev_eq_Cons_iff
        split: list.splits)
  with assms(1) show ?thesis by (rule last_filter_key_sorted)
qed

lemma lookup_previous_None:
  assumes "key_sorted kov (inorder t)" "lookup_previous kov k t = None" "w \<in> set (inorder t)"
  shows "k < kov w"
proof -
  from assms(1,2) have "filter (\<lambda>v. kov v \<le> k) (inorder t) = []"
    by (simp add: lookup_previous_def lookup_previous_loop_iff split: list.splits)
  with assms(3) show ?thesis by (auto simp: filter_empty_conv not_le)
qed

section \<open>Balance\<close>

lemma height_new_Node [simp]: "height (new_Node l r v) = max (height l) (height r) + 1"
  by (simp add: new_Node_def)

lemma balanced_new_Node [simp]:
  "balanced (new_Node l r v) \<longleftrightarrow>
     height l \<le> height r + 2 \<and> height r \<le> height l + 2 \<and> balanced l \<and> balanced r"
  by (simp add: new_Node_def)

lemma balanced_parts:
  "balanced t \<Longrightarrow> n < height t \<Longrightarrow>
     height t = max (height (left t)) (height (right t)) + 1 \<and>
     height (left t) \<le> height (right t) + 2 \<and> height (right t) \<le> height (left t) + 2 \<and>
     balanced (left t) \<and> balanced (right t)"
  by (cases t) simp_all

text \<open>
  Where one subtree is at most three levels higher, \<open>balance\<close> restores the invariant, and the
  height grows by at most one over the higher subtree.
\<close>

lemma balance_spec:
  assumes "balanced l" "balanced r" "height l \<le> height r + 3" "height r \<le> height l + 3"
  shows "balanced (balance l v r) \<and>
    height (balance l v r) \<in> {max (height l) (height r), max (height l) (height r) + 1}"
proof -
  consider
      (LL) "height l > height r + 2" "height (left l) \<ge> height (right l)"
    | (LR) "height l > height r + 2" "height (left l) < height (right l)"
    | (RR) "height r > height l + 2" "height (right r) \<ge> height (left r)"
    | (RL) "height r > height l + 2" "height (right r) < height (left r)"
    | (N) "height l \<le> height r + 2" "height r \<le> height l + 2"
    by linarith
  then show ?thesis
  proof cases
    case LL
    with balanced_parts [OF assms(1) LL(1)] assms show ?thesis
      by (simp add: balance_def Let_def) linarith
  next
    case LR
    from balanced_parts [OF assms(1) LR(1)] have "balanced (right l)" by simp
    from balanced_parts [OF this LR(2)] balanced_parts [OF assms(1) LR(1)] LR assms
    show ?thesis by (simp add: balance_def Let_def) linarith
  next
    case RR
    with balanced_parts [OF assms(2) RR(1)] assms show ?thesis
      by (simp add: balance_def Let_def) linarith
  next
    case RL
    from balanced_parts [OF assms(2) RL(1)] have "balanced (left r)" by simp
    from balanced_parts [OF this RL(2)] balanced_parts [OF assms(2) RL(1)] RL assms
    show ?thesis by (simp add: balance_def Let_def) linarith
  next
    case N
    with assms show ?thesis by (simp add: balance_def)
  qed
qed

lemma balance_level:
  assumes "height l \<le> height r + 2" "height r \<le> height l + 2"
  shows "height (balance l v r) = max (height l) (height r) + 1"
  using assms by (simp add: balance_def)

text \<open>
  One subtree has been replaced by one whose height differs by at most one: the tree stays
  balanced and its own height changes by at most one in the same direction.
\<close>

lemma balance_grow:
  assumes "balanced l'" "balanced r'"
    and "height l \<le> height r + 2" "height r \<le> height l + 2"
    and "height l' \<in> {height l, height l + 1} \<and> height r' = height r \<or>
         height l' = height l \<and> height r' \<in> {height r, height r + 1}"
  shows "balanced (balance l' v r') \<and>
    height (balance l' v r') \<in> {max (height l) (height r) + 1, max (height l) (height r) + 2}"
proof -
  have "height l' \<le> height r' + 3" "height r' \<le> height l' + 3" using assms(3-5) by auto
  note b = balance_spec [OF assms(1,2) this, of v]
  show ?thesis
  proof (cases "height l' \<le> height r' + 2 \<and> height r' \<le> height l' + 2")
    case True
    with balance_level [of l' r' v] b assms(3-5) show ?thesis by auto
  next
    case False
    with b assms(3-5) show ?thesis by auto
  qed
qed

lemma balance_shrink:
  assumes "balanced l'" "balanced r'"
    and "height l \<le> height r + 2" "height r \<le> height l + 2"
    and "height l \<in> {height l', height l' + 1} \<and> height r' = height r \<or>
         height l' = height l \<and> height r \<in> {height r', height r' + 1}"
  shows "balanced (balance l' v r') \<and>
    max (height l) (height r) + 1 \<in> {height (balance l' v r'), height (balance l' v r') + 1}"
proof -
  have "height l' \<le> height r' + 3" "height r' \<le> height l' + 3" using assms(3-5) by auto
  note b = balance_spec [OF assms(1,2) this, of v]
  show ?thesis
  proof (cases "height l' \<le> height r' + 2 \<and> height r' \<le> height l' + 2")
    case True
    with balance_level [of l' r' v] b assms(3-5) show ?thesis by auto
  next
    case False
    with b assms(3-5) show ?thesis by auto
  qed
qed

lemma balanced_insert_node:
  "balanced t \<Longrightarrow> balanced (insert_node kov v t) \<and>
     height (insert_node kov v t) \<in> {height t, height t + 1}"
proof (induction t)
  case (Node l r w h)
  consider "kov v < kov w" | "kov w < kov v" "\<not> kov v < kov w"
    | "\<not> kov v < kov w" "\<not> kov w < kov v" by blast
  then show ?case
  proof cases
    case 1
    with Node balance_grow [of "insert_node kov v l" r l r w] show ?thesis by simp
  next
    case 2
    with Node balance_grow [of l "insert_node kov v r" l r w] show ?thesis by simp
  next
    case 3
    with Node show ?thesis by simp
  qed
qed simp

lemma balanced_replace_node:
  "balanced t \<Longrightarrow> balanced (replace_node kov v t) \<and>
     height (replace_node kov v t) \<in> {height t, height t + 1}"
proof (induction t)
  case (Node l r w h)
  consider "kov v < kov w" | "kov w < kov v" "\<not> kov v < kov w"
    | "\<not> kov v < kov w" "\<not> kov w < kov v" by blast
  then show ?case
  proof cases
    case 1
    with Node balance_grow [of "replace_node kov v l" r l r w] show ?thesis by simp
  next
    case 2
    with Node balance_grow [of l "replace_node kov v r" l r w] show ?thesis by simp
  next
    case 3
    with Node show ?thesis by simp
  qed
qed simp

lemma balanced_popMin:
  "balanced t \<Longrightarrow> t \<noteq> Terminator \<Longrightarrow>
   balanced (snd (popMin t)) \<and> height t \<in> {height (snd (popMin t)), height (snd (popMin t)) + 1}"
proof (induction t)
  case (Node l r w h)
  then show ?case
    using balance_shrink [of "snd (popMin l)" r l r w]
    by (cases "isTerminator l") (auto simp: isTerminator_iff split: prod.splits)
qed simp

lemma balanced_popMax:
  "balanced t \<Longrightarrow> t \<noteq> Terminator \<Longrightarrow>
   balanced (snd (popMax t)) \<and> height t \<in> {height (snd (popMax t)), height (snd (popMax t)) + 1}"
proof (induction t)
  case (Node l r w h)
  then show ?case
    using balance_shrink [of l "snd (popMax r)" l r w]
    by (cases "isTerminator r") (auto simp: isTerminator_iff split: prod.splits)
qed simp


lemma balanced_remove_node:
  "balanced t \<Longrightarrow> balanced (remove_node kov k t) \<and>
     height t \<in> {height (remove_node kov k t), height (remove_node kov k t) + 1}"
proof (induction t)
  case (Node l r w h)
  consider "k < kov w" | "kov w < k" "\<not> k < kov w"
    | "\<not> k < kov w" "\<not> kov w < k" "isTerminator l \<or> isTerminator r"
    | "\<not> k < kov w" "\<not> kov w < k" "\<not> isTerminator l" "\<not> isTerminator r" by blast
  then show ?case
  proof cases
    case 1
    with Node balance_shrink [of "remove_node kov k l" r l r w] show ?thesis by simp
  next
    case 2
    with Node balance_shrink [of l "remove_node kov k r" l r w] show ?thesis by simp
  next
    case 3
    with Node.prems show ?thesis by (auto simp: isTerminator_iff)
  next
    case 4
    obtain out nr where p: "popMin r = (out, nr)" by fastforce
    with 4 Node.prems balanced_popMin [of r] have
      "balanced nr" "height r \<in> {height nr, height nr + 1}"
      by (simp_all add: isTerminator_iff)
    with 4 p Node.prems balance_shrink [of l nr l r] show ?thesis
      by (auto split: option.splits)
  qed
qed simp

text \<open>A tree of height \<open>h\<close> holds at least \<open>2 powr (h / 2) - 1\<close> values.\<close>

lemma sum_square_bound:
  fixes a b n :: nat
  assumes "4 * n \<le> a\<^sup>2" "n \<le> b\<^sup>2"
  shows "8 * n \<le> (a + b)\<^sup>2"
proof -
  have "(2 * n)\<^sup>2 \<le> (a * b)\<^sup>2"
    using mult_mono [OF assms] by (simp add: power2_eq_square algebra_simps)
  then have "2 * n \<le> a * b" by (rule power2_le_imp_le) simp
  then have "4 * n \<le> 2 * (a * b)" by simp
  with assms show ?thesis by (simp add: power2_sum)
qed

lemma two_power_height:
  "balanced t \<Longrightarrow> 2 ^ height t \<le> (node_size t + 1)\<^sup>2"
proof (induction t)
  case (Node l r v h)
  let ?a = "node_size l + 1" and ?b = "node_size r + 1"
  have IH: "2 ^ height l \<le> ?a\<^sup>2" "2 ^ height r \<le> ?b\<^sup>2" using Node by simp_all
  have sum: "node_size (Node l r v h) + 1 = ?a + ?b" by simp
  show ?case
  proof (cases "max (height l) (height r) \<le> 1")
    case True
    then consider "height l = 1 \<or> height r = 1" | "height l = 0" "height r = 0" by linarith
    then show ?thesis
    proof cases
      case 1
      then have "1 \<le> node_size l \<or> 1 \<le> node_size r" by (cases l; cases r) auto
      then have "3 \<le> node_size (Node l r v h) + 1" by auto
      then have "3\<^sup>2 \<le> (node_size (Node l r v h) + 1)\<^sup>2" by (rule power_mono) simp
      moreover have "height (Node l r v h) = 2" using 1 True Node.prems by auto
      ultimately show ?thesis by simp
    next
      case 2
      have "2\<^sup>2 \<le> (node_size (Node l r v h) + 1)\<^sup>2" by (rule power_mono) auto
      with 2 Node.prems show ?thesis by simp
    qed
  next
    case False
    define m where "m = max (height l) (height r) - 2"
    have m: "max (height l) (height r) = m + 2" using False unfolding m_def by linarith
    have "4 * 2 ^ m \<le> ?a\<^sup>2 \<and> 2 ^ m \<le> ?b\<^sup>2 \<or> 4 * 2 ^ m \<le> ?b\<^sup>2 \<and> 2 ^ m \<le> ?a\<^sup>2"
    proof (cases "height l \<ge> height r")
      case True
      with m Node.prems have "height l = m + 2" "m \<le> height r" by auto
      with IH show ?thesis
        by (auto intro: order.trans [OF power_increasing, of m "height r"])
    next
      case False
      with m Node.prems have "height r = m + 2" "m \<le> height l" by auto
      with IH show ?thesis
        by (auto intro: order.trans [OF power_increasing, of m "height l"])
    qed
    then have "8 * 2 ^ m \<le> (?a + ?b)\<^sup>2"
      using sum_square_bound [of "2 ^ m" ?a ?b] sum_square_bound [of "2 ^ m" ?b ?a]
      by (auto simp: add.commute)
    moreover have "height (Node l r v h) = m + 3" using Node.prems m by simp
    ultimately show ?thesis unfolding sum by (simp add: power_add)
  qed
qed simp



section \<open>Iteration\<close>

lemma it_rest_push_left:
  "t \<noteq> Terminator \<Longrightarrow> it_rest (push_left t st) = inorder t @ rest_above t st"
proof (induction t arbitrary: st)
  case (Node l r v h)
  then show ?case by (cases "l = Terminator") simp_all
qed simp

lemma it_rest_climb_left: "it_rest (climb_left n st) = rest_above n st"
  by (induction n st rule: climb_left.induct) auto

lemma begin_rest: "it_rest (it_stack (it_new t True)) = inorder t"
  using it_rest_push_left [of t "[]"] by (cases "t = Terminator") (simp_all add: it_new_def)


lemma path_stack_tl: "path_stack root (n # st) \<Longrightarrow> path_stack root st"
  by (cases st) simp_all

lemma path_stack_hd: "path_stack root (n # st) \<Longrightarrow> n \<noteq> Terminator"
  by (cases st) auto

lemma path_stack_sorted:
  "path_stack root (n # st) \<Longrightarrow> key_sorted kov (inorder root) \<Longrightarrow> key_sorted kov (inorder n)"
proof (induction st arbitrary: n)
  case (Cons p st)
  then have "key_sorted kov (inorder p)" "n = left p \<or> n = right p" by simp_all
  then show ?case by (cases p) auto
qed simp

lemma right_neq_left:
  "key_sorted kov (inorder n) \<Longrightarrow> right n \<noteq> Terminator \<Longrightarrow> right n \<noteq> left n"
proof
  assume s: "key_sorted kov (inorder n)" "right n \<noteq> Terminator" "right n = left n"
  then obtain l r v h where n: "n = Node l r v h" by (cases n) auto
  with s obtain w where "w \<in> set (inorder r)" by (cases r) auto
  with n s have "kov w < kov v" "kov v < kov w" by auto
  then show False by (simp add: less_asym)
qed

lemma path_stack_push_left:
  "t = left n \<Longrightarrow> path_stack root (n # st) \<Longrightarrow> path_stack root (push_left t (n # st))"
proof (induction t arbitrary: n st)
  case (Node l r v h)
  from Node.prems have "path_stack root (Node l r v h # n # st)"
    by (simp flip: Node.prems(1))
  with Node.IH(1) [of "Node l r v h" "n # st"] show ?case by simp
qed simp

lemma path_stack_climb_left: "path_stack root (n # st) \<Longrightarrow> path_stack root (climb_left n st)"
proof (induction st arbitrary: n)
  case (Cons p st)
  then show ?case using path_stack_tl [OF Cons.prems] by simp
qed simp

text \<open>Advancing drops exactly the current value from what is left to visit.\<close>

lemma it_next_rest:
  assumes "it_inv kov it" "it_stack it \<noteq> []"
  shows "\<exists>it'. it_next it = Inr it' \<and> it_root it' = it_root it \<and> it_inv kov it' \<and>
           it_rest (it_stack it') = tl (it_rest (it_stack it))"
proof -
  from assms(2) obtain n st where st: "it_stack it = n # st" by (cases "it_stack it") auto
  with assms(1) have p: "path_stack (it_root it) (n # st)" and
    s: "key_sorted kov (inorder (it_root it))"
    by (auto simp: it_inv_def tree_inv_def)
  show ?thesis
  proof (cases "right n = Terminator")
    case True
    with st p assms(1) show ?thesis
      by (simp add: it_next_def it_inv_def it_rest_climb_left path_stack_climb_left)
  next
    case False
    then have neq: "right n \<noteq> left n" using path_stack_sorted [OF p s] right_neq_left by blast
    have pr: "path_stack (it_root it) (right n # n # st)" using p False by simp
    have "push_left (left (right n)) (right n # n # st) = push_left (right n) (n # st)"
      using False by (cases "right n") simp_all
    with it_rest_push_left [OF False, of "n # st"] neq st False assms(1) path_stack_push_left [OF refl pr]
    show ?thesis by (simp add: it_next_def it_inv_def isTerminator_iff)
  qed
qed

lemma dropWhile_left:
  "\<forall>x \<in> set xs. kov x < kov v \<Longrightarrow> kov v < (k :: 'k::linorder) \<Longrightarrow>
   dropWhile (\<lambda>v. kov v < k) (xs @ v # ys) = dropWhile (\<lambda>v. kov v < k) ys"
  by (induction xs) (auto intro: less_trans [of _ "kov v"])

lemma dropWhile_here:
  "\<forall>x \<in> set xs. kov x < (kov v :: 'k::linorder) \<Longrightarrow>
   dropWhile (\<lambda>w. kov w < kov v) (xs @ v # ys) = v # ys"
  by (induction xs) auto

lemma dropWhile_right:
  "k < (kov v :: 'k::linorder) \<Longrightarrow>
   dropWhile (\<lambda>v. kov v < k) (xs @ v # ys) = dropWhile (\<lambda>v. kov v < k) xs @ v # ys"
  by (rule dropWhile_append3) (simp add: less_asym)

text \<open>
  The descent stops at the key itself, or at a leaf position; the step of \<open>lower_bound\<close>
  that follows it skips a smaller last value.
\<close>

lemma descend_rest:
  assumes "key_sorted kov (inorder t)" "t \<noteq> Terminator" "descend kov k t st = (st', found)"
  shows "st' \<noteq> [] \<and>
    (if \<not> found \<and> kov (node_value (hd st')) < k then tl (it_rest st') else it_rest st') =
      dropWhile (\<lambda>v. kov v < k) (inorder t) @ rest_above t st"
  using assms
proof (induction t arbitrary: st)
  case (Node l r v h)
  let ?t = "Node l r v h"
  consider (lt) "k < kov v" | (gt) "kov v < k" "\<not> k < kov v" | (eq) "kov v = k" by fastforce
  then show ?case
  proof cases
    case lt
    show ?thesis
    proof (cases "l = Terminator")
      case True
      with lt Node.prems show ?thesis by (auto simp: less_asym)
    next
      case False
      with lt Node.prems Node.IH(1) [of "?t # st"] show ?thesis
        by (simp add: dropWhile_right)
    qed
  next
    case gt
    show ?thesis
    proof (cases "r = Terminator")
      case True
      with gt Node.prems show ?thesis by (auto simp: dropWhile_left)
    next
      case False
      with right_neq_left [of kov ?t] Node.prems have "r \<noteq> l" by simp
      with False gt Node.prems Node.IH(2) [of "?t # st"] show ?thesis
        by (simp add: dropWhile_left)
    qed
  next
    case eq
    with Node.prems show ?thesis by (auto simp: dropWhile_here)
  qed
qed simp

lemma path_stack_descend:
  "descend kov k t st = (st', found) \<Longrightarrow> t \<noteq> Terminator \<Longrightarrow> path_stack root (t # st) \<Longrightarrow>
   path_stack root st'"
proof (induction t arbitrary: st)
  case (Node l r v h)
  let ?t = "Node l r v h"
  have "l \<noteq> Terminator \<Longrightarrow> path_stack root (l # ?t # st)"
    "r \<noteq> Terminator \<Longrightarrow> path_stack root (r # ?t # st)" using Node.prems(3) by simp_all
  with Node show ?case
    by (cases "l = Terminator"; cases "r = Terminator") (auto split: if_splits)
qed simp

lemma lower_bound_rest:
  assumes "tree_inv kov t"
  shows "\<exists>it. lower_bound kov k t = Inr it \<and> it_root it = t \<and> it_inv kov it \<and>
           it_rest (it_stack it) = dropWhile (\<lambda>v. kov v < k) (inorder t)"
proof (cases "t = Terminator")
  case True
  with assms show ?thesis by (simp add: lower_bound_def it_inv_def)
next
  case False
  obtain st found where d: "descend kov k t [] = (st, found)" by fastforce
  from assms have ks: "key_sorted kov (inorder t)" by (simp add: tree_inv_def)
  have inv: "it_inv kov \<lparr>it_root = t, it_stack = st\<rparr>"
    using assms False path_stack_descend [OF d False] by (simp add: it_inv_def)
  from descend_rest [OF ks False d] obtain n st0 where st: "st = n # st0" by (cases st) auto
  show ?thesis
  proof (cases "\<not> found \<and> kov (node_value n) < k")
    case True
    then have "lower_bound kov k t = it_next \<lparr>it_root = t, it_stack = st\<rparr>"
      by (simp add: lower_bound_def d st Let_def)
    with it_next_rest [OF inv] descend_rest [OF ks False d] st True show ?thesis by auto
  next
    case False
    then have "lower_bound kov k t = Inr \<lparr>it_root = t, it_stack = st\<rparr>"
      by (auto simp: lower_bound_def d st Let_def)
    with inv descend_rest [OF ks \<open>t \<noteq> Terminator\<close> d] st False show ?thesis by auto
  qed
qed


lemma it_rest_Nil [simp]: "it_rest st = [] \<longleftrightarrow> st = []"
  by (cases st) simp_all

lemma it_deref_rest: "it_stack it \<noteq> [] \<Longrightarrow> it_deref it = Inr (hd (it_rest (it_stack it)))"
  by (cases "it_stack it") (simp_all add: it_deref_def)

lemma dropWhile_le_lt:
  "key_sorted kov xs \<Longrightarrow>
   dropWhile (\<lambda>v. kov v \<le> k) xs =
     (case dropWhile (\<lambda>v. kov v < k) xs of
        [] \<Rightarrow> [] | v # vs \<Rightarrow> if k < kov v then v # vs else vs)"
proof (induction xs)
  case (Cons x xs)
  consider "kov x < k" | "kov x = k" | "k < kov x" by fastforce
  then show ?case
  proof cases
    case 2
    with Cons.prems have "dropWhile (\<lambda>v. kov v \<le> k) xs = xs"
      by (cases xs) (auto simp: not_le)
    with 2 show ?thesis by simp
  next
    case 3
    then have "\<not> kov x < k" "\<not> kov x \<le> k" by auto
    with 3 show ?thesis by simp
  qed (use Cons in auto)
qed simp

lemma hd_dropWhile_less: "dropWhile (\<lambda>v. kov v < k) xs = v # vs \<Longrightarrow> \<not> kov v < k"
  by (metis hd_dropWhile list.discI list.sel(1))

lemma upper_bound_rest:
  assumes "tree_inv kov t"
  shows "\<exists>it. upper_bound kov k t = Inr it \<and> it_root it = t \<and> it_inv kov it \<and>
           it_rest (it_stack it) = dropWhile (\<lambda>v. kov v \<le> k) (inorder t)"
proof -
  from assms have ks: "key_sorted kov (inorder t)" by (simp add: tree_inv_def)
  from lower_bound_rest [OF assms, of k] obtain it where
    it: "lower_bound kov k t = Inr it" "it_root it = t" "it_inv kov it"
      "it_rest (it_stack it) = dropWhile (\<lambda>v. kov v < k) (inorder t)" by blast
  show ?thesis
  proof (cases "it_stack it")
    case Nil
    with it have "dropWhile (\<lambda>v. kov v < k) (inorder t) = []" by simp
    with Nil it show ?thesis by (simp add: upper_bound_def dropWhile_le_lt [OF ks] del: dropWhile_eq_Nil_conv)
  next
    case (Cons n st)
    then have ne: "it_stack it \<noteq> []" by simp
    define v where "v = hd (it_rest (it_stack it))"
    from ne it(4) obtain vs where vs: "dropWhile (\<lambda>v. kov v < k) (inorder t) = v # vs"
      unfolding v_def by (metis it_rest_Nil list.collapse)
    have "upper_bound kov k t = (if \<not> k < kov v then it_next it else Inr it)"
      using it(1) ne by (simp add: upper_bound_def it_deref_rest v_def)
    moreover from it_next_rest [OF it(3) ne] obtain it' where
      "it_next it = Inr it'" "it_root it' = t" "it_inv kov it'" "it_rest (it_stack it') = vs"
      using it vs by auto
    ultimately show ?thesis using it vs by (auto simp: dropWhile_le_lt [OF ks])
  qed
qed

lemma find_node_rest:
  assumes "tree_inv kov t"
  shows "\<exists>it. find_node kov k t = Inr it \<and> it_inv kov it \<and>
           (case lookup_node kov k t of
              None \<Rightarrow> it_stack it = []
            | Some v \<Rightarrow> it_deref it = Inr v)"
proof -
  from assms have ks: "key_sorted kov (inorder t)" by (simp add: tree_inv_def)
  from lower_bound_rest [OF assms, of k] obtain it where
    it: "lower_bound kov k t = Inr it" "it_root it = t" "it_inv kov it"
      "it_rest (it_stack it) = dropWhile (\<lambda>v. kov v < k) (inorder t)" by blast
  have inv0: "it_inv kov (it_new t False)" using assms by (simp add: it_new_def it_inv_def)
  show ?thesis
  proof (cases "it_stack it = []")
    case True
    with it(4) have "\<forall>v \<in> set (inorder t). kov v < k" by (metis dropWhile_eq_Nil_conv it_rest_Nil)
    then have "lookup_node kov k t = None" by (auto simp: lookup_node_None_iff [OF ks])
    with True it inv0 show ?thesis by (simp add: find_node_def it_new_def)
  next
    case False
    define v where "v = hd (it_rest (it_stack it))"
    from False it(4) obtain vs where vs: "dropWhile (\<lambda>v. kov v < k) (inorder t) = v # vs"
      unfolding v_def by (metis it_rest_Nil list.collapse)
    have split: "inorder t = takeWhile (\<lambda>v. kov v < k) (inorder t) @ v # vs"
      by (metis takeWhile_dropWhile_id vs)
    have small: "w \<in> set (takeWhile (\<lambda>v. kov v < k) (inorder t)) \<Longrightarrow> kov w < k" for w
      by (auto dest: set_takeWhileD)
    have fnd: "find_node kov k t = (if k < kov v then Inr (it_new t False) else Inr it)"
      using it(1) False by (simp add: find_node_def it_deref_rest v_def)
    have dr: "it_deref it = Inr v" using False by (simp add: it_deref_rest v_def)
    have big: "\<forall>w \<in> set vs. kov v < kov w"
      using ks by (subst (asm) split) simp
    show ?thesis
    proof (cases "k < kov v")
      case True
      then have "\<forall>w \<in> set (inorder t). kov w \<noteq> k"
        using small big by (subst split) (auto dest: less_trans)
      then have "lookup_node kov k t = None" by (simp add: lookup_node_None_iff [OF ks])
      with True fnd inv0 show ?thesis by (simp add: it_new_def)
    next
      case False
      with hd_dropWhile_less [OF vs] have "kov v = k" by auto
      then have "lookup_node kov k t = Some v"
        unfolding lookup_node_iff [OF ks] by (subst split) simp
      with False fnd it dr show ?thesis by simp
    qed
  qed
qed

text \<open>The fixed-size stack of an iterator, sized by the root's height, never overflows.\<close>

lemma path_stack_height:
  "path_stack root (n # st) \<Longrightarrow> balanced root \<Longrightarrow> balanced n \<and> height n + length st \<le> height root"
proof (induction st arbitrary: n)
  case (Cons p st)
  then have "balanced p" "height p + length st \<le> height root" "n = left p \<or> n = right p" by simp_all
  moreover have "p \<noteq> Terminator" using Cons.prems(1) by (auto dest: path_stack_tl path_stack_hd)
  ultimately show ?case by (cases p) auto
qed simp

lemma it_stack_bound:
  assumes "it_inv kov it"
  shows "length (it_stack it) \<le> height (it_root it)"
proof (cases "it_stack it")
  case (Cons n st)
  with assms have p: "path_stack (it_root it) (n # st)" "balanced (it_root it)"
    by (simp_all add: it_inv_def tree_inv_def)
  from path_stack_height [OF p] path_stack_hd [OF p(1)] show ?thesis
    by (cases n) (auto simp: Cons)
qed simp


text \<open>Stepping back puts the value before the current position in front of it.\<close>

lemma path_stack_push_right:
  "t = right n \<Longrightarrow> path_stack root (n # st) \<Longrightarrow> path_stack root (push_right t (n # st))"
proof (induction t arbitrary: n st)
  case (Node l r v h)
  from Node.prems have "path_stack root (Node l r v h # n # st)"
    by (simp flip: Node.prems(1))
  with Node.IH(2) [of "Node l r v h" "n # st"] show ?case by simp
qed simp

lemma path_stack_climb_right: "path_stack root (n # st) \<Longrightarrow> path_stack root (climb_right n st)"
proof (induction st arbitrary: n)
  case (Cons p st)
  then show ?case using path_stack_tl [OF Cons.prems] by simp
qed simp

lemma it_rest_push_right:
  "t \<noteq> Terminator \<Longrightarrow> key_sorted kov (inorder t) \<Longrightarrow>
   it_rest (push_right t st) = last (inorder t) # rest_above t st"
proof (induction t arbitrary: st)
  case (Node l r v h)
  show ?case
  proof (cases "r = Terminator")
    case False
    with right_neq_left [of kov "Node l r v h"] Node.prems have "r \<noteq> l" by simp
    moreover have "inorder r \<noteq> []" using False by (cases r) simp_all
    ultimately show ?thesis using Node False by simp
  qed simp
qed simp

lemma climb_right_rest:
  "path_stack root (n # st) \<Longrightarrow> key_sorted kov (inorder root) \<Longrightarrow>
   (case climb_right n st of
      [] \<Rightarrow> inorder n @ rest_above n st = inorder root
    | p # st' \<Rightarrow> it_rest (p # st') = node_value p # inorder n @ rest_above n st)"
proof (induction st arbitrary: n)
  case (Cons p st)
  have p: "path_stack root (p # st)" "p \<noteq> Terminator" "n \<noteq> Terminator"
    using path_stack_tl [OF Cons.prems(1)] path_stack_hd Cons.prems(1) by blast+
  show ?case
  proof (cases "n = right p")
    case True
    with p right_neq_left [OF path_stack_sorted [OF p(1) Cons.prems(2)]] show ?thesis by auto
  next
    case False
    with Cons.prems(1) have n: "n = left p" by simp
    then have "inorder n @ rest_above n (p # st) = inorder p @ rest_above p st"
      using p(2) by (cases p) simp_all
    with Cons.IH [OF p(1) Cons.prems(2)] False show ?thesis
      by (simp del: rest_above.simps it_rest.simps split: list.splits)
  qed
qed simp

lemma it_prev_rest:
  assumes "it_inv kov it"
  shows "it_inv kov (it_prev it) \<and> it_root (it_prev it) = it_root it \<and>
    (it_rest (it_stack it) \<noteq> inorder (it_root it) \<longrightarrow>
       (\<exists>v. it_rest (it_stack (it_prev it)) = v # it_rest (it_stack it)))"
proof -
  let ?t = "it_root it"
  from assms have s: "key_sorted kov (inorder ?t)" by (simp add: it_inv_def tree_inv_def)
  show ?thesis
  proof (cases "it_stack it")
    case Nil
    show ?thesis
    proof (cases "?t = Terminator")
      case False
      then have "push_right ?t [] = push_right (right ?t) [?t]" by (cases ?t) simp_all
      moreover have "path_stack ?t (push_right (right ?t) [?t])"
        using False path_stack_push_right [of "right ?t" ?t ?t "[]"] by simp
      ultimately show ?thesis
        using Nil assms False it_rest_push_right [OF False s, of "[]"]
        by (simp add: it_prev_def it_inv_def)
    qed (use Nil assms in \<open>simp add: it_prev_def it_inv_def\<close>)
  next
    case (Cons n st)
    with assms have p: "path_stack ?t (n # st)" by (simp add: it_inv_def)
    show ?thesis
    proof (cases "left n = Terminator")
      case True
      with path_stack_hd [OF p] have "it_rest (n # st) = inorder n @ rest_above n st"
        by (cases n) simp_all
      with climb_right_rest [OF p s] path_stack_climb_right [OF p] True Cons assms show ?thesis
        by (auto simp: it_prev_def it_inv_def simp del: it_rest.simps split: list.splits)
    next
      case False
      then have eq: "push_right (right (left n)) (left n # n # st) = push_right (left n) (n # st)"
        by (cases "left n") simp_all
      have pl: "path_stack ?t (left n # n # st)" using p False by simp
      from it_rest_push_right [OF False path_stack_sorted [OF pl s], of "n # st"]
      have "it_rest (push_right (left n) (n # st)) = last (inorder (left n)) # it_rest (n # st)"
        by simp
      with path_stack_push_right [OF refl pl] False Cons assms eq show ?thesis
        by (auto simp: it_prev_def it_inv_def isTerminator_iff)
    qed
  qed
qed

end
