(* ===== verification/ImmutableMap.thy ===== *)
theory ImmutableMap
  imports ImmutableTree
begin

text \<open>
  The interface an ordered persistent map offers its clients, and the two instances of the
  tree: \<open>ImmutableMap.h\<close> (values are key/data pairs, the key is the first component)
  and \<open>ImmutableSet.h\<close> (the value is its own key). The template's comparison \<open>CMP\<close> is a
  function \<open>rank\<close> from the keys into a linear order: two keys are compared by their ranks, as
  \<open>MemoryObjectLT\<close> compares memory objects by address.
\<close>

section \<open>Maps and sets\<close>

type_synonym ('K, 'D) immutable_map = "('K \<times> 'D) node"
type_synonym 'T immutable_set = "'T node"

definition imap_empty :: "('K, 'D) immutable_map \<Rightarrow> bool" where
  "imap_empty m = isTerminator m"

definition imap_count :: "('K \<Rightarrow> 'k::linorder) \<Rightarrow> 'K \<Rightarrow> ('K, 'D) immutable_map \<Rightarrow> nat" where
  "imap_count rank key m = count_node (rank \<circ> fst) (rank key) m"

definition imap_lookup :: "('K \<Rightarrow> 'k::linorder) \<Rightarrow> 'K \<Rightarrow> ('K, 'D) immutable_map \<Rightarrow> ('K \<times> 'D) option" where
  "imap_lookup rank key m = lookup_node (rank \<circ> fst) (rank key) m"

definition imap_lookup_previous :: "('K \<Rightarrow> 'k::linorder) \<Rightarrow> 'K \<Rightarrow> ('K, 'D) immutable_map \<Rightarrow> ('K \<times> 'D) option" where
  "imap_lookup_previous rank key m = lookup_previous (rank \<circ> fst) (rank key) m"

definition imap_min :: "('K, 'D) immutable_map \<Rightarrow> ('K \<times> 'D) result" where
  "imap_min m = min_node m"

definition imap_max :: "('K, 'D) immutable_map \<Rightarrow> ('K \<times> 'D) result" where
  "imap_max m = max_node m"

definition imap_size :: "('K, 'D) immutable_map \<Rightarrow> nat" where
  "imap_size m = node_size m"

definition imap_insert :: "('K \<Rightarrow> 'k::linorder) \<Rightarrow> ('K \<times> 'D) \<Rightarrow> ('K, 'D) immutable_map \<Rightarrow> ('K, 'D) immutable_map" where
  "imap_insert rank v m = insert_node (rank \<circ> fst) v m"

definition imap_replace :: "('K \<Rightarrow> 'k::linorder) \<Rightarrow> ('K \<times> 'D) \<Rightarrow> ('K, 'D) immutable_map \<Rightarrow> ('K, 'D) immutable_map" where
  "imap_replace rank v m = replace_node (rank \<circ> fst) v m"

definition imap_remove :: "('K \<Rightarrow> 'k::linorder) \<Rightarrow> 'K \<Rightarrow> ('K, 'D) immutable_map \<Rightarrow> ('K, 'D) immutable_map" where
  "imap_remove rank key m = remove_node (rank \<circ> fst) (rank key) m"

definition imap_begin :: "('K, 'D) immutable_map \<Rightarrow> ('K \<times> 'D) iterator" where
  "imap_begin m = it_new m True"

definition imap_end :: "('K, 'D) immutable_map \<Rightarrow> ('K \<times> 'D) iterator" where
  "imap_end m = it_new m False"

definition imap_find :: "('K \<Rightarrow> 'k::linorder) \<Rightarrow> 'K \<Rightarrow> ('K, 'D) immutable_map \<Rightarrow> ('K \<times> 'D) iterator result" where
  "imap_find rank key m = find_node (rank \<circ> fst) (rank key) m"

definition imap_lower_bound :: "('K \<Rightarrow> 'k::linorder) \<Rightarrow> 'K \<Rightarrow> ('K, 'D) immutable_map \<Rightarrow> ('K \<times> 'D) iterator result" where
  "imap_lower_bound rank key m = lower_bound (rank \<circ> fst) (rank key) m"

definition imap_upper_bound :: "('K \<Rightarrow> 'k::linorder) \<Rightarrow> 'K \<Rightarrow> ('K, 'D) immutable_map \<Rightarrow> ('K \<times> 'D) iterator result" where
  "imap_upper_bound rank key m = upper_bound (rank \<circ> fst) (rank key) m"

definition iset_empty :: "'T immutable_set \<Rightarrow> bool" where
  "iset_empty m = isTerminator m"

definition iset_count :: "('T \<Rightarrow> 'k::linorder) \<Rightarrow> 'T \<Rightarrow> 'T immutable_set \<Rightarrow> nat" where
  "iset_count rank key m = count_node rank (rank key) m"

definition iset_lookup :: "('T \<Rightarrow> 'k::linorder) \<Rightarrow> 'T \<Rightarrow> 'T immutable_set \<Rightarrow> 'T option" where
  "iset_lookup rank key m = lookup_node rank (rank key) m"

definition iset_min :: "'T immutable_set \<Rightarrow> 'T result" where
  "iset_min m = min_node m"

definition iset_max :: "'T immutable_set \<Rightarrow> 'T result" where
  "iset_max m = max_node m"

definition iset_size :: "'T immutable_set \<Rightarrow> nat" where
  "iset_size m = node_size m"

definition iset_insert :: "('T \<Rightarrow> 'k::linorder) \<Rightarrow> 'T \<Rightarrow> 'T immutable_set \<Rightarrow> 'T immutable_set" where
  "iset_insert rank v m = insert_node rank v m"

definition iset_replace :: "('T \<Rightarrow> 'k::linorder) \<Rightarrow> 'T \<Rightarrow> 'T immutable_set \<Rightarrow> 'T immutable_set" where
  "iset_replace rank v m = replace_node rank v m"

definition iset_remove :: "('T \<Rightarrow> 'k::linorder) \<Rightarrow> 'T \<Rightarrow> 'T immutable_set \<Rightarrow> 'T immutable_set" where
  "iset_remove rank key m = remove_node rank (rank key) m"

definition iset_begin :: "'T immutable_set \<Rightarrow> 'T iterator" where
  "iset_begin m = it_new m True"

definition iset_end :: "'T immutable_set \<Rightarrow> 'T iterator" where
  "iset_end m = it_new m False"

definition iset_find :: "('T \<Rightarrow> 'k::linorder) \<Rightarrow> 'T \<Rightarrow> 'T immutable_set \<Rightarrow> 'T iterator result" where
  "iset_find rank key m = find_node rank (rank key) m"

definition iset_lower_bound :: "('T \<Rightarrow> 'k::linorder) \<Rightarrow> 'T \<Rightarrow> 'T immutable_set \<Rightarrow> 'T iterator result" where
  "iset_lower_bound rank key m = lower_bound rank (rank key) m"

definition iset_upper_bound :: "('T \<Rightarrow> 'k::linorder) \<Rightarrow> 'T \<Rightarrow> 'T immutable_set \<Rightarrow> 'T iterator result" where
  "iset_upper_bound rank key m = upper_bound rank (rank key) m"

section \<open>The interface\<close>

locale ordered_map =
  fixes key :: "'v \<Rightarrow> 'k::linorder"
    and empty :: 't
    and elems :: "'t \<Rightarrow> 'v list"
    and lookup :: "'k \<Rightarrow> 't \<Rightarrow> 'v option"
    and previous :: "'k \<Rightarrow> 't \<Rightarrow> 'v option"
    and replace :: "'v \<Rightarrow> 't \<Rightarrow> 't"
    and remove :: "'k \<Rightarrow> 't \<Rightarrow> 't"
    and invar :: "'t \<Rightarrow> bool"
  assumes invar_empty: "invar empty"
    and invar_replace: "invar m \<Longrightarrow> invar (replace v m)"
    and invar_remove: "invar m \<Longrightarrow> invar (remove k m)"
    and elems_empty: "elems empty = []"
    and elems_sorted: "invar m \<Longrightarrow> sorted_wrt (<) (map key (elems m))"
    and elems_replace:
      "invar m \<Longrightarrow> set (elems (replace v m)) = insert v {w \<in> set (elems m). key w \<noteq> key v}"
    and elems_remove:
      "invar m \<Longrightarrow> set (elems (remove k m)) = {w \<in> set (elems m). key w \<noteq> k}"
    and lookup_iff:
      "invar m \<Longrightarrow> lookup k m = Some v \<longleftrightarrow> v \<in> set (elems m) \<and> key v = k"
    and previous_Some:
      "invar m \<Longrightarrow> previous k m = Some v \<Longrightarrow>
         v \<in> set (elems m) \<and> key v \<le> k \<and> (\<forall>w \<in> set (elems m). key w \<le> k \<longrightarrow> key w \<le> key v)"
    and previous_None:
      "invar m \<Longrightarrow> previous k m = None \<Longrightarrow> w \<in> set (elems m) \<Longrightarrow> k < key w"
begin

lemma lookup_replace:
  "invar m \<Longrightarrow> lookup k (replace v m) = (if k = key v then Some v else lookup k m)"
proof (cases "k = key v")
  case False
  assume "invar m"
  with False have "lookup k (replace v m) = Some w \<longleftrightarrow> lookup k m = Some w" for w
    by (auto simp: lookup_iff invar_replace elems_replace)
  with False show ?thesis by (metis not_Some_eq)
qed (simp add: lookup_iff invar_replace elems_replace)

lemma lookup_remove:
  "invar m \<Longrightarrow> lookup k (remove k' m) = (if k = k' then None else lookup k m)"
proof -
  assume "invar m"
  then have "lookup k (remove k' m) = Some w \<longleftrightarrow> k \<noteq> k' \<and> lookup k m = Some w" for w
    by (auto simp: lookup_iff invar_remove elems_remove)
  then show ?thesis by (metis not_Some_eq)
qed

lemma key_inj:
  "invar m \<Longrightarrow> v \<in> set (elems m) \<Longrightarrow> w \<in> set (elems m) \<Longrightarrow> key v = key w \<Longrightarrow> v = w"
  using lookup_iff [of m "key v" v] lookup_iff [of m "key v" w] by simp

lemma lookup_in: "invar m \<Longrightarrow> v \<in> set (elems m) \<Longrightarrow> lookup (key v) m = Some v"
  by (simp add: lookup_iff)

lemma previous_unique:
  assumes "invar m" "v \<in> set (elems m)" "key v \<le> k"
    and "\<And>w. w \<in> set (elems m) \<Longrightarrow> key v < key w \<Longrightarrow> k < key w"
  shows "previous k m = Some v"
proof (cases "previous k m")
  case None
  from previous_None [OF assms(1) None assms(2)] assms(3) show ?thesis by simp
next
  case (Some w)
  from previous_Some [OF assms(1) Some] assms(2,3)
  have w: "w \<in> set (elems m)" "key w \<le> k" "key v \<le> key w" by auto
  with assms(4) have "key v = key w" by (meson leD le_neq_trans)
  with w(1) have "w = v" using key_inj [OF assms(1) assms(2) w(1)] by simp
  with Some show ?thesis by simp
qed

end

lemma tree_inv_simps [simp]:
  "tree_inv kov Terminator"
  "tree_inv kov t \<Longrightarrow> tree_inv kov (insert_node kov v t)"
  "tree_inv kov t \<Longrightarrow> tree_inv kov (replace_node kov v t)"
  "tree_inv kov t \<Longrightarrow> tree_inv kov (remove_node kov k t)"
  by (simp_all add: tree_inv_def balanced_insert_node balanced_replace_node balanced_remove_node
      sorted_insert_node sorted_replace_node sorted_remove_node)

interpretation tree: ordered_map kov Terminator inorder "lookup_node kov" "lookup_previous kov"
  "replace_node kov" "remove_node kov" "tree_inv kov"
  for kov :: "'v \<Rightarrow> 'k::linorder"
proof unfold_locales
  fix m :: "'v node" and k v
  assume m: "tree_inv kov m"
  then have ks: "key_sorted kov (inorder m)" by (simp add: tree_inv_def)
  show "sorted_wrt (<) (map kov (inorder m))" using ks by (simp add: key_sorted_def)
  show "set (inorder (replace_node kov v m)) = insert v {w \<in> set (inorder m). kov w \<noteq> kov v}"
    by (rule set_replace_node [OF ks])
  show "set (inorder (remove_node kov k m)) = {w \<in> set (inorder m). kov w \<noteq> k}"
    by (rule set_remove_node [OF ks])
  show "lookup_node kov k m = Some v \<longleftrightarrow> v \<in> set (inorder m) \<and> kov v = k"
    by (rule lookup_node_iff [OF ks])
  show "lookup_previous kov k m = Some v \<Longrightarrow> v \<in> set (inorder m) \<and> kov v \<le> k \<and>
          (\<forall>w \<in> set (inorder m). kov w \<le> k \<longrightarrow> kov w \<le> kov v)"
    by (rule lookup_previous_Some [OF ks])
  show "lookup_previous kov k m = None \<Longrightarrow> v \<in> set (inorder m) \<Longrightarrow> k < kov v"
    by (rule lookup_previous_None [OF ks])
qed simp_all

text \<open>A map with distinct ranks is a finite partial function on the keys.\<close>

definition imap_inv :: "('K \<Rightarrow> 'k::linorder) \<Rightarrow> ('K, 'D) immutable_map \<Rightarrow> bool" where
  "imap_inv rank m = tree_inv (rank \<circ> fst) m"

lemmas imap_defs = imap_lookup_def imap_lookup_previous_def imap_replace_def imap_remove_def
  imap_insert_def imap_inv_def imap_count_def

lemma imap_lookup_replace:
  "imap_inv rank m \<Longrightarrow> imap_lookup rank k (imap_replace rank (k', d) m) =
     (if rank k = rank k' then Some (k', d) else imap_lookup rank k m)"
  by (simp add: imap_defs tree.lookup_replace)

lemma imap_lookup_remove:
  "imap_inv rank m \<Longrightarrow> imap_lookup rank k (imap_remove rank k' m) =
     (if rank k = rank k' then None else imap_lookup rank k m)"
  by (simp add: imap_defs tree.lookup_remove)

lemma imap_inv_simps [simp]:
  "imap_inv rank Terminator"
  "imap_inv rank m \<Longrightarrow> imap_inv rank (imap_insert rank v m)"
  "imap_inv rank m \<Longrightarrow> imap_inv rank (imap_replace rank v m)"
  "imap_inv rank m \<Longrightarrow> imap_inv rank (imap_remove rank k m)"
  by (simp_all add: imap_defs)

end
