(* ===== verification/TreeProps.thy ===== *)
theory TreeProps
  imports ImmutableMap
begin

text \<open>
  What the persistent tree promises: any sequence of updates refines a finite map and keeps the
  tree ordered and balanced, the height is logarithmic in the number of values, and the iterators
  walk the values in key order within the stack they allocate.
\<close>

datatype ('k, 'v) tree_op = Insert 'v | Replace 'v | Remove 'k

fun apply_op :: "('v \<Rightarrow> 'k::linorder) \<Rightarrow> ('k, 'v) tree_op \<Rightarrow> 'v node \<Rightarrow> 'v node" where
  "apply_op kov (Insert v) t = insert_node kov v t"
| "apply_op kov (Replace v) t = replace_node kov v t"
| "apply_op kov (Remove k) t = remove_node kov k t"

text \<open>The specification: \<open>insert\<close> keeps a value already there, \<open>replace\<close> overwrites it.\<close>

fun spec_op :: "('v \<Rightarrow> 'k) \<Rightarrow> ('k, 'v) tree_op \<Rightarrow> ('k \<rightharpoonup> 'v) \<Rightarrow> ('k \<rightharpoonup> 'v)" where
  "spec_op kov (Insert v) m = (if m (kov v) = None then m(kov v \<mapsto> v) else m)"
| "spec_op kov (Replace v) m = m(kov v \<mapsto> v)"
| "spec_op kov (Remove k) m = m(k := None)"

text \<open>The values a loop \<open>for (it = begin(); it != end(); ++it)\<close> visits in \<open>n\<close> rounds at most.\<close>

fun it_collect :: "nat \<Rightarrow> 'v iterator \<Rightarrow> 'v list result" where
  "it_collect 0 it = Inr []"
| "it_collect (Suc n) it =
     (if it_stack it = [] then Inr []
      else bind_result (it_deref it) (\<lambda>v.
        bind_result (it_next it) (\<lambda>it'.
          bind_result (it_collect n it') (\<lambda>vs. Inr (v # vs)))))"

lemma lookup_insert_node:
  assumes "tree_inv kov t"
  shows "lookup_node kov k (insert_node kov v t) =
     (if k = kov v \<and> lookup_node kov k t = None then Some v else lookup_node kov k t)"
proof -
  from assms have ks: "key_sorted kov (inorder t)" by (simp add: tree_inv_def)
  note iff = lookup_node_iff [OF sorted_insert_node [OF ks]] lookup_node_iff [OF ks]
    lookup_node_None_iff [OF ks] set_insert_node [OF ks]
  have "lookup_node kov k (insert_node kov v t) = Some w \<longleftrightarrow>
      (if k = kov v \<and> lookup_node kov k t = None then Some v else lookup_node kov k t) = Some w" for w
    by (cases "lookup_node kov k t = None") (auto simp: iff)
  then show ?thesis by (metis not_Some_eq)
qed

lemma it_collect_rest:
  "it_inv kov it \<Longrightarrow> length (it_rest (it_stack it)) \<le> n \<Longrightarrow>
   it_collect n it = Inr (it_rest (it_stack it))"
proof (induction n arbitrary: it)
  case (Suc n)
  show ?case
  proof (cases "it_stack it = []")
    case False
    from it_next_rest [OF Suc.prems(1) False] obtain it' where
      it': "it_next it = Inr it'" "it_inv kov it'" "it_rest (it_stack it') = tl (it_rest (it_stack it))"
      by blast
    with Suc have "it_collect n it' = Inr (it_rest (it_stack it'))" by simp
    with it' False it_deref_rest [OF False] show ?thesis by simp
  qed simp
qed simp

lemma it_inv_begin: "tree_inv kov t \<Longrightarrow> it_inv kov (it_new t True)"
  by (cases t) (simp_all add: it_inv_def it_new_def path_stack_push_left)

lemma fold_ops_inv: "tree_inv kov t \<Longrightarrow> tree_inv kov (fold (apply_op kov) ops t)"
proof (induction ops arbitrary: t)
  case (Cons x ops)
  then show ?case by (cases x) simp_all
qed simp

lemma fold_ops_lookup:
  "tree_inv kov t \<Longrightarrow>
   (\<lambda>k. lookup_node kov k (fold (apply_op kov) ops t)) =
     fold (spec_op kov) ops (\<lambda>k. lookup_node kov k t)"
proof (induction ops arbitrary: t)
  case (Cons x ops)
  then have "tree_inv kov (apply_op kov x t)" by (cases x) simp_all
  moreover have "(\<lambda>k. lookup_node kov k (apply_op kov x t)) = spec_op kov x (\<lambda>k. lookup_node kov k t)"
    using Cons.prems
    by (cases x) (auto simp: fun_eq_iff lookup_insert_node tree.lookup_replace tree.lookup_remove)
  ultimately show ?case using Cons.IH by simp
qed simp

lemma dropWhile_key_sorted_less:
  "key_sorted kov vs \<Longrightarrow> dropWhile (\<lambda>v. kov v < k) vs = filter (\<lambda>v. k \<le> kov v) vs"
  by (induction vs) (auto simp: not_less intro!: sym [OF filter_True])

lemma dropWhile_key_sorted_le:
  "key_sorted kov vs \<Longrightarrow> dropWhile (\<lambda>v. kov v \<le> k) vs = filter (\<lambda>v. k < kov v) vs"
  by (induction vs) (auto simp: not_le intro!: sym [OF filter_True])

text \<open>
  C1: any sequence of \<open>insert\<close>, \<open>replace\<close> and \<open>remove\<close> starting from the empty tree yields an
  ordered, balanced tree whose \<open>lookup\<close> is the finite map the same sequence builds, and
  \<open>count\<close> is 1 exactly on the keys of that map.
\<close>

theorem tree_refines_map:
  "tree_inv kov (fold (apply_op kov) ops Terminator) \<and>
   (\<lambda>k. lookup_node kov k (fold (apply_op kov) ops Terminator)) =
     fold (spec_op kov) ops Map.empty \<and>
   count_node kov k (fold (apply_op kov) ops Terminator) =
     (if k \<in> dom (fold (spec_op kov) ops Map.empty) then 1 else 0)"
proof -
  have l: "(\<lambda>k. lookup_node kov k (fold (apply_op kov) ops Terminator)) =
      fold (spec_op kov) ops Map.empty"
    using fold_ops_lookup [of kov Terminator ops] by simp
  then show ?thesis
    by (auto simp: fold_ops_inv count_node_iff dest: fun_cong [where x = k] split: option.splits)
qed

text \<open>
  C32: \<open>lookup_previous\<close> returns the value with the greatest key not above the given key, and
  null exactly when every key is above it.
\<close>

theorem lookup_previous_greatest:
  assumes "tree_inv kov t"
  shows "case lookup_previous kov k t of
           None \<Rightarrow> (\<forall>w \<in> set (inorder t). k < kov w)
         | Some v \<Rightarrow> v \<in> set (inorder t) \<and> kov v \<le> k \<and>
                     (\<forall>w \<in> set (inorder t). kov w \<le> k \<longrightarrow> kov w \<le> kov v)"
  using tree.previous_Some [OF assms, of k] tree.previous_None [OF assms, of k]
  by (cases "lookup_previous kov k t") auto

theorem lookup_previous_greatest_witness:
  "lookup_previous id (7::nat) (fold (apply_op id) (map Insert [5, 9, 2]) Terminator) = Some 5 \<and>
   (case lookup_previous id (7::nat) (fold (apply_op id) (map Insert [5, 9, 2]) Terminator) of
      None \<Rightarrow> False | Some v \<Rightarrow> \<forall>w \<in> {2, 5, 9}. w \<le> 7 \<longrightarrow> w \<le> v)"
proof -
  let ?t = "fold (apply_op id) (map Insert [5, 9, 2 :: nat]) Terminator"
  have "tree_inv id ?t" by (rule fold_ops_inv) simp
  from lookup_previous_greatest [OF this, of 7]
  show ?thesis
    by (simp add: balance_def new_Node_def lookup_previous_def)
qed







end
