(* ===== verification/Bits.thy ===== *)
theory Bits
  imports Prelude
begin

text \<open>
  The bit tricks of \<open>include/klee/util/Bits.h\<close>, on machine words: masks of \<open>N\<close> ones,
  truncation, the rightmost set bit and its index. A shift \<open>x >> n\<close> is \<open>drop_bit n x\<close>; the
  source's preconditions bound \<open>N\<close> so that no shift amount leaves its range.
\<close>

section \<open>namespace bits32\<close>

definition bits32_maxValueOfNBits :: "nat \<Rightarrow> uint32_t" where
  "bits32_maxValueOfNBits N = (if N = 0 then 0 else drop_bit (32 - N) (- 1))"

definition bits32_truncateToNBits :: "uint32_t \<Rightarrow> nat \<Rightarrow> uint32_t" where
  "bits32_truncateToNBits x N = x AND drop_bit (32 - N) (- 1)"

definition bits32_withoutRightmostBit :: "uint32_t \<Rightarrow> uint32_t" where
  "bits32_withoutRightmostBit x = x AND (x - 1)"

definition bits32_isolateRightmostBit :: "uint32_t \<Rightarrow> uint32_t" where
  "bits32_isolateRightmostBit x = x AND - x"

definition bits32_isPowerOfTwo :: "uint32_t \<Rightarrow> bool" where
  "bits32_isPowerOfTwo x = (if x = 0 then False else x AND (x - 1) = 0)"

definition bits32_indexOfSingleBit :: "uint32_t \<Rightarrow> nat" where
  "bits32_indexOfSingleBit x =
     (if x AND 0xFFFF0000 \<noteq> 0 then 16 else 0) +
     (if x AND 0xFF00FF00 \<noteq> 0 then 8 else 0) +
     (if x AND 0xF0F0F0F0 \<noteq> 0 then 4 else 0) +
     (if x AND 0xCCCCCCCC \<noteq> 0 then 2 else 0) +
     (if x AND 0xAAAAAAAA \<noteq> 0 then 1 else 0)"

definition bits32_indexOfRightmostBit :: "uint32_t \<Rightarrow> nat" where
  "bits32_indexOfRightmostBit x = bits32_indexOfSingleBit (bits32_isolateRightmostBit x)"

section \<open>namespace bits64\<close>

definition bits64_maxValueOfNBits :: "nat \<Rightarrow> uint64_t" where
  "bits64_maxValueOfNBits N = (if N = 0 then 0 else drop_bit (64 - N) (- 1))"

definition bits64_truncateToNBits :: "uint64_t \<Rightarrow> nat \<Rightarrow> uint64_t" where
  "bits64_truncateToNBits x N = x AND drop_bit (64 - N) (- 1)"

definition bits64_withoutRightmostBit :: "uint64_t \<Rightarrow> uint64_t" where
  "bits64_withoutRightmostBit x = x AND (x - 1)"

definition bits64_isolateRightmostBit :: "uint64_t \<Rightarrow> uint64_t" where
  "bits64_isolateRightmostBit x = x AND - x"

definition bits64_isPowerOfTwo :: "uint64_t \<Rightarrow> bool" where
  "bits64_isPowerOfTwo x = (if x = 0 then False else x AND (x - 1) = 0)"

definition bits64_indexOfSingleBit :: "uint64_t \<Rightarrow> nat" where
  "bits64_indexOfSingleBit x =
     bits32_indexOfSingleBit (ucast (x OR drop_bit 32 x)) +
     (if x AND push_bit 32 0xFFFFFFFF \<noteq> 0 then 32 else 0)"

definition bits64_indexOfRightmostBit :: "uint64_t \<Rightarrow> nat" where
  "bits64_indexOfRightmostBit x = bits64_indexOfSingleBit (bits64_isolateRightmostBit x)"

section \<open>Masks\<close>

lemma drop_bit_minus_one:
  "N \<le> LENGTH('a) \<Longrightarrow> drop_bit (LENGTH('a) - N) (- 1 :: 'a::len word) = mask N"
  by (rule bit_word_eqI) (auto simp: bit_simps)

lemma maxValueOfNBits_mask [simp]:
  "N \<le> 32 \<Longrightarrow> bits32_maxValueOfNBits N = mask N"
  "N \<le> 64 \<Longrightarrow> bits64_maxValueOfNBits N = mask N"
  using drop_bit_minus_one [of N, where 'a = 32] drop_bit_minus_one [of N, where 'a = 64]
  by (auto simp: bits32_maxValueOfNBits_def bits64_maxValueOfNBits_def)

lemma truncateToNBits_take_bit [simp]:
  "N \<le> 32 \<Longrightarrow> bits32_truncateToNBits x N = take_bit N x"
  "N \<le> 64 \<Longrightarrow> bits64_truncateToNBits y N = take_bit N y"
  using drop_bit_minus_one [of N, where 'a = 32] drop_bit_minus_one [of N, where 'a = 64]
  by (auto simp: bits32_truncateToNBits_def bits64_truncateToNBits_def take_bit_eq_mask)

section \<open>The rightmost set bit\<close>

lemma odd_and_minus: "odd y \<Longrightarrow> y AND - y = (1::int)"
proof -
  assume "odd y"
  then obtain z where y: "y = 2 * z + 1" by (elim oddE)
  then have "- y div 2 = NOT z" by (simp add: not_int_def)
  with y and_rec [of y "- y"] show ?thesis by simp
qed

lemma and_minus_int: "odd y \<Longrightarrow> push_bit k y AND - push_bit k y = (2 ^ k :: int)"
proof -
  assume "odd y"
  have "- push_bit k y = push_bit k (- y)" by (simp add: push_bit_eq_mult)
  then show ?thesis using odd_and_minus [OF \<open>odd y\<close>] by (simp flip: push_bit_and)
qed

lemma lowest_bit_decomp:
  assumes "bit (i::int) k" "\<And>j. j < k \<Longrightarrow> \<not> bit i j"
  shows "\<exists>y. odd y \<and> i = push_bit k y"
proof (intro exI conjI)
  show "odd (drop_bit k i)" using assms(1) by (simp add: bit_iff_odd_drop_bit)
  show "i = push_bit k (drop_bit k i)"
  proof (rule bit_eqI)
    fix n show "bit i n \<longleftrightarrow> bit (push_bit k (drop_bit k i)) n"
      by (cases "k \<le> n") (auto simp: bit_simps assms(2))
  qed
qed

lemma and_minus_word:
  fixes x :: "'a::len word"
  assumes "bit x k" "\<And>j. j < k \<Longrightarrow> \<not> bit x j"
  shows "x AND - x = 2 ^ k"
proof -
  have "bit (uint x) k" "\<And>j. j < k \<Longrightarrow> \<not> bit (uint x) j"
    using assms by (simp_all add: bit_uint_iff bit_imp_le_length)
  from lowest_bit_decomp [OF this] obtain y where y: "odd y" "uint x = push_bit k y" by blast
  have "x AND - x = word_of_int (uint x AND - uint x)"
    by (simp add: of_int_and_eq)
  also have "\<dots> = 2 ^ k" using y and_minus_int [OF y(1), of k] by simp
  finally show ?thesis .
qed

lemma indexOfSingleBit32_power: "k < 32 \<Longrightarrow> bits32_indexOfSingleBit (2 ^ k) = k"
proof -
  have "\<forall>k \<in> set [0..<32]. bits32_indexOfSingleBit (2 ^ k) = k"
    by (simp add: bits32_indexOfSingleBit_def upt_conv_Cons)
  then show "k < 32 \<Longrightarrow> ?thesis" by simp
qed

lemma indexOfSingleBit64_power: "k < 64 \<Longrightarrow> bits64_indexOfSingleBit (2 ^ k) = k"
proof -
  have "\<forall>k \<in> set [0..<64]. bits64_indexOfSingleBit (2 ^ k) = k"
    by (simp add: bits64_indexOfSingleBit_def bits32_indexOfSingleBit_def upt_conv_Cons)
  then show "k < 64 \<Longrightarrow> ?thesis" by simp
qed

lemma ex_rightmost_bit:
  "x \<noteq> (0 :: 'a::len word) \<Longrightarrow> \<exists>k. bit x k \<and> (\<forall>j < k. \<not> bit x j)"
  using exists_least_iff [of "bit x"] by (auto simp: bit_eq_iff)

lemma rightmost32:
  assumes "bit x k" "\<forall>j < k. \<not> bit x j"
  shows "bits32_isolateRightmostBit x = 2 ^ k \<and> bits32_indexOfRightmostBit x = k"
  using assms and_minus_word [of x k] bit_imp_le_length [of x k]
  by (simp add: bits32_indexOfRightmostBit_def bits32_isolateRightmostBit_def indexOfSingleBit32_power)

lemma rightmost64:
  assumes "bit x k" "\<forall>j < k. \<not> bit x j"
  shows "bits64_isolateRightmostBit x = 2 ^ k \<and> bits64_indexOfRightmostBit x = k"
  using assms and_minus_word [of x k] bit_imp_le_length [of x k]
  by (simp add: bits64_indexOfRightmostBit_def bits64_isolateRightmostBit_def indexOfSingleBit64_power)

text \<open>
  C36: on a nonzero word the index of the rightmost bit is the position of the lowest set bit, in
  both the 32-bit and the 64-bit version; isolating it leaves exactly that bit.
\<close>

theorem indexOfRightmostBit_lowest:
  assumes "x \<noteq> 0" "y \<noteq> 0"
  shows "bit x (bits32_indexOfRightmostBit x) \<and>
     (\<forall>j < bits32_indexOfRightmostBit x. \<not> bit x j) \<and>
     bits32_isolateRightmostBit x = 2 ^ bits32_indexOfRightmostBit x \<and>
     bit y (bits64_indexOfRightmostBit y) \<and>
     (\<forall>j < bits64_indexOfRightmostBit y. \<not> bit y j) \<and>
     bits64_isolateRightmostBit y = 2 ^ bits64_indexOfRightmostBit y"
proof -
  from assms obtain k l where "bit x k" "\<forall>j < k. \<not> bit x j" "bit y l" "\<forall>j < l. \<not> bit y j"
    using ex_rightmost_bit by metis
  with rightmost32 [of x k] rightmost64 [of y l] show ?thesis by simp
qed

theorem indexOfRightmostBit_lowest_witness:
  "bit (12 :: uint32_t) (bits32_indexOfRightmostBit 12) \<and>
   bits64_isolateRightmostBit 0x300000000 = 2 ^ bits64_indexOfRightmostBit 0x300000000"
proof -
  have "(12 :: uint32_t) \<noteq> 0" "(0x300000000 :: uint64_t) \<noteq> 0" by simp_all
  from indexOfRightmostBit_lowest [OF this] show ?thesis by blast
qed

end
