(* ===== verification/Expr.thy ===== *)
theory Expr
  imports Bits "HOL-Library.Signed_Division"
begin

text \<open>
  Expressions and their canonicalising constructors: \<open>include/klee/Expr.h\<close> and
  \<open>lib/Expr/Expr.cpp\<close>. Every class of the source is a constructor of \<open>expr\<close>; the static
  \<open>create\<close> function of a class is \<open>Add_create\<close>, \<open>Eq_create\<close> and so on, and its static
  helpers keep their names (\<open>AddExpr_createPartialR\<close>, ...). A failed assertion is \<open>None\<close>.

  Constants hold an \<open>llvm::APInt\<close>. The value of such an integer is its width and its bits read
  as a natural number; its arithmetic is LLVM's and comes in through the record \<open>expr_env\<close>,
  with the documented two's complement laws stated in \<open>apint_lib\<close>. The record also holds the
  command line flag \<open>const-array-opt\<close>, and \<open>uninit_hash\<close>, the content of a hash field that is never
  assigned.

  \<open>*l == *r\<close> and \<open>ref<Expr>\<close> comparison is structural equality. Widths and bit offsets are
  natural numbers.
\<close>

section \<open>Data\<close>

datatype apint = APInt (apw: nat) (apv: int)

datatype array = Array (array_ptr: nat) (array_name: string) (array_size: nat)
  (constantValues: "apint list")

datatype binop = Add | Sub | Mul | UDiv | SDiv | URem | SRem | And | Or | Xor | Shl | LShr | AShr

datatype cmpop = Eq | Ne | Ult | Ule | Ugt | Uge | Slt | Sle | Sgt | Sge

datatype castop = ZExt | SExt

text \<open>An update list is its root array and its update nodes, the most recent first.\<close>

datatype expr =
    ConstantExpr apint
  | NotOptimizedExpr expr
  | ReadExpr array "(expr \<times> expr) list" expr
  | SelectExpr expr expr expr
  | ConcatExpr expr expr
  | ExtractExpr expr nat nat
  | NotExpr expr
  | CastExpr castop expr nat
  | BinaryExpr binop expr expr
  | CmpExpr cmpop expr expr

record expr_env =
  ap_make :: "nat \<Rightarrow> uint64_t \<Rightarrow> apint"
  ap_bin :: "binop \<Rightarrow> apint \<Rightarrow> apint \<Rightarrow> apint option"
  ap_cmp :: "cmpop \<Rightarrow> apint \<Rightarrow> apint \<Rightarrow> bool option"
  ap_not :: "apint \<Rightarrow> apint"
  ap_neg :: "apint \<Rightarrow> apint"
  ap_shl_by :: "apint \<Rightarrow> nat \<Rightarrow> apint"
  ap_ashr_by :: "apint \<Rightarrow> nat \<Rightarrow> apint"
  ap_zext :: "apint \<Rightarrow> nat \<Rightarrow> apint"
  ap_zextOrTrunc :: "apint \<Rightarrow> nat \<Rightarrow> apint"
  ap_sextOrTrunc :: "apint \<Rightarrow> nat \<Rightarrow> apint"
  ap_getZExtValue :: "apint \<Rightarrow> uint64_t option"
  ap_getHashValue :: "apint \<Rightarrow> uint32_t"
  uninit_hash :: "expr \<Rightarrow> uint32_t"
  ConstArrayOpt :: bool

fun getWidth :: "expr \<Rightarrow> nat" where
  "getWidth (ConstantExpr c) = apw c"
| "getWidth (NotOptimizedExpr e) = getWidth e"
| "getWidth (ReadExpr root us i) = 8"
| "getWidth (SelectExpr c t f) = getWidth t"
| "getWidth (ConcatExpr l r) = getWidth l + getWidth r"
| "getWidth (ExtractExpr e off w) = w"
| "getWidth (NotExpr e) = getWidth e"
| "getWidth (CastExpr k e w) = w"
| "getWidth (BinaryExpr k l r) = getWidth l"
| "getWidth (CmpExpr k l r) = 1"

definition isSymbolicArray :: "array \<Rightarrow> bool" where
  "isSymbolicArray a = (constantValues a = [])"

section \<open>Constants\<close>

definition getZExtValue :: "expr_env \<Rightarrow> nat \<Rightarrow> apint \<Rightarrow> uint64_t option" where
  "getZExtValue X bits c = (if apw c \<le> bits then ap_getZExtValue X c else None)"

definition isZero :: "expr_env \<Rightarrow> apint \<Rightarrow> bool option" where
  "isZero X c = map_option (\<lambda>v. v = 0) (getZExtValue X 64 c)"

definition isOne :: "expr_env \<Rightarrow> apint \<Rightarrow> bool option" where
  "isOne X c = map_option (\<lambda>v. v = 1) (getZExtValue X 64 c)"

definition isTrue :: "expr_env \<Rightarrow> apint \<Rightarrow> bool option" where
  "isTrue X c = map_option (\<lambda>v. v = 1) (getZExtValue X 1 c)"

definition isFalse :: "expr_env \<Rightarrow> apint \<Rightarrow> bool option" where
  "isFalse X c = map_option (\<lambda>v. v = 0) (getZExtValue X 1 c)"

definition isAllOnes :: "expr_env \<Rightarrow> apint \<Rightarrow> bool option" where
  "isAllOnes X c =
     map_option (\<lambda>v. v = bits64_maxValueOfNBits (apw c)) (getZExtValue X (apw c) c)"

definition Constant_alloc :: "expr_env \<Rightarrow> uint64_t \<Rightarrow> nat \<Rightarrow> apint" where
  "Constant_alloc X v w = ap_make X w v"

definition Constant_create :: "expr_env \<Rightarrow> uint64_t \<Rightarrow> nat \<Rightarrow> apint option" where
  "Constant_create X v w =
     (if v = bits64_truncateToNBits v w then Some (Constant_alloc X v w) else None)"

text \<open>\<open>ConstantExpr::Add\<close> to \<open>ConstantExpr::AShr\<close>, and \<open>ConstantExpr::Eq\<close> to \<open>ConstantExpr::Sge\<close>.\<close>

definition Constant_bin :: "expr_env \<Rightarrow> binop \<Rightarrow> apint \<Rightarrow> apint \<Rightarrow> apint option" where
  "Constant_bin X k c d = ap_bin X k c d"

definition Constant_cmp :: "expr_env \<Rightarrow> cmpop \<Rightarrow> apint \<Rightarrow> apint \<Rightarrow> apint option" where
  "Constant_cmp X k c d = map_option (\<lambda>b. Constant_alloc X (of_bool b) 1) (ap_cmp X k c d)"

definition Constant_Concat :: "expr_env \<Rightarrow> apint \<Rightarrow> apint \<Rightarrow> apint option" where
  "Constant_Concat X c rhs =
     (let W = apw c + apw rhs;
          tmp = ap_zext X c W;
          tmp' = ap_shl_by X tmp (apw rhs)
      in ap_bin X Or tmp' (ap_zext X rhs W))"

definition Constant_Extract :: "expr_env \<Rightarrow> apint \<Rightarrow> nat \<Rightarrow> nat \<Rightarrow> apint" where
  "Constant_Extract X c off w = ap_zextOrTrunc X (ap_ashr_by X c off) w"

definition Constant_ZExt :: "expr_env \<Rightarrow> apint \<Rightarrow> nat \<Rightarrow> apint" where
  "Constant_ZExt X c w = ap_zextOrTrunc X c w"

definition Constant_SExt :: "expr_env \<Rightarrow> apint \<Rightarrow> nat \<Rightarrow> apint" where
  "Constant_SExt X c w = ap_sextOrTrunc X c w"

definition Constant_Neg :: "expr_env \<Rightarrow> apint \<Rightarrow> apint" where
  "Constant_Neg X c = ap_neg X c"

definition Constant_Not :: "expr_env \<Rightarrow> apint \<Rightarrow> apint" where
  "Constant_Not X c = ap_not X c"

section \<open>Conjunction and disjunction\<close>

text \<open>
  \<open>bcreate_R\<close> is the macro \<open>BCREATE_R\<close>, \<open>bcreate\<close> the macro \<open>BCREATE\<close>, over the
  helper functions they paste.
\<close>

definition bcreate_R :: "expr_env \<Rightarrow> binop \<Rightarrow> (expr \<Rightarrow> apint \<Rightarrow> expr option) \<Rightarrow> (apint \<Rightarrow> expr \<Rightarrow> expr option) \<Rightarrow>
    (expr \<Rightarrow> expr \<Rightarrow> expr option) \<Rightarrow> expr \<Rightarrow> expr \<Rightarrow> expr option" where
  "bcreate_R X k partialL partialR full l r =
     (if getWidth l \<noteq> getWidth r then None
      else (case l of
          ConstantExpr cl \<Rightarrow>
            (case r of
               ConstantExpr cr \<Rightarrow> map_option ConstantExpr (Constant_bin X k cl cr)
             | _ \<Rightarrow> partialR cl r)
        | _ \<Rightarrow>
            (case r of
               ConstantExpr cr \<Rightarrow> partialL l cr
             | _ \<Rightarrow> full l r)))"

definition bcreate :: "expr_env \<Rightarrow> binop \<Rightarrow> (expr \<Rightarrow> expr \<Rightarrow> expr option) \<Rightarrow> expr \<Rightarrow> expr \<Rightarrow> expr option" where
  "bcreate X k full l r =
     (if getWidth l \<noteq> getWidth r then None
      else (case l of
          ConstantExpr cl \<Rightarrow>
            (case r of
               ConstantExpr cr \<Rightarrow> map_option ConstantExpr (Constant_bin X k cl cr)
             | _ \<Rightarrow> full l r)
        | _ \<Rightarrow> full l r))"

definition AndExpr_createPartial :: "expr_env \<Rightarrow> expr \<Rightarrow> apint \<Rightarrow> expr option" where
  "AndExpr_createPartial X l cr = do {
     ones \<leftarrow> isAllOnes X cr;
     if ones then Some l
     else do {
       zero \<leftarrow> isZero X cr;
       if zero then Some (ConstantExpr cr)
       else Some (BinaryExpr And l (ConstantExpr cr)) } }"

definition AndExpr_createPartialR :: "expr_env \<Rightarrow> apint \<Rightarrow> expr \<Rightarrow> expr option" where
  "AndExpr_createPartialR X cl r = AndExpr_createPartial X r cl"

definition AndExpr_create :: "expr \<Rightarrow> expr \<Rightarrow> expr option" where
  "AndExpr_create l r = Some (BinaryExpr And l r)"

definition And_create :: "expr_env \<Rightarrow> expr \<Rightarrow> expr \<Rightarrow> expr option" where
  "And_create X = bcreate_R X And (AndExpr_createPartial X) (AndExpr_createPartialR X) AndExpr_create"

definition OrExpr_createPartial :: "expr_env \<Rightarrow> expr \<Rightarrow> apint \<Rightarrow> expr option" where
  "OrExpr_createPartial X l cr = do {
     ones \<leftarrow> isAllOnes X cr;
     if ones then Some (ConstantExpr cr)
     else do {
       zero \<leftarrow> isZero X cr;
       if zero then Some l
       else Some (BinaryExpr Or l (ConstantExpr cr)) } }"

definition OrExpr_createPartialR :: "expr_env \<Rightarrow> apint \<Rightarrow> expr \<Rightarrow> expr option" where
  "OrExpr_createPartialR X cl r = OrExpr_createPartial X r cl"

definition OrExpr_create :: "expr \<Rightarrow> expr \<Rightarrow> expr option" where
  "OrExpr_create l r = Some (BinaryExpr Or l r)"

definition Or_create :: "expr_env \<Rightarrow> expr \<Rightarrow> expr \<Rightarrow> expr option" where
  "Or_create X = bcreate_R X Or (OrExpr_createPartial X) (OrExpr_createPartialR X) OrExpr_create"

section \<open>Equality\<close>

definition EqExpr_create :: "expr_env \<Rightarrow> expr \<Rightarrow> expr \<Rightarrow> expr" where
  "EqExpr_create X l r =
     (if l = r then ConstantExpr (Constant_alloc X 1 1) else CmpExpr Eq l r)"

text \<open>
  The macro \<open>CMPCREATE_T\<close> at \<open>EqExpr::create(l, r)\<close> with a constant right operand;
  \<open>partialL\<close> is \<open>EqExpr_createPartial(l, _)\<close>.
\<close>

definition Eq_create_const :: "expr_env \<Rightarrow> expr \<Rightarrow> (apint \<Rightarrow> expr option) \<Rightarrow> apint \<Rightarrow> expr option" where
  "Eq_create_const X l partialL cr =
     (if getWidth l \<noteq> apw cr then None
      else (case l of
          ConstantExpr cl \<Rightarrow> map_option ConstantExpr (Constant_cmp X Eq cl cr)
        | _ \<Rightarrow> partialL cr))"

text \<open>The loop of \<open>TryConstArrayOpt\<close> over the constant values from index \<open>i\<close> on.\<close>

fun TryConstArrayOpt_loop :: "expr_env \<Rightarrow> apint \<Rightarrow> expr \<Rightarrow> (nat \<Rightarrow> expr option) \<Rightarrow>
    apint list \<Rightarrow> nat \<Rightarrow> nat \<Rightarrow> expr \<Rightarrow> expr option" where
  "TryConstArrayOpt_loop X cl rd eqIndex [] i numMatches res = Some res"
| "TryConstArrayOpt_loop X cl rd eqIndex (v # vs) i numMatches res =
     (if cl = v then
        (if numMatches + 1 > 100 then Some (EqExpr_create X (ConstantExpr cl) rd)
         else do {
           mayBe \<leftarrow> eqIndex i;
           res' \<leftarrow> Or_create X res mayBe;
           TryConstArrayOpt_loop X cl rd eqIndex vs (i + 1) (numMatches + 1) res' })
      else TryConstArrayOpt_loop X cl rd eqIndex vs (i + 1) numMatches res)"

definition TryConstArrayOpt :: "expr_env \<Rightarrow> apint \<Rightarrow> array \<Rightarrow> (expr \<times> expr) list \<Rightarrow> expr \<Rightarrow>
    (apint \<Rightarrow> expr option) \<Rightarrow> expr option" where
  "TryConstArrayOpt X cl root us index eqIndex =
     (let rd = ReadExpr root us index in
      if isSymbolicArray root \<or> length us \<noteq> 0 then Some (EqExpr_create X (ConstantExpr cl) rd)
      else TryConstArrayOpt_loop X cl rd
             (\<lambda>i. eqIndex (Constant_alloc X (of_nat i) (getWidth index)))
             (take (array_size root) (constantValues root)) 0 0
             (ConstantExpr (Constant_alloc X 0 1)))"

text \<open>
  \<open>EqExpr_createPartialR(cl, r)\<close>. The recursion is on \<open>r\<close>, which comes first here. Calls of
  \<open>EqExpr::create\<close> on a subterm and a constant, and of \<open>Expr::createIsZero\<close> on a subterm,
  go through \<open>Eq_create_const\<close>.
\<close>

fun EqExpr_createPartialR :: "expr_env \<Rightarrow> expr \<Rightarrow> apint \<Rightarrow> expr option" where
  "EqExpr_createPartialR X r = (\<lambda>cl.
     let width = apw cl; rest = Some (EqExpr_create X (ConstantExpr cl) r) in
     if width = 1 then do {
       t \<leftarrow> isTrue X cl;
       if t then Some r
       else (case r of
           CmpExpr k left right \<Rightarrow>
             (if k = Eq then
                (case left of
                   ConstantExpr ce \<Rightarrow>
                     (if apw ce = 1
                      then do { f \<leftarrow> isFalse X ce; if f then Some right else rest }
                      else rest)
                 | _ \<Rightarrow> rest)
              else rest)
         | BinaryExpr k left right \<Rightarrow>
             (if k = Or then do {
                a \<leftarrow> Eq_create_const X left (EqExpr_createPartialR X left)
                      (Constant_alloc X 0 (getWidth left));
                b \<leftarrow> Eq_create_const X right (EqExpr_createPartialR X right)
                      (Constant_alloc X 0 (getWidth right));
                And_create X a b }
              else rest)
         | _ \<Rightarrow> rest) }
     else (case r of
         CastExpr k src _ \<Rightarrow>
           (let trunc = Constant_ZExt X cl (getWidth src) in
            if cl = (case k of SExt \<Rightarrow> Constant_SExt X trunc width | ZExt \<Rightarrow> Constant_ZExt X trunc width)
            then Eq_create_const X src (EqExpr_createPartialR X src) trunc
            else map_option ConstantExpr (Constant_create X 0 1))
       | BinaryExpr k left b \<Rightarrow>
           (case left of
              ConstantExpr c1 \<Rightarrow>
                (if k = Add then
                   (if apw cl \<noteq> apw c1 then None
                    else do { c \<leftarrow> Constant_bin X Sub cl c1; EqExpr_createPartialR X b c })
                 else if k = Sub then
                   (if apw c1 \<noteq> apw cl then None
                    else do { c \<leftarrow> Constant_bin X Sub c1 cl; EqExpr_createPartialR X b c })
                 else rest)
            | _ \<Rightarrow> rest)
       | ReadExpr root us index \<Rightarrow>
           (if ConstArrayOpt X
            then TryConstArrayOpt X cl root us index
                   (Eq_create_const X index (EqExpr_createPartialR X index))
            else rest)
       | _ \<Rightarrow> rest))"

declare EqExpr_createPartialR.simps [simp del]

definition Eq_create :: "expr_env \<Rightarrow> expr \<Rightarrow> expr \<Rightarrow> expr option" where
  "Eq_create X l r =
     (if getWidth l \<noteq> getWidth r then None
      else (case l of
          ConstantExpr cl \<Rightarrow>
            (case r of
               ConstantExpr cr \<Rightarrow> map_option ConstantExpr (Constant_cmp X Eq cl cr)
             | _ \<Rightarrow> EqExpr_createPartialR X r cl)
        | _ \<Rightarrow>
            (case r of
               ConstantExpr cr \<Rightarrow> EqExpr_createPartialR X l cr
             | _ \<Rightarrow> Some (EqExpr_create X l r))))"

definition createIsZero :: "expr_env \<Rightarrow> expr \<Rightarrow> expr option" where
  "createIsZero X e = do {
     z \<leftarrow> Constant_create X 0 (getWidth e);
     Eq_create X e (ConstantExpr z) }"

definition createImplies :: "expr_env \<Rightarrow> expr \<Rightarrow> expr \<Rightarrow> expr option" where
  "createImplies X hyp conc = do { z \<leftarrow> createIsZero X hyp; Or_create X z conc }"

definition Ne_create :: "expr_env \<Rightarrow> expr \<Rightarrow> expr \<Rightarrow> expr option" where
  "Ne_create X l r = do {
     z \<leftarrow> Constant_create X 0 1;
     e \<leftarrow> Eq_create X l r;
     Eq_create X (ConstantExpr z) e }"

section \<open>Exclusive or\<close>

definition XorExpr_createPartialR :: "expr_env \<Rightarrow> apint \<Rightarrow> expr \<Rightarrow> expr option" where
  "XorExpr_createPartialR X cl r = do {
     zero \<leftarrow> isZero X cl;
     if zero then Some r
     else if apw cl = 1 then do {
       z \<leftarrow> Constant_create X 0 1;
       EqExpr_createPartialR X r z }
     else Some (BinaryExpr Xor (ConstantExpr cl) r) }"

definition XorExpr_createPartial :: "expr_env \<Rightarrow> expr \<Rightarrow> apint \<Rightarrow> expr option" where
  "XorExpr_createPartial X l cr = XorExpr_createPartialR X cr l"

definition XorExpr_create :: "expr \<Rightarrow> expr \<Rightarrow> expr option" where
  "XorExpr_create l r = Some (BinaryExpr Xor l r)"

definition Xor_create :: "expr_env \<Rightarrow> expr \<Rightarrow> expr \<Rightarrow> expr option" where
  "Xor_create X = bcreate_R X Xor (XorExpr_createPartial X) (XorExpr_createPartialR X) XorExpr_create"

section \<open>Addition and subtraction\<close>

text \<open>
  \<open>const_kid k e\<close> is the test \<open>kind == k && isa<ConstantExpr>(getKid(0))\<close>, with the two
  kids.
\<close>

definition const_kid :: "binop \<Rightarrow> expr \<Rightarrow> (apint \<times> expr) option" where
  "const_kid k e =
     (case e of
        BinaryExpr k' l r \<Rightarrow>
          (if k' = k then (case l of ConstantExpr c \<Rightarrow> Some (c, r) | _ \<Rightarrow> None) else None)
      | _ \<Rightarrow> None)"

text \<open>\<open>create\<close> of two constants, by the first lines of \<open>BCREATE_R\<close>.\<close>

definition create_consts :: "expr_env \<Rightarrow> binop \<Rightarrow> apint \<Rightarrow> apint \<Rightarrow> apint option" where
  "create_consts X k c d = (if apw c \<noteq> apw d then None else Constant_bin X k c d)"

text \<open>\<open>create\<close> with a constant left operand; \<open>partialR\<close> is the helper of the same class.\<close>

definition create_left :: "expr_env \<Rightarrow> binop \<Rightarrow> (apint \<Rightarrow> expr option) \<Rightarrow> apint \<Rightarrow> expr \<Rightarrow> expr option" where
  "create_left X k partialR c e =
     (if apw c \<noteq> getWidth e then None
      else (case e of
          ConstantExpr d \<Rightarrow> map_option ConstantExpr (Constant_bin X k c d)
        | _ \<Rightarrow> partialR c))"

lemma const_kid_size [termination_simp]: "const_kid k e = Some (c, b) \<Longrightarrow> size b < size e"
  by (auto simp: const_kid_def split: expr.splits if_splits)

text \<open>The operand \<open>r\<close>, on which the recursion goes, comes first.\<close>

fun AddExpr_createPartialR :: "expr_env \<Rightarrow> expr \<Rightarrow> apint \<Rightarrow> expr option"
  and SubExpr_createPartialR :: "expr_env \<Rightarrow> expr \<Rightarrow> apint \<Rightarrow> expr option" where
  "AddExpr_createPartialR X r = (\<lambda>cl.
     if apw cl = 1 then XorExpr_createPartialR X cl r
     else do {
       zero \<leftarrow> isZero X cl;
       if zero then Some r
       else (case const_kid Add r of
           Some (b, c) \<Rightarrow> do {
             ab \<leftarrow> create_consts X Add cl b;
             create_left X Add (AddExpr_createPartialR X c) ab c }
         | None \<Rightarrow>
             (case const_kid Sub r of
                Some (b, c) \<Rightarrow> do {
                  ab \<leftarrow> create_consts X Add cl b;
                  create_left X Sub (SubExpr_createPartialR X c) ab c }
              | None \<Rightarrow> Some (BinaryExpr Add (ConstantExpr cl) r))) })"
| "SubExpr_createPartialR X r = (\<lambda>cl.
     if apw cl = 1 then XorExpr_createPartialR X cl r
     else (case const_kid Add r of
         Some (b, c) \<Rightarrow> do {
           ab \<leftarrow> create_consts X Sub cl b;
           create_left X Sub (SubExpr_createPartialR X c) ab c }
       | None \<Rightarrow>
           (case const_kid Sub r of
              Some (b, c) \<Rightarrow> do {
                ab \<leftarrow> create_consts X Sub cl b;
                create_left X Add (AddExpr_createPartialR X c) ab c }
            | None \<Rightarrow> Some (BinaryExpr Sub (ConstantExpr cl) r))))"

declare AddExpr_createPartialR.simps [simp del] SubExpr_createPartialR.simps [simp del]

definition AddExpr_createPartial :: "expr_env \<Rightarrow> expr \<Rightarrow> apint \<Rightarrow> expr option" where
  "AddExpr_createPartial X l cr = AddExpr_createPartialR X l cr"

definition SubExpr_createPartial :: "expr_env \<Rightarrow> expr \<Rightarrow> apint \<Rightarrow> expr option" where
  "SubExpr_createPartial X l cr = do {
     c \<leftarrow> Constant_bin X Sub (Constant_alloc X 0 (apw cr)) cr;
     AddExpr_createPartial X l c }"

text \<open>
  \<open>AddExpr::create\<close> and \<open>SubExpr::create\<close> with a constant operand: the calls that
  \<open>AddExpr_create\<close> and \<open>SubExpr_create\<close> make on the constant they have pulled out.
\<close>

definition Add_const :: "expr_env \<Rightarrow> apint \<Rightarrow> expr \<Rightarrow> expr option" where
  "Add_const X c e = create_left X Add (AddExpr_createPartialR X e) c e"

definition Sub_const :: "expr_env \<Rightarrow> apint \<Rightarrow> expr \<Rightarrow> expr option" where
  "Sub_const X c e = create_left X Sub (SubExpr_createPartialR X e) c e"

definition Sub_by_const :: "expr_env \<Rightarrow> expr \<Rightarrow> apint \<Rightarrow> expr option" where
  "Sub_by_const X e c =
     (if getWidth e \<noteq> apw c then None
      else (case e of
          ConstantExpr d \<Rightarrow> map_option ConstantExpr (Constant_bin X Sub d c)
        | _ \<Rightarrow> SubExpr_createPartial X e c))"

text \<open>\<open>Add_create\<close> and \<open>Sub_create\<close> are \<open>BCREATE_R\<close> unfolded for the two classes.\<close>

function (sequential) Add_create :: "expr_env \<Rightarrow> expr \<Rightarrow> expr \<Rightarrow> expr option"
  and AddExpr_create :: "expr_env \<Rightarrow> expr \<Rightarrow> expr \<Rightarrow> expr option"
  and Sub_create :: "expr_env \<Rightarrow> expr \<Rightarrow> expr \<Rightarrow> expr option"
  and SubExpr_create :: "expr_env \<Rightarrow> expr \<Rightarrow> expr \<Rightarrow> expr option" where
  "Add_create X l r =
     (if getWidth l \<noteq> getWidth r then None
      else (case l of
          ConstantExpr cl \<Rightarrow> Add_const X cl r
        | _ \<Rightarrow>
            (case r of
               ConstantExpr cr \<Rightarrow> AddExpr_createPartial X l cr
             | _ \<Rightarrow> AddExpr_create X l r)))"
| "AddExpr_create X l r =
     (if getWidth l = 1 then XorExpr_create l r
      else (case const_kid Add l of
          Some (k, a) \<Rightarrow> do { e \<leftarrow> Add_create X a r; Add_const X k e }
        | None \<Rightarrow> (case const_kid Sub l of
          Some (k, a) \<Rightarrow> do { e \<leftarrow> Sub_create X r a; Add_const X k e }
        | None \<Rightarrow> (case const_kid Add r of
          Some (k, b) \<Rightarrow> do { e \<leftarrow> Add_create X l b; Add_const X k e }
        | None \<Rightarrow> (case const_kid Sub r of
          Some (k, b) \<Rightarrow> do { e \<leftarrow> Sub_create X l b; Add_const X k e }
        | None \<Rightarrow> Some (BinaryExpr Add l r))))))"
| "Sub_create X l r =
     (if getWidth l \<noteq> getWidth r then None
      else (case l of
          ConstantExpr cl \<Rightarrow> Sub_const X cl r
        | _ \<Rightarrow>
            (case r of
               ConstantExpr cr \<Rightarrow> SubExpr_createPartial X l cr
             | _ \<Rightarrow> SubExpr_create X l r)))"
| "SubExpr_create X l r =
     (if getWidth l = 1 then XorExpr_create l r
      else if l = r then Some (ConstantExpr (Constant_alloc X 0 (getWidth l)))
      else (case const_kid Add l of
          Some (k, a) \<Rightarrow> do { e \<leftarrow> Sub_create X a r; Add_const X k e }
        | None \<Rightarrow> (case const_kid Sub l of
          Some (k, a) \<Rightarrow> do { e \<leftarrow> Add_create X a r; Sub_const X k e }
        | None \<Rightarrow> (case const_kid Add r of
          Some (k, b) \<Rightarrow> do { e \<leftarrow> Sub_create X l b; Sub_by_const X e k }
        | None \<Rightarrow> (case const_kid Sub r of
          Some (k, b) \<Rightarrow> do { e \<leftarrow> Add_create X l b; Sub_by_const X e k }
        | None \<Rightarrow> Some (BinaryExpr Sub l r))))))"
  by pat_completeness auto
termination
  by (relation "measure (\<lambda>x. case x of
        Inl (Inl (X, l, r)) \<Rightarrow> 2 * (size l + size r) + 1
      | Inl (Inr (X, l, r)) \<Rightarrow> 2 * (size l + size r)
      | Inr (Inl (X, l, r)) \<Rightarrow> 2 * (size l + size r) + 1
      | Inr (Inr (X, l, r)) \<Rightarrow> 2 * (size l + size r))")
    (auto dest!: const_kid_size)

declare Add_create.simps [simp del] AddExpr_create.simps [simp del]
  Sub_create.simps [simp del] SubExpr_create.simps [simp del]

section \<open>The other arithmetic and bit operations\<close>

definition MulExpr_createPartialR :: "expr_env \<Rightarrow> apint \<Rightarrow> expr \<Rightarrow> expr option" where
  "MulExpr_createPartialR X cl r =
     (if apw cl = 1 then AndExpr_createPartialR X cl r
      else do {
        one \<leftarrow> isOne X cl;
        if one then Some r
        else do {
          zero \<leftarrow> isZero X cl;
          if zero then Some (ConstantExpr cl)
          else Some (BinaryExpr Mul (ConstantExpr cl) r) } })"

definition MulExpr_createPartial :: "expr_env \<Rightarrow> expr \<Rightarrow> apint \<Rightarrow> expr option" where
  "MulExpr_createPartial X l cr = MulExpr_createPartialR X cr l"

definition MulExpr_create :: "expr \<Rightarrow> expr \<Rightarrow> expr option" where
  "MulExpr_create l r =
     (if getWidth l = 1 then Some (BinaryExpr And l r) else Some (BinaryExpr Mul l r))"

definition Mul_create :: "expr_env \<Rightarrow> expr \<Rightarrow> expr \<Rightarrow> expr option" where
  "Mul_create X = bcreate_R X Mul (MulExpr_createPartial X) (MulExpr_createPartialR X) MulExpr_create"

definition UDivExpr_create :: "expr \<Rightarrow> expr \<Rightarrow> expr option" where
  "UDivExpr_create l r = (if getWidth l = 1 then Some l else Some (BinaryExpr UDiv l r))"

definition SDivExpr_create :: "expr \<Rightarrow> expr \<Rightarrow> expr option" where
  "SDivExpr_create l r = (if getWidth l = 1 then Some l else Some (BinaryExpr SDiv l r))"

definition URemExpr_create :: "expr_env \<Rightarrow> expr \<Rightarrow> expr \<Rightarrow> expr option" where
  "URemExpr_create X l r =
     (if getWidth l = 1 then map_option ConstantExpr (Constant_create X 0 1)
      else Some (BinaryExpr URem l r))"

definition SRemExpr_create :: "expr_env \<Rightarrow> expr \<Rightarrow> expr \<Rightarrow> expr option" where
  "SRemExpr_create X l r =
     (if getWidth l = 1 then map_option ConstantExpr (Constant_create X 0 1)
      else Some (BinaryExpr SRem l r))"

definition ShlExpr_create :: "expr_env \<Rightarrow> expr \<Rightarrow> expr \<Rightarrow> expr option" where
  "ShlExpr_create X l r =
     (if getWidth l = 1 then do { z \<leftarrow> createIsZero X r; And_create X l z }
      else Some (BinaryExpr Shl l r))"

definition LShrExpr_create :: "expr_env \<Rightarrow> expr \<Rightarrow> expr \<Rightarrow> expr option" where
  "LShrExpr_create X l r =
     (if getWidth l = 1 then do { z \<leftarrow> createIsZero X r; And_create X l z }
      else Some (BinaryExpr LShr l r))"

definition AShrExpr_create :: "expr \<Rightarrow> expr \<Rightarrow> expr option" where
  "AShrExpr_create l r = (if getWidth l = 1 then Some l else Some (BinaryExpr AShr l r))"

definition UDiv_create :: "expr_env \<Rightarrow> expr \<Rightarrow> expr \<Rightarrow> expr option" where
  "UDiv_create X = bcreate X UDiv UDivExpr_create"

definition SDiv_create :: "expr_env \<Rightarrow> expr \<Rightarrow> expr \<Rightarrow> expr option" where
  "SDiv_create X = bcreate X SDiv SDivExpr_create"

definition URem_create :: "expr_env \<Rightarrow> expr \<Rightarrow> expr \<Rightarrow> expr option" where
  "URem_create X = bcreate X URem (URemExpr_create X)"

definition SRem_create :: "expr_env \<Rightarrow> expr \<Rightarrow> expr \<Rightarrow> expr option" where
  "SRem_create X = bcreate X SRem (SRemExpr_create X)"

definition Shl_create :: "expr_env \<Rightarrow> expr \<Rightarrow> expr \<Rightarrow> expr option" where
  "Shl_create X = bcreate X Shl (ShlExpr_create X)"

definition LShr_create :: "expr_env \<Rightarrow> expr \<Rightarrow> expr \<Rightarrow> expr option" where
  "LShr_create X = bcreate X LShr (LShrExpr_create X)"

definition AShr_create :: "expr_env \<Rightarrow> expr \<Rightarrow> expr \<Rightarrow> expr option" where
  "AShr_create X = bcreate X AShr AShrExpr_create"

section \<open>Comparisons\<close>

text \<open>The macro \<open>CMPCREATE\<close>.\<close>

definition cmpcreate :: "expr_env \<Rightarrow> cmpop \<Rightarrow> (expr \<Rightarrow> expr \<Rightarrow> expr option) \<Rightarrow> expr \<Rightarrow> expr \<Rightarrow> expr option" where
  "cmpcreate X k full l r =
     (if getWidth l \<noteq> getWidth r then None
      else (case l of
          ConstantExpr cl \<Rightarrow>
            (case r of
               ConstantExpr cr \<Rightarrow> map_option ConstantExpr (Constant_cmp X k cl cr)
             | _ \<Rightarrow> full l r)
        | _ \<Rightarrow> full l r))"

definition UltExpr_create :: "expr_env \<Rightarrow> expr \<Rightarrow> expr \<Rightarrow> expr option" where
  "UltExpr_create X l r =
     (if getWidth l = 1 then do { z \<leftarrow> createIsZero X l; And_create X z r }
      else Some (CmpExpr Ult l r))"

definition UleExpr_create :: "expr_env \<Rightarrow> expr \<Rightarrow> expr \<Rightarrow> expr option" where
  "UleExpr_create X l r =
     (if getWidth l = 1 then do { z \<leftarrow> createIsZero X l; Or_create X z r }
      else Some (CmpExpr Ule l r))"

definition SltExpr_create :: "expr_env \<Rightarrow> expr \<Rightarrow> expr \<Rightarrow> expr option" where
  "SltExpr_create X l r =
     (if getWidth l = 1 then do { z \<leftarrow> createIsZero X r; And_create X l z }
      else Some (CmpExpr Slt l r))"

definition SleExpr_create :: "expr_env \<Rightarrow> expr \<Rightarrow> expr \<Rightarrow> expr option" where
  "SleExpr_create X l r =
     (if getWidth l = 1 then do { z \<leftarrow> createIsZero X r; Or_create X l z }
      else Some (CmpExpr Sle l r))"

definition Ult_create :: "expr_env \<Rightarrow> expr \<Rightarrow> expr \<Rightarrow> expr option" where
  "Ult_create X = cmpcreate X Ult (UltExpr_create X)"

definition Ule_create :: "expr_env \<Rightarrow> expr \<Rightarrow> expr \<Rightarrow> expr option" where
  "Ule_create X = cmpcreate X Ule (UleExpr_create X)"

definition Slt_create :: "expr_env \<Rightarrow> expr \<Rightarrow> expr \<Rightarrow> expr option" where
  "Slt_create X = cmpcreate X Slt (SltExpr_create X)"

definition Sle_create :: "expr_env \<Rightarrow> expr \<Rightarrow> expr \<Rightarrow> expr option" where
  "Sle_create X = cmpcreate X Sle (SleExpr_create X)"

definition Ugt_create :: "expr_env \<Rightarrow> expr \<Rightarrow> expr \<Rightarrow> expr option" where
  "Ugt_create X l r = Ult_create X r l"

definition Uge_create :: "expr_env \<Rightarrow> expr \<Rightarrow> expr \<Rightarrow> expr option" where
  "Uge_create X l r = Ule_create X r l"

definition Sgt_create :: "expr_env \<Rightarrow> expr \<Rightarrow> expr \<Rightarrow> expr option" where
  "Sgt_create X l r = Slt_create X r l"

definition Sge_create :: "expr_env \<Rightarrow> expr \<Rightarrow> expr \<Rightarrow> expr option" where
  "Sge_create X l r = Sle_create X r l"

section \<open>Extraction, concatenation and casts\<close>

text \<open>The condition under which \<open>ConcatExpr::create\<close> merges two extracts, with the extract it makes.\<close>

definition contiguous :: "expr \<Rightarrow> expr \<Rightarrow> (expr \<times> nat \<times> nat) option" where
  "contiguous l r =
     (case l of
        ExtractExpr el ol wl \<Rightarrow>
          (case r of
             ExtractExpr er off wr \<Rightarrow>
               (if el = er \<and> off + wr = ol then Some (el, off, wl + wr) else None)
           | _ \<Rightarrow> None)
      | _ \<Rightarrow> None)"

text \<open>
  \<open>ExtractExpr::create\<close>, with the body of \<open>ConcatExpr::create\<close> in place where the two call
  each other; the two constants of a concatenation are folded first. The width of the left part,
  \<open>w - width + off\<close> in unsigned arithmetic, is written without its wrap-around.
\<close>

definition concat_fold :: "expr_env \<Rightarrow> expr \<Rightarrow> expr \<Rightarrow> expr option option" where
  "concat_fold X l r =
     (case l of
        ConstantExpr cl \<Rightarrow>
          (case r of
             ConstantExpr cr \<Rightarrow> Some (map_option ConstantExpr (Constant_Concat X cl cr))
           | _ \<Rightarrow> None)
      | _ \<Rightarrow> None)"

function Extract_create :: "expr_env \<Rightarrow> expr \<Rightarrow> nat \<Rightarrow> nat \<Rightarrow> expr option" where
  "Extract_create X e off w =
     (let kw = getWidth e in
      if \<not> (w > 0 \<and> off + w \<le> kw) then None
      else if w = kw then Some e
      else (case e of
          ConstantExpr c \<Rightarrow> Some (ConstantExpr (Constant_Extract X c off w))
        | ConcatExpr l r \<Rightarrow>
            (if off \<ge> getWidth r then Extract_create X l (off - getWidth r) w
             else if off + w \<le> getWidth r then Extract_create X r off w
             else
               Option.bind (Extract_create X l 0 (w + off - getWidth r)) (\<lambda>a.
               Option.bind (Extract_create X r off (getWidth r - off)) (\<lambda>b.
                 case concat_fold X a b of
                   Some c \<Rightarrow> c
                 | None \<Rightarrow>
                     (case contiguous a b of
                        Some (z, o', w') \<Rightarrow> Extract_create X z o' w'
                      | None \<Rightarrow> Some (ConcatExpr a b)))))
        | _ \<Rightarrow> Some (ExtractExpr e off w)))"
  by pat_completeness auto

lemma contiguous_Some:
  "contiguous a b = Some (z, o', w') \<longleftrightarrow>
     (\<exists>oa wa wb. a = ExtractExpr z oa wa \<and> b = ExtractExpr z o' wb \<and> o' + wb = oa \<and> w' = wa + wb)"
  by (auto simp: contiguous_def split: expr.splits if_splits)

lemma concat_fold_not_Extract: "concat_fold X a b \<noteq> Some (Some (ExtractExpr z oz wz))"
  by (simp add: concat_fold_def split: expr.splits)

lemma Extract_create_inner:
  "Extract_create_dom (X, e, off, w) \<Longrightarrow>
   Extract_create X e off w = Some (ExtractExpr z oz wz) \<Longrightarrow> size z \<le> size e"
proof (induction X e off w arbitrary: z oz wz rule: Extract_create.pinduct)
  case (1 X e off w)
  show ?case
  proof (cases e)
    case (ConcatExpr l r)
    note IH = 1(2-6) [OF refl _ _ ConcatExpr]
    have ok: "0 < w \<and> off + w \<le> getWidth e" and full: "w = getWidth e \<Longrightarrow> e = ExtractExpr z oz wz"
      using 1(1,7) by (auto simp: Extract_create.psimps Let_def split: if_splits)
    with ConcatExpr have nf: "w \<noteq> getWidth e" by auto
    note unf = Extract_create.psimps [OF 1(1) [unfolded ConcatExpr]] Let_def
    consider (left) "getWidth r \<le> off" | (right) "\<not> getWidth r \<le> off" "off + w \<le> getWidth r"
      | (both) "\<not> getWidth r \<le> off" "\<not> off + w \<le> getWidth r" by blast
    then show ?thesis
    proof cases
      case left
      then have "Extract_create X l (off - getWidth r) w = Some (ExtractExpr z oz wz)"
        using 1(7) ok nf ConcatExpr by (simp add: unf)
      with IH(1) ok nf left ConcatExpr show ?thesis by fastforce
    next
      case right
      then have "Extract_create X r off w = Some (ExtractExpr z oz wz)"
        using 1(7) ok nf ConcatExpr by (simp add: unf)
      with IH(2) ok nf right ConcatExpr show ?thesis by fastforce
    next
      case both
      with 1(7) ok nf ConcatExpr obtain a b z' oa wa where
        a: "Extract_create X l 0 (w + off - getWidth r) = Some a"
        and b: "Extract_create X r off (getWidth r - off) = Some b"
        and n: "concat_fold X a b = None" and c: "contiguous a b = Some (z', oa, wa)"
        and e: "Extract_create X z' oa wa = Some (ExtractExpr z oz wz)"
        using concat_fold_not_Extract [of X _ _ z oz wz]
        by (auto simp: unf bind_eq_Some_conv split: option.splits) blast+
      from c obtain o1 w1 where "a = ExtractExpr z' o1 w1" by (auto simp: contiguous_Some)
      with a IH(3) both ok nf have "size z' \<le> size l" by auto
      moreover have "size z \<le> size z'" using IH(5) [OF _ nf both a b n c refl refl e] ok by simp
      ultimately show ?thesis using ConcatExpr by simp
    qed
  qed (use 1 in \<open>auto simp: Extract_create.psimps Let_def split: if_splits\<close>)
qed


termination Extract_create
proof (relation "measure (\<lambda>(X, e, off, w). size e)", goal_cases)
  case (6 X e off w kw l r a b p z q o' w')
  then obtain o1 w1 where "a = ExtractExpr z o1 w1" by (auto simp: contiguous_Some)
  with 6 have "size z \<le> size l" by (auto intro: Extract_create_inner)
  with 6 show ?case by (cases p) auto
qed auto

declare Extract_create.simps [simp del]

definition Concat_create :: "expr_env \<Rightarrow> expr \<Rightarrow> expr \<Rightarrow> expr option" where
  "Concat_create X l r =
     (case concat_fold X l r of
        Some c \<Rightarrow> c
      | None \<Rightarrow>
          (case contiguous l r of
             Some (e, off, _) \<Rightarrow> Extract_create X e off (getWidth l + getWidth r)
           | None \<Rightarrow> Some (ConcatExpr l r)))"

text \<open>The chain of \<open>createN\<close> is built from the last two kids towards the first.\<close>

fun Concat_createN :: "expr_env \<Rightarrow> expr list \<Rightarrow> expr option" where
  "Concat_createN X [] = None"
| "Concat_createN X [k] = Some k"
| "Concat_createN X (k # ks) = do { r \<leftarrow> Concat_createN X ks; Concat_create X k r }"

definition Concat_create4 :: "expr_env \<Rightarrow> expr \<Rightarrow> expr \<Rightarrow> expr \<Rightarrow> expr \<Rightarrow> expr option" where
  "Concat_create4 X k1 k2 k3 k4 = do {
     c3 \<leftarrow> Concat_create X k3 k4;
     c2 \<leftarrow> Concat_create X k2 c3;
     Concat_create X k1 c2 }"

definition Concat_create8 :: "expr_env \<Rightarrow> expr \<Rightarrow> expr \<Rightarrow> expr \<Rightarrow> expr \<Rightarrow> expr \<Rightarrow> expr \<Rightarrow> expr \<Rightarrow> expr \<Rightarrow>
    expr option" where
  "Concat_create8 X k1 k2 k3 k4 k5 k6 k7 k8 = do {
     c5 \<leftarrow> Concat_create4 X k5 k6 k7 k8;
     c4 \<leftarrow> Concat_create X k4 c5;
     c3 \<leftarrow> Concat_create X k3 c4;
     c2 \<leftarrow> Concat_create X k2 c3;
     Concat_create X k1 c2 }"

definition Not_create :: "expr_env \<Rightarrow> expr \<Rightarrow> expr option" where
  "Not_create X e =
     (case e of
        ConstantExpr c \<Rightarrow> Some (ConstantExpr (Constant_Not X c))
      | _ \<Rightarrow> Some (NotExpr e))"

definition ZExt_create :: "expr_env \<Rightarrow> expr \<Rightarrow> nat \<Rightarrow> expr option" where
  "ZExt_create X e w =
     (let kBits = getWidth e in
      if w = kBits then Some e
      else if w < kBits then Extract_create X e 0 w
      else (case e of
          ConstantExpr c \<Rightarrow> Some (ConstantExpr (Constant_ZExt X c w))
        | _ \<Rightarrow> Some (CastExpr ZExt e w)))"

definition SExt_create :: "expr_env \<Rightarrow> expr \<Rightarrow> nat \<Rightarrow> expr option" where
  "SExt_create X e w =
     (let kBits = getWidth e in
      if w = kBits then Some e
      else if w < kBits then Extract_create X e 0 w
      else (case e of
          ConstantExpr c \<Rightarrow> Some (ConstantExpr (Constant_SExt X c w))
        | _ \<Rightarrow> Some (CastExpr SExt e w)))"

section \<open>Selection and reads\<close>

definition NotOptimized_create :: "expr \<Rightarrow> expr option" where
  "NotOptimized_create e = Some (NotOptimizedExpr e)"

definition Select_create :: "expr_env \<Rightarrow> expr \<Rightarrow> expr \<Rightarrow> expr \<Rightarrow> expr option" where
  "Select_create X c t f =
     (let kt = getWidth t in
      if getWidth c \<noteq> 1 \<or> kt \<noteq> getWidth f then None
      else (case c of
          ConstantExpr cc \<Rightarrow> do { b \<leftarrow> isTrue X cc; Some (if b then t else f) }
        | _ \<Rightarrow>
            if t = f then Some t
            else if kt = 1 then
              (case t of
                 ConstantExpr ct \<Rightarrow> do {
                   b \<leftarrow> isTrue X ct;
                   if b then Or_create X c f
                   else do { z \<leftarrow> createIsZero X c; And_create X z f } }
               | _ \<Rightarrow>
                   (case f of
                      ConstantExpr cf \<Rightarrow> do {
                        b \<leftarrow> isTrue X cf;
                        if b then do { z \<leftarrow> createIsZero X c; Or_create X z t }
                        else And_create X c t }
                    | _ \<Rightarrow> Some (SelectExpr c t f)))
            else Some (SelectExpr c t f)))"

text \<open>The loop of \<open>ReadExpr::create\<close> over the update nodes.\<close>

fun Read_create_loop :: "expr_env \<Rightarrow> expr \<Rightarrow> (expr \<times> expr) list \<Rightarrow> expr \<Rightarrow> expr option" where
  "Read_create_loop X index [] alloc = Some alloc"
| "Read_create_loop X index ((ui, uv) # us) alloc = do {
     cond \<leftarrow> Eq_create X index ui;
     case cond of
       ConstantExpr ce \<Rightarrow> do {
         t \<leftarrow> isTrue X ce;
         if t then Some uv else Read_create_loop X index us alloc }
     | _ \<Rightarrow> Some alloc }"

definition Read_create :: "expr_env \<Rightarrow> array \<Rightarrow> (expr \<times> expr) list \<Rightarrow> expr \<Rightarrow> expr option" where
  "Read_create X root us index = Read_create_loop X index us (ReadExpr root us index)"

definition read_byte :: "expr_env \<Rightarrow> array \<Rightarrow> nat \<Rightarrow> expr option" where
  "read_byte X a i = Read_create X a [] (ConstantExpr (Constant_alloc X (of_nat i) 32))"

definition createTempRead :: "expr_env \<Rightarrow> array \<Rightarrow> nat \<Rightarrow> expr option" where
  "createTempRead X a w =
     (if w = 1 then do { b0 \<leftarrow> read_byte X a 0; ZExt_create X b0 1 }
      else if w = 8 then read_byte X a 0
      else if w = 16 then do {
        b1 \<leftarrow> read_byte X a 1; b0 \<leftarrow> read_byte X a 0; Concat_create X b1 b0 }
      else if w = 32 then do {
        b3 \<leftarrow> read_byte X a 3; b2 \<leftarrow> read_byte X a 2; b1 \<leftarrow> read_byte X a 1; b0 \<leftarrow> read_byte X a 0;
        Concat_create4 X b3 b2 b1 b0 }
      else if w = 64 then do {
        b7 \<leftarrow> read_byte X a 7; b6 \<leftarrow> read_byte X a 6; b5 \<leftarrow> read_byte X a 5; b4 \<leftarrow> read_byte X a 4;
        b3 \<leftarrow> read_byte X a 3; b2 \<leftarrow> read_byte X a 2; b1 \<leftarrow> read_byte X a 1; b0 \<leftarrow> read_byte X a 0;
        Concat_create8 X b7 b6 b5 b4 b3 b2 b1 b0 }
      else None)"

section \<open>Dispatch on the kind\<close>

datatype kind = KConstant | KNotOptimized | KRead | KSelect | KConcat | KExtract | KNot
  | KCast castop | KBin binop | KCmp cmpop

datatype create_arg = ExprArg expr | WidthArg nat

fun create_bin :: "expr_env \<Rightarrow> binop \<Rightarrow> expr \<Rightarrow> expr \<Rightarrow> expr option" where
  "create_bin X Add l r = Add_create X l r"
| "create_bin X Sub l r = Sub_create X l r"
| "create_bin X Mul l r = Mul_create X l r"
| "create_bin X UDiv l r = UDiv_create X l r"
| "create_bin X SDiv l r = SDiv_create X l r"
| "create_bin X URem l r = URem_create X l r"
| "create_bin X SRem l r = SRem_create X l r"
| "create_bin X And l r = And_create X l r"
| "create_bin X Or l r = Or_create X l r"
| "create_bin X Xor l r = Xor_create X l r"
| "create_bin X Shl l r = Shl_create X l r"
| "create_bin X LShr l r = LShr_create X l r"
| "create_bin X AShr l r = AShr_create X l r"

fun create_cmp :: "expr_env \<Rightarrow> cmpop \<Rightarrow> expr \<Rightarrow> expr \<Rightarrow> expr option" where
  "create_cmp X Eq l r = Eq_create X l r"
| "create_cmp X Ne l r = Ne_create X l r"
| "create_cmp X Ult l r = Ult_create X l r"
| "create_cmp X Ule l r = Ule_create X l r"
| "create_cmp X Ugt l r = Ugt_create X l r"
| "create_cmp X Uge l r = Uge_create X l r"
| "create_cmp X Slt l r = Slt_create X l r"
| "create_cmp X Sle l r = Sle_create X l r"
| "create_cmp X Sgt l r = Sgt_create X l r"
| "create_cmp X Sge l r = Sge_create X l r"

fun createFromKind :: "expr_env \<Rightarrow> kind \<Rightarrow> create_arg list \<Rightarrow> expr option" where
  "createFromKind X KNotOptimized [ExprArg e] = NotOptimized_create e"
| "createFromKind X KSelect [ExprArg c, ExprArg t, ExprArg f] = Select_create X c t f"
| "createFromKind X KConcat [ExprArg l, ExprArg r] = Concat_create X l r"
| "createFromKind X (KCast ZExt) [ExprArg e, WidthArg w] = ZExt_create X e w"
| "createFromKind X (KCast SExt) [ExprArg e, WidthArg w] = SExt_create X e w"
| "createFromKind X (KBin k) [ExprArg l, ExprArg r] = create_bin X k l r"
| "createFromKind X (KCmp k) [ExprArg l, ExprArg r] = create_cmp X k l r"
| "createFromKind X _ _ = None"

end
