(* ===== verification/ExprCompare.thy ===== *)
theory ExprCompare
  imports Expr "HOL-Library.List_Lexorder" "HOL-Library.Char_ord"
begin

text \<open>
  Hashes and the structural comparison of expressions: \<open>Expr::computeHash\<close> with its overrides,
  \<open>Expr::compare\<close>, \<open>compareContents\<close> (\<open>lib/Expr/Expr.cpp\<close>, \<open>include/klee/Expr.h\<close>) and the
  comparison of update lists (\<open>lib/Expr/Updates.cpp\<close>). This is the order of
  \<open>std::set<ref<Expr> >\<close> and the equality the simplifier tests. The shortcuts for identical
  pointers and for pairs already found equal (\<open>equivs\<close>) do not change the answer and are left
  out. \<open>NotExpr::computeHash\<close> assigns a local variable that hides the member, so the member keeps
  whatever the allocation held: \<open>uninit_hash\<close>.
\<close>

section \<open>Kinds\<close>

fun binKind :: "binop \<Rightarrow> nat" where
  "binKind Add = 9" | "binKind Sub = 10" | "binKind Mul = 11" | "binKind UDiv = 12"
| "binKind SDiv = 13" | "binKind URem = 14" | "binKind SRem = 15"
| "binKind And = 17" | "binKind Or = 18" | "binKind Xor = 19" | "binKind Shl = 20"
| "binKind LShr = 21" | "binKind AShr = 22"

fun cmpKind :: "cmpop \<Rightarrow> nat" where
  "cmpKind Eq = 23" | "cmpKind Ne = 24" | "cmpKind Ult = 25" | "cmpKind Ule = 26"
| "cmpKind Ugt = 27" | "cmpKind Uge = 28" | "cmpKind Slt = 29" | "cmpKind Sle = 30"
| "cmpKind Sgt = 31" | "cmpKind Sge = 32"

fun getKind :: "expr \<Rightarrow> nat" where
  "getKind (ConstantExpr c) = 0"
| "getKind (NotOptimizedExpr e) = 1"
| "getKind (ReadExpr root us i) = 3"
| "getKind (SelectExpr c t f) = 4"
| "getKind (ConcatExpr l r) = 5"
| "getKind (ExtractExpr e off w) = 6"
| "getKind (CastExpr k e w) = (case k of ZExt \<Rightarrow> 7 | SExt \<Rightarrow> 8)"
| "getKind (NotExpr e) = 16"
| "getKind (BinaryExpr k l r) = binKind k"
| "getKind (CmpExpr k l r) = cmpKind k"

section \<open>Hashes\<close>

definition MAGIC :: uint32_t where "MAGIC = 39"

text \<open>One round of the loop of \<open>Expr::computeHash\<close>.\<close>

definition mix :: "uint32_t \<Rightarrow> uint32_t \<Rightarrow> uint32_t" where
  "mix res kid = (push_bit 1 res) XOR (kid * MAGIC)"

fun name_hash :: "uint32_t \<Rightarrow> string \<Rightarrow> uint32_t" where
  "name_hash res [] = res"
| "name_hash res (c # cs) = name_hash (res * MAGIC + scast (of_char c :: uint8_t)) cs"

function (sequential) expr_hash :: "expr_env \<Rightarrow> expr \<Rightarrow> uint32_t"
  and nodes_hash :: "expr_env \<Rightarrow> (expr \<times> expr) list \<Rightarrow> uint32_t" where
  "expr_hash X (ConstantExpr c) = ap_getHashValue X c XOR (of_nat (apw c) * MAGIC)"
| "expr_hash X (NotOptimizedExpr e) = mix (1 * MAGIC) (expr_hash X e)"
| "expr_hash X (ReadExpr root us i) =
     (expr_hash X i * MAGIC) XOR
     (let res = name_hash 0 (array_name root) in if us = [] then res else res XOR nodes_hash X us)"
| "expr_hash X (SelectExpr c t f) =
     mix (mix (mix (4 * MAGIC) (expr_hash X c)) (expr_hash X t)) (expr_hash X f)"
| "expr_hash X (ConcatExpr l r) = mix (mix (5 * MAGIC) (expr_hash X l)) (expr_hash X r)"
| "expr_hash X (ExtractExpr e off w) =
     ((of_nat off * MAGIC) XOR (of_nat w * MAGIC)) XOR (expr_hash X e * MAGIC)"
| "expr_hash X (NotExpr e) = uninit_hash X (NotExpr e)"
| "expr_hash X (CastExpr k e w) = (of_nat w * MAGIC) XOR (expr_hash X e * MAGIC)"
| "expr_hash X (BinaryExpr k l r) =
     mix (mix (of_nat (binKind k) * MAGIC) (expr_hash X l)) (expr_hash X r)"
| "expr_hash X (CmpExpr k l r) =
     mix (mix (of_nat (cmpKind k) * MAGIC) (expr_hash X l)) (expr_hash X r)"
| "nodes_hash X [] = 0"
| "nodes_hash X ((i, v) # us) =
     (let h = expr_hash X i XOR expr_hash X v in if us = [] then h else h XOR nodes_hash X us)"
  by pat_completeness auto
termination
  by (relation "measure (\<lambda>x. case x of
        Inl (X, e) \<Rightarrow> size (e :: expr)
      | Inr (X, us) \<Rightarrow> size_list (size_prod size size) us)") auto

section \<open>Comparison\<close>

definition cmp3 :: "'a::linorder \<Rightarrow> 'a \<Rightarrow> int" where
  "cmp3 x y = (if x \<noteq> y then (if x < y then - 1 else 1) else 0)"

text \<open>\<open>if (int res = c) return res;\<close> followed by \<open>d\<close>.\<close>

definition orelse :: "int \<Rightarrow> int \<Rightarrow> int" where
  "orelse c d = (if c \<noteq> 0 then c else d)"

definition compare_head :: "expr_env \<Rightarrow> expr \<Rightarrow> expr \<Rightarrow> int" where
  "compare_head X a b = orelse (cmp3 (getKind a) (getKind b)) (cmp3 (expr_hash X a) (expr_hash X b))"

text \<open>\<open>UpdateList::compare\<close> up to the comparison of the nodes.\<close>

definition compare_roots :: "array \<Rightarrow> nat \<Rightarrow> array \<Rightarrow> nat \<Rightarrow> int" where
  "compare_roots a n b m =
     orelse (cmp3 (array_name a) (array_name b)) (orelse (cmp3 (array_ptr a) (array_ptr b)) (cmp3 n m))"

function (sequential) compare :: "expr_env \<Rightarrow> expr \<Rightarrow> expr \<Rightarrow> int"
  and compare_nodes :: "expr_env \<Rightarrow> (expr \<times> expr) list \<Rightarrow> (expr \<times> expr) list \<Rightarrow> int" where
  "compare X (ConstantExpr c) = (\<lambda>b. orelse (compare_head X (ConstantExpr c) b)
     (case b of
        ConstantExpr d \<Rightarrow> orelse (cmp3 (apw c) (apw d)) (cmp3 (apv c) (apv d))
      | _ \<Rightarrow> 0))"
| "compare X (NotOptimizedExpr e) = (\<lambda>b. orelse (compare_head X (NotOptimizedExpr e) b)
     (case b of NotOptimizedExpr e' \<Rightarrow> compare X e e' | _ \<Rightarrow> 0))"
| "compare X (ReadExpr root us i) = (\<lambda>b. orelse (compare_head X (ReadExpr root us i) b)
     (case b of
        ReadExpr root' us' i' \<Rightarrow>
          orelse (compare_roots root (length us) root' (length us'))
            (orelse (compare_nodes X us us') (compare X i i'))
      | _ \<Rightarrow> 0))"
| "compare X (SelectExpr c t f) = (\<lambda>b. orelse (compare_head X (SelectExpr c t f) b)
     (case b of
        SelectExpr c' t' f' \<Rightarrow> orelse (compare X c c') (orelse (compare X t t') (compare X f f'))
      | _ \<Rightarrow> 0))"
| "compare X (ConcatExpr l r) = (\<lambda>b. orelse (compare_head X (ConcatExpr l r) b)
     (case b of ConcatExpr l' r' \<Rightarrow> orelse (compare X l l') (compare X r r') | _ \<Rightarrow> 0))"
| "compare X (ExtractExpr e off w) = (\<lambda>b. orelse (compare_head X (ExtractExpr e off w) b)
     (case b of
        ExtractExpr e' off' w' \<Rightarrow> orelse (cmp3 off off') (orelse (cmp3 w w') (compare X e e'))
      | _ \<Rightarrow> 0))"
| "compare X (NotExpr e) = (\<lambda>b. orelse (compare_head X (NotExpr e) b)
     (case b of NotExpr e' \<Rightarrow> orelse (compare X e e') (compare X e e') | _ \<Rightarrow> 0))"
| "compare X (CastExpr k e w) = (\<lambda>b. orelse (compare_head X (CastExpr k e w) b)
     (case b of CastExpr k' e' w' \<Rightarrow> orelse (cmp3 w w') (compare X e e') | _ \<Rightarrow> 0))"
| "compare X (BinaryExpr k l r) = (\<lambda>b. orelse (compare_head X (BinaryExpr k l r) b)
     (case b of BinaryExpr k' l' r' \<Rightarrow> orelse (compare X l l') (compare X r r') | _ \<Rightarrow> 0))"
| "compare X (CmpExpr k l r) = (\<lambda>b. orelse (compare_head X (CmpExpr k l r) b)
     (case b of CmpExpr k' l' r' \<Rightarrow> orelse (compare X l l') (compare X r r') | _ \<Rightarrow> 0))"
| "compare_nodes X [] = (\<lambda>ys. 0)"
| "compare_nodes X ((i, v) # us) = (\<lambda>ys.
     case ys of
       [] \<Rightarrow> 0
     | (i', v') # us' \<Rightarrow> orelse (orelse (compare X i i') (compare X v v')) (compare_nodes X us us'))"
  by pat_completeness auto
termination
  by (relation "measure (\<lambda>x. case x of
        Inl (X, e) \<Rightarrow> size (e :: expr)
      | Inr (X, us) \<Rightarrow> size_list (size_prod size size) us)") auto

definition expr_less :: "expr_env \<Rightarrow> expr \<Rightarrow> expr \<Rightarrow> bool" where
  "expr_less X a b = (compare X a b < 0)"

section \<open>The comparison is a strict total order\<close>

text \<open>\<open>tri x y z\<close>: the signs of the comparisons \<open>a, b\<close>, \<open>b, c\<close> and \<open>a, c\<close> fit together.\<close>

definition tri :: "int \<Rightarrow> int \<Rightarrow> int \<Rightarrow> bool" where
  "tri x y z \<longleftrightarrow> (x \<le> 0 \<and> y \<le> 0 \<longrightarrow> z \<le> 0 \<and> (z = 0 \<longleftrightarrow> x = 0 \<and> y = 0))"

lemma tri_orelse:
  "tri x y z \<Longrightarrow> (x = 0 \<Longrightarrow> y = 0 \<Longrightarrow> tri x' y' z') \<Longrightarrow> tri (orelse x x') (orelse y y') (orelse z z')"
  by (auto simp: tri_def orelse_def split: if_splits)

lemma tri_cmp3 [simp]: "tri (cmp3 x y) (cmp3 y z) (cmp3 x z)"
  by (auto simp: tri_def cmp3_def)

lemma cmp3_eq_0 [simp]: "cmp3 x y = 0 \<longleftrightarrow> x = y"
  by (simp add: cmp3_def)

lemma orelse_eq_0 [simp]: "orelse c d = 0 \<longleftrightarrow> c = 0 \<and> d = 0"
  by (simp add: orelse_def)

lemma orelse_same [simp]: "orelse c c = c"
  by (simp add: orelse_def)

lemma cmp3_minus: "cmp3 y x = - cmp3 x y"
  by (auto simp: cmp3_def)

lemma orelse_minus: "orelse (- c) (- d) = - orelse c d"
  by (simp add: orelse_def)

lemma getKind_inj:
  "binKind k = binKind k' \<longleftrightarrow> k = k'"
  "cmpKind c = cmpKind c' \<longleftrightarrow> c = c'"
  by (cases k; cases k'; simp) (cases c; cases c'; simp)

lemma getKind_ranges:
  "9 \<le> binKind k" "binKind k \<le> 22" "binKind k \<noteq> 16" "23 \<le> cmpKind c"
  by (cases k; simp)+ (cases c; simp)

lemma getKind_neq [simp]:
  "binKind k \<noteq> cmpKind c" "cmpKind c \<noteq> binKind k"
  using getKind_ranges(2) [of k] getKind_ranges(4) [of c] by linarith+

lemma kind_ne [simp]:
  "n < 9 \<Longrightarrow> binKind k \<noteq> n" "n < 9 \<Longrightarrow> n \<noteq> binKind k" "binKind k \<noteq> 16" "16 \<noteq> binKind k"
  "n < 23 \<Longrightarrow> cmpKind c \<noteq> n" "n < 23 \<Longrightarrow> n \<noteq> cmpKind c"
  using getKind_ranges(1,3) [of k] getKind_ranges(4) [of c] by auto

lemma kind_ne0 [simp]: "binKind k > 0" "cmpKind c > 0" "binKind k \<noteq> Suc 0" "cmpKind c \<noteq> Suc 0"
  "Suc 0 \<noteq> binKind k" "Suc 0 \<noteq> cmpKind c"
  using getKind_ranges(1) [of k] getKind_ranges(4) [of c] by linarith+

lemma kind_iff:
  "getKind b = 0 \<longleftrightarrow> (\<exists>d. b = ConstantExpr d)"
  "getKind b = Suc 0 \<longleftrightarrow> (\<exists>e. b = NotOptimizedExpr e)"
  "getKind b = 3 \<longleftrightarrow> (\<exists>root us i. b = ReadExpr root us i)"
  "getKind b = 4 \<longleftrightarrow> (\<exists>c t f. b = SelectExpr c t f)"
  "getKind b = 5 \<longleftrightarrow> (\<exists>l r. b = ConcatExpr l r)"
  "getKind b = 6 \<longleftrightarrow> (\<exists>e off w. b = ExtractExpr e off w)"
  "getKind b = 16 \<longleftrightarrow> (\<exists>e. b = NotExpr e)"
  "getKind b = getKind (CastExpr k e' w') \<longleftrightarrow> (\<exists>e w. b = CastExpr k e w)"
  "getKind b = binKind bk \<longleftrightarrow> (\<exists>l r. b = BinaryExpr bk l r)"
  "getKind b = cmpKind ck \<longleftrightarrow> (\<exists>l r. b = CmpExpr ck l r)"
  by (cases b; simp add: getKind_inj split: castop.splits; fail)+

lemma compare_head_0: "compare_head X a b = 0 \<longleftrightarrow> getKind a = getKind b \<and> expr_hash X a = expr_hash X b"
  by (simp add: compare_head_def)

lemma tri_head [simp]: "tri (compare_head X a b) (compare_head X b c) (compare_head X a c)"
  by (simp add: compare_head_def tri_orelse)

lemma tri_roots [simp]:
  "tri (compare_roots a n b m) (compare_roots b m c k) (compare_roots a n c k)"
  by (simp add: compare_roots_def tri_orelse)

lemma compare_roots_0:
  "compare_roots a n b m = 0 \<longleftrightarrow> array_name a = array_name b \<and> array_ptr a = array_ptr b \<and> n = m"
  by (simp add: compare_roots_def)

lemma compare_split: "\<exists>d. compare X a b = orelse (compare_head X a b) d"
  by (cases a) (simp_all, blast+)

lemma tri_other_kind:
  assumes "getKind b \<noteq> getKind a \<or> getKind c \<noteq> getKind a"
  shows "tri (compare X a b) (compare X b c) (compare X a c)"
proof -
  obtain d1 d2 d3 where "compare X a b = orelse (compare_head X a b) d1"
    "compare X b c = orelse (compare_head X b c) d2" "compare X a c = orelse (compare_head X a c) d3"
    using compare_split by meson
  with assms show ?thesis by (auto simp: compare_head_0 intro: tri_orelse)
qed

lemma tri_same_kind:
  assumes "getKind b = getKind a \<Longrightarrow> getKind c = getKind a \<Longrightarrow>
    tri (compare X a b) (compare X b c) (compare X a c)"
  shows "tri (compare X a b) (compare X b c) (compare X a c)"
  using assms tri_other_kind by blast

lemma compare_tri:
  "tri (compare X a b) (compare X b c) (compare X a c)"
  "length us = length vs \<Longrightarrow> length vs = length ws \<Longrightarrow>
   tri (compare_nodes X us vs) (compare_nodes X vs ws) (compare_nodes X us ws)"
proof (induction X a and X us arbitrary: b c and vs ws rule: compare_compare_nodes.induct)
  case (1 X d)
  show ?case by (rule tri_same_kind) (clarsimp simp: kind_iff tri_orelse)
next
  case (2 X e)
  show ?case by (rule tri_same_kind) (clarsimp simp: kind_iff tri_orelse 2 [OF refl])
next
  case (3 X root us i)
  show ?case
  proof (rule tri_same_kind)
    assume "getKind b = getKind (ReadExpr root us i)" "getKind c = getKind (ReadExpr root us i)"
    then obtain r1 u1 i1 r2 u2 i2 where b: "b = ReadExpr r1 u1 i1" and c: "c = ReadExpr r2 u2 i2"
      by (auto simp: kind_iff)
    have "tri (orelse (compare_nodes X us u1) (compare X i i1))
        (orelse (compare_nodes X u1 u2) (compare X i1 i2)) (orelse (compare_nodes X us u2) (compare X i i2))"
      if "compare_roots root (length us) r1 (length u1) = 0" "compare_roots r1 (length u1) r2 (length u2) = 0"
      using that by (intro tri_orelse 3(1) [OF refl] 3(2) [OF refl]) (auto simp: compare_roots_0)
    then show "tri (compare X (ReadExpr root us i) b) (compare X b c) (compare X (ReadExpr root us i) c)"
      unfolding b c using tri_orelse [OF tri_head tri_orelse [OF tri_roots]] by simp
  qed
next
  case (4 X c t f)
  show ?case by (rule tri_same_kind) (clarsimp simp: kind_iff tri_orelse 4(1) [OF refl] 4(2) [OF refl] 4(3) [OF refl])
next
  case (5 X l r)
  show ?case by (rule tri_same_kind) (clarsimp simp: kind_iff tri_orelse 5(1) [OF refl] 5(2) [OF refl])
next
  case (6 X e off w)
  show ?case by (rule tri_same_kind) (clarsimp simp: kind_iff tri_orelse 6 [OF refl])
next
  case (7 X e)
  show ?case by (rule tri_same_kind) (clarsimp simp: kind_iff tri_orelse 7(1) [OF refl] 7(2) [OF refl])
next
  case (8 X k e w)
  show ?case by (rule tri_same_kind) (clarsimp simp: kind_iff tri_orelse 8 [OF refl] simp del: getKind.simps)
next
  case (9 X k l r)
  show ?case by (rule tri_same_kind) (clarsimp simp: kind_iff tri_orelse 9(1) [OF refl] 9(2) [OF refl])
next
  case (10 X k l r)
  show ?case by (rule tri_same_kind) (clarsimp simp: kind_iff tri_orelse 10(1) [OF refl] 10(2) [OF refl])
next
  case (12 X i v us)
  then obtain i1 v1 vs' i2 v2 ws' where "vs = (i1, v1) # vs'" "ws = (i2, v2) # ws'"
    by (cases vs; cases ws) auto
  with 12 show ?case by (simp add: tri_orelse)
qed (simp_all add: tri_def)

text \<open>The arrays an expression reads.\<close>

function (sequential) arrays_of :: "expr \<Rightarrow> array list"
  and nodes_arrays :: "(expr \<times> expr) list \<Rightarrow> array list" where
  "arrays_of (ConstantExpr c) = []"
| "arrays_of (NotOptimizedExpr e) = arrays_of e"
| "arrays_of (ReadExpr root us i) = root # nodes_arrays us @ arrays_of i"
| "arrays_of (SelectExpr c t f) = arrays_of c @ arrays_of t @ arrays_of f"
| "arrays_of (ConcatExpr l r) = arrays_of l @ arrays_of r"
| "arrays_of (ExtractExpr e off w) = arrays_of e"
| "arrays_of (NotExpr e) = arrays_of e"
| "arrays_of (CastExpr k e w) = arrays_of e"
| "arrays_of (BinaryExpr k l r) = arrays_of l @ arrays_of r"
| "arrays_of (CmpExpr k l r) = arrays_of l @ arrays_of r"
| "nodes_arrays [] = []"
| "nodes_arrays ((i, v) # us) = arrays_of i @ arrays_of v @ nodes_arrays us"
  by pat_completeness auto
termination
  by (relation "measure (\<lambda>x. case x of
        Inl e \<Rightarrow> size (e :: expr)
      | Inr us \<Rightarrow> size_list (size_prod size size) us)") auto

text \<open>No two different arrays have the same address.\<close>

definition ptr_unique :: "array list \<Rightarrow> bool" where
  "ptr_unique as \<longleftrightarrow> (\<forall>a \<in> set as. \<forall>b \<in> set as. array_ptr a = array_ptr b \<longrightarrow> a = b)"

lemma ptr_unique_mono: "ptr_unique bs \<Longrightarrow> set as \<subseteq> set bs \<Longrightarrow> ptr_unique as"
  unfolding ptr_unique_def by blast

lemma compare_refl: "compare X a a = 0" "compare_nodes X us us = 0"
  by (induction X a and X us rule: compare_compare_nodes.induct)
    (auto simp: compare_head_0 compare_roots_0)

lemma compare_0_kind: "compare X a b = 0 \<Longrightarrow> getKind b = getKind a"
  using compare_split [of X a b] by (auto simp: compare_head_0)

lemma compare_0_eq:
  "compare X a b = 0 \<Longrightarrow> ptr_unique (arrays_of a @ arrays_of b) \<Longrightarrow> a = b"
  "compare_nodes X us vs = 0 \<Longrightarrow> length us = length vs \<Longrightarrow>
   ptr_unique (nodes_arrays us @ nodes_arrays vs) \<Longrightarrow> us = vs"
proof (induction X a and X us arbitrary: b and vs rule: compare_compare_nodes.induct)
  case (1 X d)
  from compare_0_kind [OF 1(1)] obtain d' where b: "b = ConstantExpr d'" by (auto simp: kind_iff)
  with 1(1) have "apw d = apw d'" "apv d = apv d'" by simp_all
  with b show ?case by (simp add: apint.expand)
next
  case (3 X root us i)
  from compare_0_kind [OF 3(3)] obtain r1 u1 i1 where b: "b = ReadExpr r1 u1 i1" by (auto simp: kind_iff)
  with 3(3) have z: "compare_nodes X us u1 = 0" "compare X i i1 = 0" "length us = length u1"
    "array_ptr root = array_ptr r1" by (simp_all add: compare_roots_0)
  have p: "ptr_unique (nodes_arrays us @ nodes_arrays u1)"
    "ptr_unique (arrays_of i @ arrays_of i1)" "ptr_unique [root, r1]"
    by (rule ptr_unique_mono [OF 3(4)]; auto simp: b)+
  have "us = u1" "i = i1" by (rule 3(1) [OF refl z(1,3) p(1)], rule 3(2) [OF refl z(2) p(2)])
  moreover have "root = r1" using p(3) z(4) unfolding ptr_unique_def by (meson list.set_intros)
  ultimately show ?case using b by simp
next
  case (2 X e)
  from compare_0_kind [OF 2(2)] obtain e1 where b: "b = NotOptimizedExpr e1"
    by (auto simp: kind_iff)
  have p: "ptr_unique (arrays_of e @ arrays_of e1)"
    by (rule ptr_unique_mono [OF 2(3)]; auto simp: b)+
  from 2(2) b have z: "compare X e e1 = 0" by simp_all
  have "e = e1"
    by (rule 2(1) [OF refl z p])
  with b show ?case by simp
next
  case (4 X c t f)
  from compare_0_kind [OF 4(4)] obtain c1 t1 f1 where b: "b = SelectExpr c1 t1 f1"
    by (auto simp: kind_iff)
  have p: "ptr_unique (arrays_of c @ arrays_of c1)" "ptr_unique (arrays_of t @ arrays_of t1)" "ptr_unique (arrays_of f @ arrays_of f1)"
    by (rule ptr_unique_mono [OF 4(5)]; auto simp: b)+
  from 4(4) b have z: "compare X c c1 = 0" "compare X t t1 = 0" "compare X f f1 = 0" by simp_all
  have "c = c1" "t = t1" "f = f1"
    by (rule 4(1) [OF refl z(1) p(1)], rule 4(2) [OF refl z(2) p(2)], rule 4(3) [OF refl z(3) p(3)])
  with b show ?case by simp
next
  case (5 X l r)
  from compare_0_kind [OF 5(3)] obtain l1 r1 where b: "b = ConcatExpr l1 r1"
    by (auto simp: kind_iff)
  have p: "ptr_unique (arrays_of l @ arrays_of l1)" "ptr_unique (arrays_of r @ arrays_of r1)"
    by (rule ptr_unique_mono [OF 5(4)]; auto simp: b)+
  from 5(3) b have z: "compare X l l1 = 0" "compare X r r1 = 0" by simp_all
  have "l = l1" "r = r1"
    by (rule 5(1) [OF refl z(1) p(1)], rule 5(2) [OF refl z(2) p(2)])
  with b show ?case by simp
next
  case (6 X e off w)
  from compare_0_kind [OF 6(2)] obtain e1 off1 w1 where b: "b = ExtractExpr e1 off1 w1"
    by (auto simp: kind_iff)
  have p: "ptr_unique (arrays_of e @ arrays_of e1)"
    by (rule ptr_unique_mono [OF 6(3)]; auto simp: b)+
  from 6(2) b have z: "compare X e e1 = 0" "off = off1" "w = w1" by simp_all
  have "e = e1"
    by (rule 6(1) [OF refl z(1) p])
  with z(2-) b show ?case by simp
next
  case (7 X e)
  from compare_0_kind [OF 7(3)] obtain e1 where b: "b = NotExpr e1"
    by (auto simp: kind_iff)
  have p: "ptr_unique (arrays_of e @ arrays_of e1)"
    by (rule ptr_unique_mono [OF 7(4)]; auto simp: b)+
  from 7(3) b have z: "compare X e e1 = 0" by simp_all
  have "e = e1"
    by (rule 7(1) [OF refl z p])
  with b show ?case by simp
next
  case (8 X k e w)
  from compare_0_kind [OF 8(2)] obtain e1 w1 where b: "b = CastExpr k e1 w1"
    by (auto simp: kind_iff simp del: getKind.simps)
  have p: "ptr_unique (arrays_of e @ arrays_of e1)"
    by (rule ptr_unique_mono [OF 8(3)]; auto simp: b)+
  from 8(2) b have z: "compare X e e1 = 0" "w = w1" by simp_all
  have "e = e1"
    by (rule 8(1) [OF refl z(1) p])
  with z(2-) b show ?case by simp
next
  case (9 X k l r)
  from compare_0_kind [OF 9(3)] obtain l1 r1 where b: "b = BinaryExpr k l1 r1"
    by (auto simp: kind_iff)
  have p: "ptr_unique (arrays_of l @ arrays_of l1)" "ptr_unique (arrays_of r @ arrays_of r1)"
    by (rule ptr_unique_mono [OF 9(4)]; auto simp: b)+
  from 9(3) b have z: "compare X l l1 = 0" "compare X r r1 = 0" by simp_all
  have "l = l1" "r = r1"
    by (rule 9(1) [OF refl z(1) p(1)], rule 9(2) [OF refl z(2) p(2)])
  with b show ?case by simp
next
  case (10 X k l r)
  from compare_0_kind [OF 10(3)] obtain l1 r1 where b: "b = CmpExpr k l1 r1"
    by (auto simp: kind_iff)
  have p: "ptr_unique (arrays_of l @ arrays_of l1)" "ptr_unique (arrays_of r @ arrays_of r1)"
    by (rule ptr_unique_mono [OF 10(4)]; auto simp: b)+
  from 10(3) b have z: "compare X l l1 = 0" "compare X r r1 = 0" by simp_all
  have "l = l1" "r = r1"
    by (rule 10(1) [OF refl z(1) p(1)], rule 10(2) [OF refl z(2) p(2)])
  with b show ?case by simp
next
  case (12 X i v us)
  from 12(5) obtain i1 v1 vs' where vs: "vs = (i1, v1) # vs'" by (cases vs) auto
  have p: "ptr_unique (arrays_of i @ arrays_of i1)" "ptr_unique (arrays_of v @ arrays_of v1)"
    "ptr_unique (nodes_arrays us @ nodes_arrays vs')"
    by (rule ptr_unique_mono [OF 12(6)]; auto simp: vs)+
  from 12(4,5) vs have z: "compare X i i1 = 0" "compare X v v1 = 0" "compare_nodes X us vs' = 0"
    "length us = length vs'" by simp_all
  have "i = i1" "v = v1" "us = vs'"
    by (rule 12(1) [OF refl z(1) p(1)], rule 12(2) [OF refl z(2) p(2)], rule 12(3) [OF refl z(3,4) p(3)])
  with vs show ?case by simp
qed simp

lemma head_minus: "compare_head X b a = - compare_head X a b"
  by (simp add: compare_head_def cmp3_minus [of "getKind b"] cmp3_minus [of "expr_hash X b"] orelse_minus)

lemma roots_minus: "compare_roots b m a n = - compare_roots a n b m"
  by (simp add: compare_roots_def cmp3_minus [of "array_name b"] cmp3_minus [of "array_ptr b"]
      cmp3_minus [of m] orelse_minus)

lemma minus_other_kind: "getKind b \<noteq> getKind a \<Longrightarrow> compare X b a = - compare X a b"
proof -
  assume "getKind b \<noteq> getKind a"
  then have "compare_head X b a \<noteq> 0" "compare_head X a b \<noteq> 0" by (auto simp: compare_head_0)
  with compare_split [of X b a] compare_split [of X a b] head_minus [of X b a] show ?thesis
    by (auto simp: orelse_def)
qed

lemma minus_same_kind:
  "(getKind b = getKind a \<Longrightarrow> compare X b a = - compare X a b) \<Longrightarrow> compare X b a = - compare X a b"
  using minus_other_kind by blast

lemma compare_minus:
  "compare X b a = - compare X a b"
  "length us = length vs \<Longrightarrow> compare_nodes X vs us = - compare_nodes X us vs"
proof (induction X a and X us arbitrary: b and vs rule: compare_compare_nodes.induct)
  case (1 X d)
  show ?case
    by (rule minus_same_kind)
      (auto simp: kind_iff head_minus [of X _ "ConstantExpr d"] cmp3_minus [of _ "apw d"]
        cmp3_minus [of _ "apv d"] orelse_minus)
next
  case (2 X e)
  show ?case
    by (rule minus_same_kind)
      (auto simp: kind_iff head_minus [of X _ "NotOptimizedExpr e"] 2 [OF refl] orelse_minus)
next
  case (3 X root us i)
  show ?case
  proof (rule minus_same_kind)
    assume "getKind b = getKind (ReadExpr root us i)"
    then obtain r1 u1 i1 where b: "b = ReadExpr r1 u1 i1" by (auto simp: kind_iff)
    show "compare X b (ReadExpr root us i) = - compare X (ReadExpr root us i) b"
    proof (cases "length us = length u1")
      case True
      with b show ?thesis
        by (simp add: head_minus [of X "ReadExpr r1 u1 i1"] roots_minus [of r1] 3(1) [OF refl True]
            3(2) [OF refl, of i1] orelse_minus)
    next
      case False
      then have "compare_roots root (length us) r1 (length u1) \<noteq> 0" by (simp add: compare_roots_0)
      with b show ?thesis
        by (simp add: head_minus [of X "ReadExpr r1 u1 i1"] roots_minus [of r1] orelse_def)
    qed
  qed
next
  case (4 X c t f)
  show ?case
    by (rule minus_same_kind)
      (auto simp: kind_iff head_minus [of X _ "SelectExpr c t f"] 4(1) [OF refl] 4(2) [OF refl]
        4(3) [OF refl] orelse_minus)
next
  case (5 X l r)
  show ?case
    by (rule minus_same_kind)
      (auto simp: kind_iff head_minus [of X _ "ConcatExpr l r"] 5(1) [OF refl] 5(2) [OF refl] orelse_minus)
next
  case (6 X e off w)
  show ?case
    by (rule minus_same_kind)
      (auto simp: kind_iff head_minus [of X _ "ExtractExpr e off w"] cmp3_minus [of _ off]
        cmp3_minus [of _ w] 6 [OF refl] orelse_minus)
next
  case (7 X e)
  show ?case
    by (rule minus_same_kind)
      (auto simp: kind_iff head_minus [of X _ "NotExpr e"] 7(1) [OF refl] orelse_minus)
next
  case (8 X k e w)
  show ?case
    by (rule minus_same_kind)
      (auto simp: kind_iff head_minus [of X _ "CastExpr k e w"] cmp3_minus [of _ w] 8 [OF refl]
        orelse_minus simp del: getKind.simps)
next
  case (9 X k l r)
  show ?case
    by (rule minus_same_kind)
      (auto simp: kind_iff head_minus [of X _ "BinaryExpr k l r"] 9(1) [OF refl] 9(2) [OF refl] orelse_minus)
next
  case (10 X k l r)
  show ?case
    by (rule minus_same_kind)
      (auto simp: kind_iff head_minus [of X _ "CmpExpr k l r"] 10(1) [OF refl] 10(2) [OF refl] orelse_minus)
next
  case (12 X i v us)
  from 12(4) obtain i1 v1 vs' where "vs = (i1, v1) # vs'" "length us = length vs'" by (cases vs) auto
  then show ?case by (simp add: 12(1) [OF refl, of i1] 12(2) [OF refl, of v1] 12(3) [OF refl] orelse_minus)
qed simp



end
