(* ===== verification/ExprSound.thy ===== *)
theory ExprSound
  imports Expr
begin

text \<open>
  The meaning of expressions and the proof that the canonicalising constructors of
  \<open>lib/Expr/Expr.cpp\<close> keep it. An expression denotes, under an assignment of bytes to the
  cells of the symbolic arrays, a bit vector, given as an integer below two to its width. Shifts by
  the width or more give zero or the sign, as \<open>llvm::APInt\<close> does.

  The locale \<open>apint_lib\<close> lists what the code relies on of \<open>llvm::APInt\<close>; \<open>llvm_env\<close> is an
  executable two's complement arithmetic that satisfies it.
\<close>

section \<open>Semantics\<close>

definition sval :: "nat \<Rightarrow> int \<Rightarrow> int" where
  "sval w a = signed_take_bit (w - 1) a"

fun bin_raw :: "nat \<Rightarrow> binop \<Rightarrow> int \<Rightarrow> int \<Rightarrow> int" where
  "bin_raw w Add a b = a + b"
| "bin_raw w Sub a b = a - b"
| "bin_raw w Mul a b = a * b"
| "bin_raw w UDiv a b = a div b"
| "bin_raw w SDiv a b = sval w a sdiv sval w b"
| "bin_raw w URem a b = a mod b"
| "bin_raw w SRem a b = sval w a smod sval w b"
| "bin_raw w And a b = a AND b"
| "bin_raw w Or a b = a OR b"
| "bin_raw w Xor a b = a XOR b"
| "bin_raw w Shl a b = (if b < int w then push_bit (nat b) a else 0)"
| "bin_raw w LShr a b = (if b < int w then drop_bit (nat b) a else 0)"
| "bin_raw w AShr a b = drop_bit (min (nat b) w) (sval w a)"

definition bin_sem :: "nat \<Rightarrow> binop \<Rightarrow> int \<Rightarrow> int \<Rightarrow> int" where
  "bin_sem w k a b = take_bit w (bin_raw w k a b)"

fun cmp_sem :: "nat \<Rightarrow> cmpop \<Rightarrow> int \<Rightarrow> int \<Rightarrow> bool" where
  "cmp_sem w Eq a b = (a = b)"
| "cmp_sem w Ne a b = (a \<noteq> b)"
| "cmp_sem w Ult a b = (a < b)"
| "cmp_sem w Ule a b = (a \<le> b)"
| "cmp_sem w Ugt a b = (a > b)"
| "cmp_sem w Uge a b = (a \<ge> b)"
| "cmp_sem w Slt a b = (sval w a < sval w b)"
| "cmp_sem w Sle a b = (sval w a \<le> sval w b)"
| "cmp_sem w Sgt a b = (sval w a > sval w b)"
| "cmp_sem w Sge a b = (sval w a \<ge> sval w b)"

fun ext_sem :: "castop \<Rightarrow> nat \<Rightarrow> nat \<Rightarrow> int \<Rightarrow> int" where
  "ext_sem ZExt v w a = take_bit w a"
| "ext_sem SExt v w a = take_bit w (sval v a)"

type_synonym assignment = "array \<Rightarrow> nat \<Rightarrow> int"

definition array_val :: "assignment \<Rightarrow> array \<Rightarrow> int \<Rightarrow> int" where
  "array_val \<rho> root i =
     (if nat i < length (constantValues root) then apv (constantValues root ! nat i)
      else take_bit 8 (\<rho> root (nat i)))"

text \<open>The value of an expression, and of a read of an update list at the index \<open>k\<close>.\<close>

function (sequential) eval :: "assignment \<Rightarrow> expr \<Rightarrow> int"
  and read_nodes :: "assignment \<Rightarrow> array \<Rightarrow> (expr \<times> expr) list \<Rightarrow> int \<Rightarrow> int" where
  "eval \<rho> (ConstantExpr c) = apv c"
| "eval \<rho> (NotOptimizedExpr e) = eval \<rho> e"
| "eval \<rho> (ReadExpr root us i) = read_nodes \<rho> root us (eval \<rho> i)"
| "eval \<rho> (SelectExpr c t f) = (if eval \<rho> c = 1 then eval \<rho> t else eval \<rho> f)"
| "eval \<rho> (ConcatExpr l r) = push_bit (getWidth r) (eval \<rho> l) OR eval \<rho> r"
| "eval \<rho> (ExtractExpr e off w) = take_bit w (drop_bit off (eval \<rho> e))"
| "eval \<rho> (NotExpr e) = take_bit (getWidth e) (NOT (eval \<rho> e))"
| "eval \<rho> (CastExpr k e w) = ext_sem k (getWidth e) w (eval \<rho> e)"
| "eval \<rho> (BinaryExpr k l r) = bin_sem (getWidth l) k (eval \<rho> l) (eval \<rho> r)"
| "eval \<rho> (CmpExpr k l r) = of_bool (cmp_sem (getWidth l) k (eval \<rho> l) (eval \<rho> r))"
| "read_nodes \<rho> root [] k = array_val \<rho> root k"
| "read_nodes \<rho> root ((i, v) # us) k = (if eval \<rho> i = k then eval \<rho> v else read_nodes \<rho> root us k)"
  by pat_completeness auto
termination
  by (relation "measure (\<lambda>x. case x of
        Inl (\<rho>, e) \<Rightarrow> size (e :: expr)
      | Inr (\<rho>, root, us, k) \<Rightarrow> size_list (size_prod size size) us)") auto

definition valid :: "apint \<Rightarrow> bool" where
  "valid c \<longleftrightarrow> 0 < apw c \<and> take_bit (apw c) (apv c) = apv c"

definition array_ok :: "array \<Rightarrow> bool" where
  "array_ok root \<longleftrightarrow> (\<forall>c \<in> set (constantValues root). valid c \<and> apw c = 8)"

text \<open>Well-typed expressions: the widths the constructors of the classes assert.\<close>

function (sequential) wt :: "expr \<Rightarrow> bool"
  and wt_nodes :: "(expr \<times> expr) list \<Rightarrow> bool" where
  "wt (ConstantExpr c) \<longleftrightarrow> valid c"
| "wt (NotOptimizedExpr e) \<longleftrightarrow> wt e"
| "wt (ReadExpr root us i) \<longleftrightarrow> array_ok root \<and> wt_nodes us \<and> wt i \<and> getWidth i = 32"
| "wt (SelectExpr c t f) \<longleftrightarrow> wt c \<and> wt t \<and> wt f \<and> getWidth c = 1 \<and> getWidth t = getWidth f"
| "wt (ConcatExpr l r) \<longleftrightarrow> wt l \<and> wt r"
| "wt (ExtractExpr e off w) \<longleftrightarrow> wt e \<and> 0 < w \<and> off + w \<le> getWidth e"
| "wt (NotExpr e) \<longleftrightarrow> wt e"
| "wt (CastExpr k e w) \<longleftrightarrow> wt e \<and> getWidth e < w"
| "wt (BinaryExpr k l r) \<longleftrightarrow> wt l \<and> wt r \<and> getWidth l = getWidth r"
| "wt (CmpExpr k l r) \<longleftrightarrow> wt l \<and> wt r \<and> getWidth l = getWidth r"
| "wt_nodes [] \<longleftrightarrow> True"
| "wt_nodes ((i, v) # us) \<longleftrightarrow> wt i \<and> getWidth i = 32 \<and> wt v \<and> getWidth v = 8 \<and> wt_nodes us"
  by pat_completeness auto
termination
  by (relation "measure (\<lambda>x. case x of
        Inl e \<Rightarrow> size (e :: expr)
      | Inr us \<Rightarrow> size_list (size_prod size size) us)") auto

lemma wt_width: "wt e \<Longrightarrow> 0 < getWidth e"
  by (induction e) (auto simp: valid_def)

lemma take_bit_array_val [simp]: "array_ok root \<Longrightarrow> take_bit 8 (array_val \<rho> root k) = array_val \<rho> root k"
  by (auto simp: array_val_def array_ok_def valid_def dest!: nth_mem)

lemma take_bit_1_of_bool [simp]: "take_bit w (of_bool b :: int) = (if w = 0 then 0 else of_bool b)"
  by (cases w) (simp_all add: take_bit_Suc)

lemma take_bit_ext_sem [simp]: "take_bit w (ext_sem k v w a) = ext_sem k v w a"
  by (cases k) simp_all

lemma eval_range:
  "wt e \<Longrightarrow> take_bit (getWidth e) (eval \<rho> e) = eval \<rho> e"
  "wt_nodes us \<Longrightarrow> array_ok root \<Longrightarrow> take_bit 8 (read_nodes \<rho> root us k) = read_nodes \<rho> root us k"
proof (induction \<rho> e and \<rho> root us k rule: eval_read_nodes.induct)
  case (5 \<rho> l r)
  then have l: "take_bit (getWidth l) (eval \<rho> l) = eval \<rho> l" and r: "take_bit (getWidth r) (eval \<rho> r) = eval \<rho> r"
    by auto
  have "take_bit (getWidth l + getWidth r) (push_bit (getWidth r) (eval \<rho> l)) = push_bit (getWidth r) (eval \<rho> l)"
    using l by (simp add: take_bit_push_bit)
  moreover have "take_bit (getWidth l + getWidth r) (eval \<rho> r) = eval \<rho> r"
    by (subst (2) r [symmetric], subst r [symmetric]) (simp add: take_bit_take_bit min_def)
  ultimately show ?case by (simp add: take_bit_or)
qed (auto simp: valid_def bin_sem_def min_def simp del: of_bool_eq_iff)

lemma eval_bounds:
  assumes "wt e"
  shows "0 \<le> eval \<rho> e" "eval \<rho> e < 2 ^ getWidth e"
  using take_bit_nonnegative [of "getWidth e" "eval \<rho> e"] take_bit_int_less_exp [of "getWidth e" "eval \<rho> e"]
  by (simp_all add: eval_range(1) [OF assms])

lemma eval_bool: "wt e \<Longrightarrow> getWidth e = 1 \<Longrightarrow> eval \<rho> e = 0 \<or> eval \<rho> e = 1"
  using eval_bounds [of e \<rho>] by auto

section \<open>What the code relies on of llvm::APInt\<close>

definition is_div :: "binop \<Rightarrow> bool" where
  "is_div k \<longleftrightarrow> k \<in> {UDiv, SDiv, URem, SRem}"

locale apint_lib =
  fixes X :: expr_env
  assumes ap_make: "0 < w \<Longrightarrow> ap_make X w v = APInt w (take_bit w (uint v))"
    and ap_bin: "valid c \<Longrightarrow> valid d \<Longrightarrow> apw c = apw d \<Longrightarrow> \<not> (is_div k \<and> apv d = 0) \<Longrightarrow>
      ap_bin X k c d = Some (APInt (apw c) (bin_sem (apw c) k (apv c) (apv d)))"
    and ap_cmp: "valid c \<Longrightarrow> valid d \<Longrightarrow> apw c = apw d \<Longrightarrow>
      ap_cmp X kc c d = Some (cmp_sem (apw c) kc (apv c) (apv d))"
    and ap_not: "valid c \<Longrightarrow> ap_not X c = APInt (apw c) (take_bit (apw c) (NOT (apv c)))"
    and ap_neg: "valid c \<Longrightarrow> ap_neg X c = APInt (apw c) (take_bit (apw c) (- apv c))"
    and ap_shl_by: "valid c \<Longrightarrow> n \<le> apw c \<Longrightarrow>
      ap_shl_by X c n = APInt (apw c) (take_bit (apw c) (push_bit n (apv c)))"
    and ap_ashr_by: "valid c \<Longrightarrow> n \<le> apw c \<Longrightarrow>
      ap_ashr_by X c n = APInt (apw c) (take_bit (apw c) (drop_bit n (sval (apw c) (apv c))))"
    and ap_zext: "valid c \<Longrightarrow> apw c < w \<Longrightarrow> ap_zext X c w = APInt w (apv c)"
    and ap_zextOrTrunc: "valid c \<Longrightarrow> 0 < w \<Longrightarrow> ap_zextOrTrunc X c w = APInt w (take_bit w (apv c))"
    and ap_sextOrTrunc: "valid c \<Longrightarrow> 0 < w \<Longrightarrow>
      ap_sextOrTrunc X c w = APInt w (take_bit w (sval (apw c) (apv c)))"
    and ap_getZExtValue: "valid c \<Longrightarrow> apw c \<le> 64 \<Longrightarrow> ap_getZExtValue X c = Some (word_of_int (apv c))"

text \<open>An executable instance: two's complement arithmetic on the integers.\<close>

definition llvm_env :: expr_env where
  "llvm_env =
     \<lparr>ap_make = (\<lambda>w v. APInt w (take_bit w (uint v))),
      ap_bin = (\<lambda>k c d. if is_div k \<and> apv d = 0 then None
                         else Some (APInt (apw c) (bin_sem (apw c) k (apv c) (apv d)))),
      ap_cmp = (\<lambda>k c d. Some (cmp_sem (apw c) k (apv c) (apv d))),
      ap_not = (\<lambda>c. APInt (apw c) (take_bit (apw c) (NOT (apv c)))),
      ap_neg = (\<lambda>c. APInt (apw c) (take_bit (apw c) (- apv c))),
      ap_shl_by = (\<lambda>c n. APInt (apw c) (take_bit (apw c) (push_bit n (apv c)))),
      ap_ashr_by = (\<lambda>c n. APInt (apw c) (take_bit (apw c) (drop_bit n (sval (apw c) (apv c))))),
      ap_zext = (\<lambda>c w. APInt w (apv c)),
      ap_zextOrTrunc = (\<lambda>c w. APInt w (take_bit w (apv c))),
      ap_sextOrTrunc = (\<lambda>c w. APInt w (take_bit w (sval (apw c) (apv c)))),
      ap_getZExtValue = (\<lambda>c. Some (word_of_int (apv c))),
      ap_getHashValue = (\<lambda>c. word_of_int (apv c)),
      uninit_hash = (\<lambda>e. 0),
      ConstArrayOpt = False\<rparr>"

interpretation llvm: apint_lib llvm_env
  by unfold_locales (simp_all add: llvm_env_def)

section \<open>Constants\<close>

text \<open>\<open>creates m w f\<close>: the construction \<open>m\<close> succeeds, with an expression of width \<open>w\<close> that denotes \<open>f\<close>.\<close>

definition creates :: "expr option \<Rightarrow> nat \<Rightarrow> (assignment \<Rightarrow> int) \<Rightarrow> bool" where
  "creates m w f \<longleftrightarrow> (\<exists>e. m = Some e \<and> wt e \<and> getWidth e = w \<and> (\<forall>\<rho>. eval \<rho> e = f \<rho>))"

lemma createsI: "wt e \<Longrightarrow> getWidth e = w \<Longrightarrow> (\<And>\<rho>. eval \<rho> e = f \<rho>) \<Longrightarrow> creates (Some e) w f"
  by (simp add: creates_def)

lemma createsE:
  assumes "creates m w f"
  obtains e where "m = Some e" "wt e" "getWidth e = w" "\<And>\<rho>. eval \<rho> e = f \<rho>"
  using assms by (auto simp: creates_def)

lemma creates_bind:
  assumes "creates m w f"
    and "\<And>e. wt e \<Longrightarrow> getWidth e = w \<Longrightarrow> (\<And>\<rho>. eval \<rho> e = f \<rho>) \<Longrightarrow> creates (g e) w' f'"
  shows "creates (Option.bind m g) w' f'"
  using assms(1) by (rule createsE) (simp add: assms(2))

lemma creates_cong: "creates m w f \<Longrightarrow> (\<And>\<rho>. f \<rho> = g \<rho>) \<Longrightarrow> creates m w g"
  by (simp add: creates_def)

lemma valid_range: "valid c \<Longrightarrow> 0 \<le> apv c \<and> apv c < 2 ^ apw c"
  by (metis take_bit_int_less_exp take_bit_nonnegative valid_def)

lemma valid_APInt [simp]: "0 < w \<Longrightarrow> valid (APInt w (take_bit w v))"
  by (simp add: valid_def)

lemma valid_bin_sem [simp]: "0 < w \<Longrightarrow> valid (APInt w (bin_sem w k a b))"
  by (simp add: bin_sem_def)

lemma word64_eq:
  assumes "valid c" "apw c \<le> 64" "0 \<le> v" "v < 2 ^ 64"
  shows "(word_of_int (apv c) :: uint64_t) = word_of_int v \<longleftrightarrow> apv c = v"
proof -
  have "apv c < 2 ^ 64"
    using valid_range [OF assms(1)] assms(2) power_increasing [of "apw c" 64 "2 :: int"] by simp
  then show ?thesis
    using assms(3,4) valid_range [OF assms(1)] by (simp add: word_of_int_eq_iff take_bit_int_eq_self)
qed

context apint_lib
begin

lemma getZExtValue_valid:
  "valid c \<Longrightarrow> apw c \<le> n \<Longrightarrow> n \<le> 64 \<Longrightarrow> getZExtValue X n c = Some (word_of_int (apv c))"
  by (simp add: getZExtValue_def ap_getZExtValue)

lemma isZero_valid: "valid c \<Longrightarrow> apw c \<le> 64 \<Longrightarrow> isZero X c = Some (apv c = 0)"
  using word64_eq [of c 0] by (simp add: isZero_def getZExtValue_valid)

lemma isOne_valid: "valid c \<Longrightarrow> apw c \<le> 64 \<Longrightarrow> isOne X c = Some (apv c = 1)"
  using word64_eq [of c 1] by (simp add: isOne_def getZExtValue_valid)

lemma isTrue_valid: "valid c \<Longrightarrow> apw c = 1 \<Longrightarrow> isTrue X c = Some (apv c = 1)"
  using word64_eq [of c 1] by (simp add: isTrue_def getZExtValue_valid)

lemma isFalse_valid: "valid c \<Longrightarrow> apw c = 1 \<Longrightarrow> isFalse X c = Some (apv c = 0)"
  using word64_eq [of c 0] by (simp add: isFalse_def getZExtValue_valid)

lemma isAllOnes_valid: "valid c \<Longrightarrow> apw c \<le> 64 \<Longrightarrow> isAllOnes X c = Some (apv c = mask (apw c))"
proof -
  assume c: "valid c" "apw c \<le> 64"
  have "(mask (apw c) :: int) < 2 ^ 64"
    using c(2) power_increasing [of "apw c" 64 "2 :: int"] by (simp add: mask_eq_exp_minus_1)
  moreover have "(mask (apw c) :: uint64_t) = word_of_int (mask (apw c))" by (rule bit_word_eqI) (simp add: bit_simps)
  ultimately show ?thesis
    using c word64_eq [of c "mask (apw c)"]
    by (simp add: isAllOnes_def getZExtValue_valid)
qed

lemma Constant_alloc_valid [simp]:
  assumes "0 < w"
  shows "valid (Constant_alloc X v w)" "apw (Constant_alloc X v w) = w"
    "apv (Constant_alloc X v w) = take_bit w (uint v)"
  using assms by (simp_all add: Constant_alloc_def ap_make)

lemma Constant_create_valid:
  "0 < w \<Longrightarrow> w \<le> 64 \<Longrightarrow> take_bit w v = v \<Longrightarrow> Constant_create X v w = Some (Constant_alloc X v w)"
  by (simp add: Constant_create_def)

lemma Constant_bin_creates:
  "valid c \<Longrightarrow> valid d \<Longrightarrow> apw c = apw d \<Longrightarrow> \<not> (is_div k \<and> apv d = 0) \<Longrightarrow>
   creates (map_option ConstantExpr (Constant_bin X k c d)) (apw c) (\<lambda>\<rho>. bin_sem (apw c) k (apv c) (apv d))"
  by (simp add: Constant_bin_def ap_bin creates_def valid_def bin_sem_def)

lemma Constant_cmp_creates:
  "valid c \<Longrightarrow> valid d \<Longrightarrow> apw c = apw d \<Longrightarrow>
   creates (map_option ConstantExpr (Constant_cmp X k c d)) 1 (\<lambda>\<rho>. of_bool (cmp_sem (apw c) k (apv c) (apv d)))"
  by (simp add: Constant_cmp_def ap_cmp creates_def)

end

section \<open>Conjunction, disjunction and equality\<close>

lemma or_mask_absorb: "take_bit w a = a \<Longrightarrow> a OR mask w = (mask w :: int)"
  by (metis bit_or_iff bit_mask_iff bit_take_bit_iff bit_eqI)

lemma bin_sem_ident:
  "take_bit w a = a \<Longrightarrow> bin_sem w And a (mask w) = a"
  "bin_sem w And a 0 = 0"
  "take_bit w a = a \<Longrightarrow> bin_sem w Or a (mask w) = mask w"
  "take_bit w a = a \<Longrightarrow> bin_sem w Or a 0 = a"
  "take_bit w a = a \<Longrightarrow> bin_sem w Xor a 0 = a"
  by (simp_all add: bin_sem_def take_bit_eq_mask [symmetric] or_mask_absorb)

lemma bin_sem_commute:
  "bin_sem w And a b = bin_sem w And b a" "bin_sem w Or a b = bin_sem w Or b a"
  "bin_sem w Xor a b = bin_sem w Xor b a" "bin_sem w Add a b = bin_sem w Add b a"
  "bin_sem w Mul a b = bin_sem w Mul b a"
  by (simp_all add: bin_sem_def ac_simps)

lemma creates_Some_iff:
  "creates (Some e) w f \<longleftrightarrow> wt e \<and> getWidth e = w \<and> (\<forall>\<rho>. eval \<rho> e = f \<rho>)"
  by (simp add: creates_def)

lemma eval_take_bit [simp]: "wt e \<Longrightarrow> getWidth e = w \<Longrightarrow> take_bit w (eval \<rho> e) = eval \<rho> e"
  using eval_range(1) by blast

context apint_lib
begin

lemma And_partial:
  "wt l \<Longrightarrow> getWidth l = w \<Longrightarrow> valid c \<Longrightarrow> apw c = w \<Longrightarrow> w \<le> 64 \<Longrightarrow>
   creates (AndExpr_createPartial X l c) w (\<lambda>\<rho>. bin_sem w And (eval \<rho> l) (apv c))"
  by (simp add: creates_Some_iff AndExpr_createPartial_def isAllOnes_valid isZero_valid bin_sem_ident)

lemma Or_partial:
  "wt l \<Longrightarrow> getWidth l = w \<Longrightarrow> valid c \<Longrightarrow> apw c = w \<Longrightarrow> w \<le> 64 \<Longrightarrow>
   creates (OrExpr_createPartial X l c) w (\<lambda>\<rho>. bin_sem w Or (eval \<rho> l) (apv c))"
  by (simp add: creates_Some_iff OrExpr_createPartial_def isAllOnes_valid isZero_valid bin_sem_ident)

text \<open>The shape \<open>BCREATE_R\<close> shares: what it needs of its helpers.\<close>

lemma bcreate_R_creates:
  assumes "wt l" "wt r" "getWidth l = w" "getWidth r = w" "\<not> is_div k"
    and "\<And>c. valid c \<Longrightarrow> apw c = w \<Longrightarrow> creates (partialL l c) w (\<lambda>\<rho>. bin_sem w k (eval \<rho> l) (apv c))"
    and "\<And>c. valid c \<Longrightarrow> apw c = w \<Longrightarrow> creates (partialR c r) w (\<lambda>\<rho>. bin_sem w k (apv c) (eval \<rho> r))"
    and "creates (full l r) w (\<lambda>\<rho>. bin_sem w k (eval \<rho> l) (eval \<rho> r))"
  shows "creates (bcreate_R X k partialL partialR full l r) w (\<lambda>\<rho>. bin_sem w k (eval \<rho> l) (eval \<rho> r))"
proof -
  consider (cc) c d where "l = ConstantExpr c" "r = ConstantExpr d"
    | (cr) c where "l = ConstantExpr c" "\<nexists>d. r = ConstantExpr d"
    | (rc) d where "r = ConstantExpr d" "\<nexists>c. l = ConstantExpr c"
    | (rr) "\<nexists>c. l = ConstantExpr c" "\<nexists>c. r = ConstantExpr c" by blast
  then show ?thesis
  proof cases
    case cc
    with assms(1-5) Constant_bin_creates [of c d k] show ?thesis by (simp add: bcreate_R_def)
  next
    case cr
    with assms(1,3,4) assms(7) [of c] show ?thesis by (cases r) (simp_all add: bcreate_R_def)
  next
    case rc
    with assms(2,3,4) assms(6) [of d] show ?thesis by (cases l) (simp_all add: bcreate_R_def)
  next
    case rr
    with assms(3,4,8) show ?thesis by (cases l; cases r) (simp_all add: bcreate_R_def)
  qed
qed

lemma And_create_creates:
  "wt l \<Longrightarrow> wt r \<Longrightarrow> getWidth l = w \<Longrightarrow> getWidth r = w \<Longrightarrow> w \<le> 64 \<Longrightarrow>
   creates (And_create X l r) w (\<lambda>\<rho>. bin_sem w And (eval \<rho> l) (eval \<rho> r))"
  unfolding And_create_def
  by (rule bcreate_R_creates)
    (simp_all add: creates_Some_iff And_partial is_div_def AndExpr_create_def AndExpr_createPartialR_def bin_sem_commute(1) [of _ "apv _"])

lemma Or_create_creates:
  "wt l \<Longrightarrow> wt r \<Longrightarrow> getWidth l = w \<Longrightarrow> getWidth r = w \<Longrightarrow> w \<le> 64 \<Longrightarrow>
   creates (Or_create X l r) w (\<lambda>\<rho>. bin_sem w Or (eval \<rho> l) (eval \<rho> r))"
  unfolding Or_create_def
  by (rule bcreate_R_creates)
    (simp_all add: creates_Some_iff Or_partial is_div_def OrExpr_create_def OrExpr_createPartialR_def bin_sem_commute(2) [of _ "apv _"])

lemma EqExpr_create_creates:
  "wt l \<Longrightarrow> wt r \<Longrightarrow> getWidth l = getWidth r \<Longrightarrow>
   creates (Some (EqExpr_create X l r)) 1 (\<lambda>\<rho>. of_bool (eval \<rho> l = eval \<rho> r))"
  by (simp add: creates_Some_iff EqExpr_create_def)

end

lemma take_bit_ext:
  assumes "v < w" "0 < v" "take_bit v x = x"
  shows "take_bit v (ext_sem k v w x) = x"
proof (cases k)
  case SExt
  have "take_bit v (signed_take_bit (v - 1) x) = take_bit v x"
    using assms(2) by (intro bit_eqI) (auto simp: bit_signed_take_bit_iff bit_take_bit_iff min_def dest: le_antisym)
  with SExt assms show ?thesis by (simp add: sval_def min_def)
qed (use assms in \<open>simp add: min_def\<close>)

lemma bin_sem_Add_eq:
  assumes "take_bit w c = c" "take_bit w x = x"
  shows "c = bin_sem w Add a x \<longleftrightarrow> bin_sem w Sub c a = x"
  using assms unfolding bin_sem_def bin_raw.simps take_bit_eq_mod
  by (metis add.commute add_diff_cancel_left' diff_add_cancel mod_add_left_eq mod_diff_left_eq)

lemma bin_sem_Sub_eq:
  assumes "take_bit w c = c" "take_bit w x = x"
  shows "c = bin_sem w Sub a x \<longleftrightarrow> bin_sem w Sub a c = x"
  using assms unfolding bin_sem_def bin_raw.simps take_bit_eq_mod
  by (metis diff_diff_eq2 add_diff_cancel_left' mod_diff_right_eq)

lemma valid_take_bit: "valid c \<Longrightarrow> apw c = w \<Longrightarrow> take_bit w (apv c) = apv c"
  by (auto simp: valid_def)

lemma valid_eq_iff: "valid c \<Longrightarrow> apw c = w \<Longrightarrow> c = APInt w v \<longleftrightarrow> apv c = v"
  by (cases c) auto

context apint_lib
begin

lemma Eq_const_step:
  assumes "wt l" "getWidth l = w" "valid c" "apw c = w"
    and "creates (partialL c) 1 (\<lambda>\<rho>. of_bool (apv c = eval \<rho> l))"
  shows "creates (Eq_create_const X l partialL c) 1 (\<lambda>\<rho>. of_bool (apv c = eval \<rho> l))"
proof (cases l)
  case (ConstantExpr d)
  with assms Constant_cmp_creates [of d c Eq] show ?thesis
    by (simp add: Eq_create_const_def eq_commute [of "apv c"])
qed (use assms in \<open>simp_all add: Eq_create_const_def\<close>)

lemma Constant_0_creates: "creates (map_option ConstantExpr (Constant_create X 0 1)) 1 (\<lambda>\<rho>. 0)"
  by (simp add: Constant_create_valid creates_Some_iff)

lemma Eq_partial_cast:
  assumes "wt src" "getWidth src = v" "v < w" "valid c" "apw c = w"
    and "\<And>d. valid d \<Longrightarrow> apw d = v \<Longrightarrow> creates (p d) 1 (\<lambda>\<rho>. of_bool (apv d = eval \<rho> src))"
  shows "creates (let trunc = Constant_ZExt X c v in
       if c = (case k of SExt \<Rightarrow> Constant_SExt X trunc w | ZExt \<Rightarrow> Constant_ZExt X trunc w)
       then Eq_create_const X src p trunc
       else map_option ConstantExpr (Constant_create X 0 1)) 1 (\<lambda>\<rho>. of_bool (apv c = ext_sem k v w (eval \<rho> src)))"
proof -
  define t where "t = take_bit v (apv c)"
  have v: "0 < v" using assms(1,2) wt_width by blast
  have tr: "Constant_ZExt X c v = APInt v t" "valid (APInt v t)"
    using assms(4) v by (simp_all add: Constant_ZExt_def ap_zextOrTrunc t_def)
  have ext: "(case k of SExt \<Rightarrow> Constant_SExt X (APInt v t) w | ZExt \<Rightarrow> Constant_ZExt X (APInt v t) w) = APInt w (ext_sem k v w t)"
    using tr(2) v assms(3) by (cases k) (simp_all add: Constant_SExt_def Constant_ZExt_def ap_sextOrTrunc ap_zextOrTrunc)
  have x: "take_bit v (ext_sem k v w (eval \<rho> src)) = eval \<rho> src" for \<rho>
    using take_bit_ext [OF assms(3) v] assms(1,2) by simp
  have iff: "apv c = ext_sem k v w (eval \<rho> src) \<longleftrightarrow> apv c = ext_sem k v w t \<and> t = eval \<rho> src" for \<rho>
    using x [of \<rho>] by (auto simp: t_def)
  show ?thesis
  proof (cases "apv c = ext_sem k v w t")
    case True
    have "creates (Eq_create_const X src p (APInt v t)) 1 (\<lambda>\<rho>. of_bool (t = eval \<rho> src))"
      using Eq_const_step [of src v "APInt v t" p] assms(1,2) assms(6) [of "APInt v t"] tr(2) by simp
    with True assms(4,5) iff show ?thesis by (simp add: tr ext valid_eq_iff)
  next
    case False
    with assms(4,5) iff Constant_0_creates show ?thesis by (simp add: tr ext valid_eq_iff)
  qed
qed

lemma Eq_rest:
  "valid c \<Longrightarrow> apw c = w \<Longrightarrow> wt r \<Longrightarrow> getWidth r = w \<Longrightarrow>
   creates (Some (EqExpr_create X (ConstantExpr c) r)) 1 (\<lambda>\<rho>. of_bool (apv c = eval \<rho> r))"
  using EqExpr_create_creates [of "ConstantExpr c" r] by simp

lemma Eq_one:
  "valid c \<Longrightarrow> apw c = 1 \<Longrightarrow> apv c = 1 \<Longrightarrow> wt r \<Longrightarrow> getWidth r = 1 \<Longrightarrow>
   creates (Some r) 1 (\<lambda>\<rho>. of_bool (apv c = eval \<rho> r))"
  using eval_bool [of r] by (fastforce simp: creates_Some_iff)

lemma bool_zero: "valid c \<Longrightarrow> apw c = 1 \<Longrightarrow> apv c \<noteq> 1 \<Longrightarrow> apv c = 0"
  using valid_range [of c] by simp

lemma Eq_partial_not_eq:
  assumes "wt (CmpExpr Eq (ConstantExpr ce) r)" "apw ce = 1" "apv ce = 0"
  shows "creates (Some r) 1 (\<lambda>\<rho>. of_bool (0 = eval \<rho> (CmpExpr Eq (ConstantExpr ce) r)))"
  using assms eval_bool [of r] by (fastforce simp: creates_Some_iff)

lemma Eq_partial_Cmp:
  assumes "wt (CmpExpr k l r)" "valid c" "apw c = 1"
  shows "creates (EqExpr_createPartialR X (CmpExpr k l r) c) 1 (\<lambda>\<rho>. of_bool (apv c = eval \<rho> (CmpExpr k l r)))"
proof (cases "apv c = 1")
  case True
  with assms Eq_one [of c "CmpExpr k l r"] show ?thesis
    by (simp add: EqExpr_createPartialR.simps isTrue_valid Let_def)
next
  case False
  then have z: "apv c = 0" using assms(2,3) by (rule_tac bool_zero)
  have rest: "creates (Some (EqExpr_create X (ConstantExpr c) (CmpExpr k l r))) 1
      (\<lambda>\<rho>. of_bool (apv c = eval \<rho> (CmpExpr k l r)))"
    using assms by (intro Eq_rest [where w = 1]) simp_all
  show ?thesis
  proof (cases "\<exists>ce. k = Eq \<and> l = ConstantExpr ce \<and> apw ce = 1 \<and> apv ce = 0")
    case True
    then obtain ce where "k = Eq" "l = ConstantExpr ce" "apw ce = 1" "apv ce = 0" by blast
    with assms z False Eq_partial_not_eq [of ce r] show ?thesis
      by (simp add: EqExpr_createPartialR.simps isTrue_valid isFalse_valid Let_def)
  next
    case no: False
    have "EqExpr_createPartialR X (CmpExpr k l r) c = Some (EqExpr_create X (ConstantExpr c) (CmpExpr k l r))"
      using no assms False
      by (cases l) (simp_all add: EqExpr_createPartialR.simps isTrue_valid isFalse_valid Let_def)
    with rest show ?thesis by simp
  qed
qed

lemma Eq_partial_Or:
  assumes "wt l" "wt r" "getWidth l = 1" "getWidth r = 1" "valid c" "apw c = 1" "apv c = 0"
    and "\<And>d. valid d \<Longrightarrow> apw d = 1 \<Longrightarrow> creates (pl d) 1 (\<lambda>\<rho>. of_bool (apv d = eval \<rho> l))"
    and "\<And>d. valid d \<Longrightarrow> apw d = 1 \<Longrightarrow> creates (pr d) 1 (\<lambda>\<rho>. of_bool (apv d = eval \<rho> r))"
  shows "creates (Option.bind (Eq_create_const X l pl (Constant_alloc X 0 (getWidth l)))
      (\<lambda>a. Option.bind (Eq_create_const X r pr (Constant_alloc X 0 (getWidth r))) (\<lambda>b. And_create X a b)))
     1 (\<lambda>\<rho>. of_bool (apv c = eval \<rho> (BinaryExpr Or l r)))"
proof (rule creates_bind [OF Eq_const_step [OF assms(1,3) _ _ assms(8)]], goal_cases)
  case (5 a)
  show ?case
  proof (rule creates_bind [OF Eq_const_step [OF assms(2,4) _ _ assms(9)]], goal_cases)
    case (5 b)
    with \<open>wt a\<close> \<open>getWidth a = 1\<close>
    have "creates (And_create X a b) 1 (\<lambda>\<rho>. bin_sem 1 And (eval \<rho> a) (eval \<rho> b))"
      by (intro And_create_creates) simp_all
    then show ?case
    proof (rule creates_cong)
      fix \<rho>
      show "bin_sem 1 And (eval \<rho> a) (eval \<rho> b) = of_bool (apv c = eval \<rho> (BinaryExpr Or l r))"
        using eval_bool [OF assms(1,3), of \<rho>] eval_bool [OF assms(2,4), of \<rho>]
        by (auto simp: 5(3) \<open>\<And>\<rho>. eval \<rho> a = _\<close> assms bin_sem_def)
    qed
  qed (use assms in simp_all)
qed (use assms in simp_all)

lemma Eq_partial_simple:
  assumes "\<not> ConstArrayOpt X" "wt r" "getWidth r = w" "valid c" "apw c = w"
    and "case r of CastExpr _ _ _ \<Rightarrow> False | BinaryExpr _ _ _ \<Rightarrow> False | CmpExpr _ _ _ \<Rightarrow> False | _ \<Rightarrow> True"
  shows "creates (EqExpr_createPartialR X r c) 1 (\<lambda>\<rho>. of_bool (apv c = eval \<rho> r))"
proof -
  have "EqExpr_createPartialR X r c =
      (if apw c = 1 \<and> apv c = 1 then Some r else Some (EqExpr_create X (ConstantExpr c) r))"
    using assms by (cases r) (simp_all add: EqExpr_createPartialR.simps isTrue_valid Let_def)
  with assms Eq_rest [of c w r] Eq_one [of c r] show ?thesis by simp
qed

lemma Eq_partial:
  "\<not> ConstArrayOpt X \<Longrightarrow> wt r \<Longrightarrow> getWidth r = w \<Longrightarrow> valid c \<Longrightarrow> apw c = w \<Longrightarrow> w \<le> 64 \<Longrightarrow>
   creates (EqExpr_createPartialR X r c) 1 (\<lambda>\<rho>. of_bool (apv c = eval \<rho> r))"
proof (induction r arbitrary: c w)
  case (CastExpr k src w')
  then have "w \<noteq> 1" using wt_width [of src] by auto
  then have "EqExpr_createPartialR X (CastExpr k src w') c =
      (let trunc = Constant_ZExt X c (getWidth src) in
       if c = (case k of SExt \<Rightarrow> Constant_SExt X trunc w | ZExt \<Rightarrow> Constant_ZExt X trunc w)
       then Eq_create_const X src (EqExpr_createPartialR X src) trunc
       else map_option ConstantExpr (Constant_create X 0 1))"
    using CastExpr.prems(5) by (subst EqExpr_createPartialR.simps) (simp add: Let_def)
  with CastExpr Eq_partial_cast [of src "getWidth src" w c "EqExpr_createPartialR X src" k]
  show ?case by simp
next
  case (BinaryExpr k l r)
  have rest: "creates (Some (EqExpr_create X (ConstantExpr c) (BinaryExpr k l r))) 1
      (\<lambda>\<rho>. of_bool (apv c = eval \<rho> (BinaryExpr k l r)))"
    using BinaryExpr by (intro Eq_rest [where w = w]) simp_all
  show ?case
  proof (cases "w = 1")
    case True
    show ?thesis
    proof (cases "apv c = 1")
      case 1: True
      with BinaryExpr True Eq_one [of c "BinaryExpr k l r"] show ?thesis
        by (simp add: EqExpr_createPartialR.simps isTrue_valid Let_def)
    next
      case False
      then have "apv c = 0" using BinaryExpr True by (rule_tac bool_zero) simp_all
      with BinaryExpr True rest Eq_partial_Or [of l r c "EqExpr_createPartialR X l" "EqExpr_createPartialR X r"]
      show ?thesis
        by (simp add: EqExpr_createPartialR.simps [of X "BinaryExpr k l r"] isTrue_valid Let_def)
    qed
  next
    case False
    show ?thesis
    proof (cases "\<exists>c1. l = ConstantExpr c1 \<and> (k = Add \<or> k = Sub)")
      case True
      then obtain c1 where l: "l = ConstantExpr c1" and k: "k = Add \<or> k = Sub" by blast
      from BinaryExpr l have c1: "valid c1" "apw c1 = w" and r: "wt r" "getWidth r = w" and c: "valid c" "apw c = w"
        by simp_all
      define d where "d = APInt w (if k = Add then bin_sem w Sub (apv c) (apv c1) else bin_sem w Sub (apv c1) (apv c))"
      have d: "valid d" "apw d = w" using wt_width [OF r(1)] r(2) by (simp_all add: d_def)
      have "EqExpr_createPartialR X (BinaryExpr k l r) c = EqExpr_createPartialR X r d"
        using False k c c1 l
        by (auto simp: EqExpr_createPartialR.simps [of X "BinaryExpr _ _ _"] Let_def Constant_bin_def ap_bin is_div_def d_def)
      moreover have "creates (EqExpr_createPartialR X r d) 1 (\<lambda>\<rho>. of_bool (apv d = eval \<rho> r))"
        using BinaryExpr d r by blast
      moreover have "(apv d = eval \<rho> r) = (apv c = eval \<rho> (BinaryExpr k l r))" for \<rho>
        using k l r c c1 bin_sem_Add_eq [of w "apv c" "eval \<rho> r" "apv c1"] bin_sem_Sub_eq [of w "apv c" "eval \<rho> r" "apv c1"]
        by (auto simp: d_def valid_take_bit)
      ultimately show ?thesis by simp
    next
      case no: False
      then have "EqExpr_createPartialR X (BinaryExpr k l r) c = Some (EqExpr_create X (ConstantExpr c) (BinaryExpr k l r))"
        using False BinaryExpr.prems by (cases l) (auto simp: EqExpr_createPartialR.simps [of X "BinaryExpr _ _ _"] Let_def)
      with rest show ?thesis by simp
    qed
  qed
next
  case (CmpExpr k l r)
  then have "apw c = 1" by simp
  with CmpExpr show ?case by (intro Eq_partial_Cmp)
qed (simp_all only: Eq_partial_simple expr.case simp_thms)

end

text \<open>The environment with the default \<open>const-array-opt\<close>.\<close>

locale apint_default = apint_lib +
  assumes no_const_array_opt: "\<not> ConstArrayOpt X"

interpretation llvm_default: apint_default llvm_env
  by unfold_locales (simp add: llvm_env_def)

context apint_default
begin

lemmas Eq_partial_creates = Eq_partial [OF no_const_array_opt]

lemma Eq_create_creates:
  assumes "wt l" "wt r" "getWidth l = w" "getWidth r = w" "w \<le> 64"
  shows "creates (Eq_create X l r) 1 (\<lambda>\<rho>. of_bool (eval \<rho> l = eval \<rho> r))"
proof -
  consider (cc) c d where "l = ConstantExpr c" "r = ConstantExpr d"
    | (cr) c where "l = ConstantExpr c" "\<nexists>d. r = ConstantExpr d"
    | (rc) d where "r = ConstantExpr d" "\<nexists>c. l = ConstantExpr c"
    | (rr) "\<nexists>c. l = ConstantExpr c" "\<nexists>c. r = ConstantExpr c" by blast
  then show ?thesis
  proof cases
    case cc
    with assms Constant_cmp_creates [of c d Eq] show ?thesis by (simp add: Eq_create_def)
  next
    case cr
    then have "Eq_create X l r = EqExpr_createPartialR X r c"
      using assms by (cases r) (simp_all add: Eq_create_def)
    with cr assms Eq_partial_creates [of r w c] show ?thesis by simp
  next
    case rc
    then have "Eq_create X l r = EqExpr_createPartialR X l d"
      using assms by (cases l) (simp_all add: Eq_create_def)
    with rc assms Eq_partial_creates [of l w d] show ?thesis by (simp add: eq_commute [of "apv d"])
  next
    case rr
    then have "Eq_create X l r = Some (EqExpr_create X l r)"
      using assms by (cases l; cases r) (simp_all add: Eq_create_def)
    with assms EqExpr_create_creates [of l r] show ?thesis by simp
  qed
qed

lemma createIsZero_creates:
  assumes "wt e" "getWidth e = w" "w \<le> 64"
  shows "creates (createIsZero X e) 1 (\<lambda>\<rho>. of_bool (eval \<rho> e = 0))"
proof -
  have w: "0 < w" using assms wt_width by blast
  with assms Eq_create_creates [of e "ConstantExpr (Constant_alloc X 0 w)" w] show ?thesis
    by (simp add: createIsZero_def Constant_create_valid)
qed

lemma Ne_create_creates:
  assumes "wt l" "wt r" "getWidth l = w" "getWidth r = w" "w \<le> 64"
  shows "creates (Ne_create X l r) 1 (\<lambda>\<rho>. of_bool (eval \<rho> l \<noteq> eval \<rho> r))"
proof -
  have "creates (Eq_create X (ConstantExpr (Constant_alloc X 0 1)) e) 1 (\<lambda>\<rho>. of_bool (eval \<rho> l \<noteq> eval \<rho> r))"
    if "wt e" "getWidth e = 1" "\<And>\<rho>. eval \<rho> e = of_bool (eval \<rho> l = eval \<rho> r)" for e
    using Eq_create_creates [of "ConstantExpr (Constant_alloc X 0 1)" e 1] that
    by (rule_tac creates_cong) simp_all
  with Eq_create_creates [OF assms] show ?thesis
    by (simp add: Ne_create_def Constant_create_valid creates_bind)
qed

lemma createImplies_creates:
  assumes "wt h" "wt c" "getWidth h = 1" "getWidth c = 1"
  shows "creates (createImplies X h c) 1 (\<lambda>\<rho>. of_bool (eval \<rho> h = 1 \<longrightarrow> eval \<rho> c = 1))"
  unfolding createImplies_def
proof (rule creates_bind [OF createIsZero_creates [OF assms(1,3)]])
  fix z assume z: "wt z" "getWidth z = 1" "\<And>\<rho>. eval \<rho> z = of_bool (eval \<rho> h = 0)"
  have "bin_sem 1 Or (eval \<rho> z) (eval \<rho> c) = of_bool (eval \<rho> h = 1 \<longrightarrow> eval \<rho> c = 1)" for \<rho>
    using eval_bool [OF assms(1,3), of \<rho>] eval_bool [OF assms(2,4), of \<rho>] by (auto simp: z bin_sem_def)
  then show "creates (Or_create X z c) 1 (\<lambda>\<rho>. of_bool (eval \<rho> h = 1 \<longrightarrow> eval \<rho> c = 1))"
    using Or_create_creates [of z c 1] z assms by (rule_tac creates_cong) simp_all
qed simp

lemma Xor_partial:
  assumes "wt r" "getWidth r = w" "valid c" "apw c = w" "w \<le> 64"
  shows "creates (XorExpr_createPartialR X c r) w (\<lambda>\<rho>. bin_sem w Xor (apv c) (eval \<rho> r))"
proof (cases "apv c \<noteq> 0 \<and> w = 1")
  case True
  then have "apv c = 1" using assms valid_range [of c] by auto
  moreover have "of_bool (0 = eval \<rho> r) = bin_sem 1 Xor 1 (eval \<rho> r)" for \<rho>
    using eval_bool [of r \<rho>] True assms by (auto simp: bin_sem_def)
  ultimately show ?thesis
    using True assms Eq_partial_creates [of r 1 "Constant_alloc X 0 1"]
    by (simp add: XorExpr_createPartialR_def isZero_valid Constant_create_valid)
next
  case False
  with assms bin_sem_ident(5) [of w "eval _ r"] show ?thesis
    by (auto simp: XorExpr_createPartialR_def isZero_valid creates_Some_iff bin_sem_commute(3) [of w 0])
qed

lemma Xor_create_creates:
  "wt l \<Longrightarrow> wt r \<Longrightarrow> getWidth l = w \<Longrightarrow> getWidth r = w \<Longrightarrow> w \<le> 64 \<Longrightarrow>
   creates (Xor_create X l r) w (\<lambda>\<rho>. bin_sem w Xor (eval \<rho> l) (eval \<rho> r))"
  unfolding Xor_create_def
  by (rule bcreate_R_creates)
    (simp_all add: creates_Some_iff Xor_partial is_div_def XorExpr_create_def XorExpr_createPartial_def
      bin_sem_commute(3) [of _ _ "apv _"])

end

section \<open>Addition and subtraction\<close>

lemma add_sub_assoc:
  "bin_sem w Add (bin_sem w Add c b) x = bin_sem w Add c (bin_sem w Add b x)"
  "bin_sem w Sub (bin_sem w Add c b) x = bin_sem w Add c (bin_sem w Sub b x)"
  "bin_sem w Sub (bin_sem w Sub c b) x = bin_sem w Sub c (bin_sem w Add b x)"
  "bin_sem w Add (bin_sem w Sub c b) x = bin_sem w Sub c (bin_sem w Sub b x)"
  by (simp_all add: bin_sem_def take_bit_eq_mod mod_simps algebra_simps)

lemma add_sub_pull:
  "bin_sem w Add (bin_sem w Add k a) r = bin_sem w Add k (bin_sem w Add a r)"
  "bin_sem w Add (bin_sem w Sub k a) r = bin_sem w Add k (bin_sem w Sub r a)"
  "bin_sem w Add l (bin_sem w Add k b) = bin_sem w Add k (bin_sem w Add l b)"
  "bin_sem w Add l (bin_sem w Sub k b) = bin_sem w Add k (bin_sem w Sub l b)"
  "bin_sem w Sub (bin_sem w Add k a) r = bin_sem w Add k (bin_sem w Sub a r)"
  "bin_sem w Sub (bin_sem w Sub k a) r = bin_sem w Sub k (bin_sem w Add a r)"
  "bin_sem w Sub l (bin_sem w Add k b) = bin_sem w Sub (bin_sem w Sub l b) k"
  "bin_sem w Sub l (bin_sem w Sub k b) = bin_sem w Sub (bin_sem w Add l b) k"
  by (simp_all add: bin_sem_def take_bit_eq_mod mod_simps algebra_simps)

lemma add_sub_zero:
  "take_bit w x = x \<Longrightarrow> bin_sem w Add 0 x = x"
  "bin_sem w Add (bin_sem w Sub 0 c) x = bin_sem w Sub x c"
  "bin_sem w Sub x x = 0"
  by (simp_all add: bin_sem_def take_bit_eq_mod mod_simps algebra_simps)

lemma add_sub_bool:
  "a = 0 \<or> a = 1 \<Longrightarrow> b = 0 \<or> b = 1 \<Longrightarrow> bin_sem (Suc 0) Add a b = bin_sem (Suc 0) Xor a b"
  "a = 0 \<or> a = 1 \<Longrightarrow> b = 0 \<or> b = 1 \<Longrightarrow> bin_sem (Suc 0) Sub a b = bin_sem (Suc 0) Xor a b"
  by (auto simp: bin_sem_def take_bit_eq_mod)

lemma const_kid_Some: "const_kid k e = Some (c, b) \<longleftrightarrow> e = BinaryExpr k (ConstantExpr c) b"
  by (auto simp: const_kid_def split: expr.splits if_splits)

lemma valid_bool: "valid c \<Longrightarrow> apw c = 1 \<Longrightarrow> apv c = 0 \<or> apv c = 1"
  using valid_range [of c] by auto

context apint_default
begin

lemma create_consts_valid:
  "valid c \<Longrightarrow> valid d \<Longrightarrow> apw c = w \<Longrightarrow> apw d = w \<Longrightarrow> \<not> is_div k \<Longrightarrow>
   create_consts X k c d = Some (APInt w (bin_sem w k (apv c) (apv d)))"
  by (simp add: create_consts_def Constant_bin_def ap_bin)

lemma create_left_creates:
  assumes "wt e" "getWidth e = w" "valid c" "apw c = w" "\<not> is_div k"
    and "creates (p c) w (\<lambda>\<rho>. bin_sem w k (apv c) (eval \<rho> e))"
  shows "creates (create_left X k p c e) w (\<lambda>\<rho>. bin_sem w k (apv c) (eval \<rho> e))"
proof (cases e)
  case (ConstantExpr d)
  with assms Constant_bin_creates [of c d k] show ?thesis by (simp add: create_left_def)
qed (use assms in \<open>simp_all add: create_left_def\<close>)

lemma AddSub_bool_partial:
  assumes "wt r" "getWidth r = w" "valid c" "apw c = w" "w = 1" "k = Add \<or> k = Sub"
  shows "creates (XorExpr_createPartialR X c r) w (\<lambda>\<rho>. bin_sem w k (apv c) (eval \<rho> r))"
  using Xor_partial [of r w c] assms eval_bool [of r] valid_bool [of c]
  by (auto simp: add_sub_bool elim!: creates_cong)

lemma AddSub_partial:
  "wt r \<Longrightarrow> getWidth r = w \<Longrightarrow> valid c \<Longrightarrow> apw c = w \<Longrightarrow> w \<le> 64 \<Longrightarrow>
   creates (AddExpr_createPartialR X r c) w (\<lambda>\<rho>. bin_sem w Add (apv c) (eval \<rho> r)) \<and>
   creates (SubExpr_createPartialR X r c) w (\<lambda>\<rho>. bin_sem w Sub (apv c) (eval \<rho> r))"
proof (induction r arbitrary: c w rule: measure_induct_rule [where f = size])
  case (less r)
  note P = less.prems
  have w: "0 < w" using wt_width P by blast
  show ?case
  proof (cases "w = 1")
    case True
    with P AddSub_bool_partial [of r w c] show ?thesis
      by (simp add: AddExpr_createPartialR.simps [of X r] SubExpr_createPartialR.simps [of X r])
  next
    case False
    show ?thesis
    proof (cases "\<exists>k b x. (k = Add \<or> k = Sub) \<and> r = BinaryExpr k (ConstantExpr b) x")
      case True
      then obtain k b x where r: "r = BinaryExpr k (ConstantExpr b) x" and k: "k = Add \<or> k = Sub" by blast
      with P have x: "wt x" "getWidth x = w" and b: "valid b" "apw b = w" by simp_all
      have IH: "creates (AddExpr_createPartialR X x d) w (\<lambda>\<rho>. bin_sem w Add (apv d) (eval \<rho> x))"
        "creates (SubExpr_createPartialR X x d) w (\<lambda>\<rho>. bin_sem w Sub (apv d) (eval \<rho> x))"
        if "valid d" "apw d = w" for d
        using less.IH [of x w d] that x r P(5) by simp_all
      have L: "creates (create_left X Add (AddExpr_createPartialR X x) d x) w (\<lambda>\<rho>. bin_sem w Add (apv d) (eval \<rho> x))"
        "creates (create_left X Sub (SubExpr_createPartialR X x) d x) w (\<lambda>\<rho>. bin_sem w Sub (apv d) (eval \<rho> x))"
        if "valid d" "apw d = w" for d
        using IH [OF that] that x by (auto intro!: create_left_creates simp: is_div_def)
      let ?s = "APInt w (bin_sem w Add (apv c) (apv b))" and ?d = "APInt w (bin_sem w Sub (apv c) (apv b))"
      note eqs = AddExpr_createPartialR.simps [of X "BinaryExpr _ _ _"] SubExpr_createPartialR.simps [of X "BinaryExpr _ _ _"]
        const_kid_def isZero_valid create_consts_valid is_div_def add_sub_assoc
      have sub: "creates (SubExpr_createPartialR X r c) w (\<lambda>\<rho>. bin_sem w Sub (apv c) (eval \<rho> r))"
        using k L [of ?d] False P w b unfolding r by (elim disjE) (simp_all add: eqs)
      have add: "creates (AddExpr_createPartialR X r c) w (\<lambda>\<rho>. bin_sem w Add (apv c) (eval \<rho> r))" if "apv c \<noteq> 0"
        using k L [of ?s] False P w b that unfolding r by (elim disjE) (simp_all add: eqs)
      have zero: "AddExpr_createPartialR X r c = Some r" if "apv c = 0"
        using False P that by (simp add: AddExpr_createPartialR.simps [of X r] isZero_valid)
      with sub add P show ?thesis
        by (cases "apv c = 0") (simp_all add: creates_Some_iff add_sub_zero)
    next
      case no: False
      then have "const_kid Add r = None" "const_kid Sub r = None"
        by (metis const_kid_Some not_Some_eq surj_pair)+
      with P False show ?thesis
        by (auto simp: AddExpr_createPartialR.simps [of X r] SubExpr_createPartialR.simps [of X r] isZero_valid
            creates_Some_iff add_sub_zero)
    qed
  qed
qed

end

context apint_default
begin

lemmas Add_partial = AddSub_partial [THEN conjunct1]
lemmas Sub_partial = AddSub_partial [THEN conjunct2]

lemma Add_const_creates:
  "wt e \<Longrightarrow> getWidth e = w \<Longrightarrow> valid c \<Longrightarrow> apw c = w \<Longrightarrow> w \<le> 64 \<Longrightarrow>
   creates (Add_const X c e) w (\<lambda>\<rho>. bin_sem w Add (apv c) (eval \<rho> e))"
  unfolding Add_const_def by (rule create_left_creates) (auto simp: is_div_def intro: Add_partial)

lemma Sub_const_creates:
  "wt e \<Longrightarrow> getWidth e = w \<Longrightarrow> valid c \<Longrightarrow> apw c = w \<Longrightarrow> w \<le> 64 \<Longrightarrow>
   creates (Sub_const X c e) w (\<lambda>\<rho>. bin_sem w Sub (apv c) (eval \<rho> e))"
  unfolding Sub_const_def by (rule create_left_creates) (auto simp: is_div_def intro: Sub_partial)

lemma Sub_partial_right:
  assumes "wt l" "getWidth l = w" "valid c" "apw c = w" "w \<le> 64"
  shows "creates (SubExpr_createPartial X l c) w (\<lambda>\<rho>. bin_sem w Sub (eval \<rho> l) (apv c))"
proof -
  have w: "0 < w" using wt_width assms by blast
  let ?d = "APInt w (bin_sem w Sub 0 (apv c))"
  have "Constant_bin X Sub (Constant_alloc X 0 (apw c)) c = Some ?d"
    using assms w by (simp add: Constant_bin_def ap_bin is_div_def)
  with Add_partial [of l w ?d] assms w show ?thesis
    by (simp add: SubExpr_createPartial_def AddExpr_createPartial_def add_sub_zero)
qed

lemma Sub_by_const_creates:
  assumes "wt e" "getWidth e = w" "valid c" "apw c = w" "w \<le> 64"
  shows "creates (Sub_by_const X e c) w (\<lambda>\<rho>. bin_sem w Sub (eval \<rho> e) (apv c))"
proof (cases e)
  case (ConstantExpr d)
  with assms Constant_bin_creates [of d c Sub] show ?thesis by (simp add: Sub_by_const_def is_div_def)
qed (use assms Sub_partial_right [OF assms] in \<open>simp_all add: Sub_by_const_def\<close>)

lemma Add_const_bind:
  assumes "creates m w f" "valid k" "apw k = w" "w \<le> 64" "\<And>\<rho>. bin_sem w Add (apv k) (f \<rho>) = g \<rho>"
  shows "creates (Option.bind m (\<lambda>e. Add_const X k e)) w g"
  using assms(1) by (rule creates_bind) (use Add_const_creates assms in \<open>fastforce elim: creates_cong\<close>)

lemma Sub_const_bind:
  assumes "creates m w f" "valid k" "apw k = w" "w \<le> 64" "\<And>\<rho>. bin_sem w Sub (apv k) (f \<rho>) = g \<rho>"
  shows "creates (Option.bind m (\<lambda>e. Sub_const X k e)) w g"
  using assms(1) by (rule creates_bind) (use Sub_const_creates assms in \<open>fastforce elim: creates_cong\<close>)

lemma Sub_by_const_bind:
  assumes "creates m w f" "valid k" "apw k = w" "w \<le> 64" "\<And>\<rho>. bin_sem w Sub (f \<rho>) (apv k) = g \<rho>"
  shows "creates (Option.bind m (\<lambda>e. Sub_by_const X e k)) w g"
  using assms(1) by (rule creates_bind) (use Sub_by_const_creates assms in \<open>fastforce elim: creates_cong\<close>)

text \<open>The four patterns \<open>AddExpr_create\<close> and \<open>SubExpr_create\<close> look for, in their order.\<close>

lemma const_kid_patterns:
  obtains (al) k a where "l = BinaryExpr Add (ConstantExpr k) a" "const_kid Add l = Some (k, a)"
  | (sl) k a where "l = BinaryExpr Sub (ConstantExpr k) a" "const_kid Add l = None" "const_kid Sub l = Some (k, a)"
  | (ar) k a where "r = BinaryExpr Add (ConstantExpr k) a" "const_kid Add l = None" "const_kid Sub l = None"
      "const_kid Add r = Some (k, a)"
  | (sr) k a where "r = BinaryExpr Sub (ConstantExpr k) a" "const_kid Add l = None" "const_kid Sub l = None"
      "const_kid Add r = None" "const_kid Sub r = Some (k, a)"
  | (no) "const_kid Add l = None" "const_kid Sub l = None" "const_kid Add r = None" "const_kid Sub r = None"
  by (metis const_kid_Some not_Some_eq surj_pair)

lemma Add_full:
  assumes lr: "wt l" "wt r" "getWidth l = w" "getWidth r = w" "w \<le> 64"
    and IH: "\<And>a b. size a + size b < size l + size r \<Longrightarrow> wt a \<Longrightarrow> wt b \<Longrightarrow> getWidth a = w \<Longrightarrow> getWidth b = w \<Longrightarrow>
      creates (Add_create X a b) w (\<lambda>\<rho>. bin_sem w Add (eval \<rho> a) (eval \<rho> b)) \<and>
      creates (Sub_create X a b) w (\<lambda>\<rho>. bin_sem w Sub (eval \<rho> a) (eval \<rho> b))"
  shows "creates (AddExpr_create X l r) w (\<lambda>\<rho>. bin_sem w Add (eval \<rho> l) (eval \<rho> r))"
proof (cases "w = 1")
  case True
  with assms eval_bool [of l] eval_bool [of r] show ?thesis
    by (simp add: AddExpr_create.simps XorExpr_create_def creates_Some_iff add_sub_bool)
next
  case False
  show ?thesis
  proof (cases rule: const_kid_patterns [where l = l and r = r])
    case (al k a)
    with False lr IH [of a r] Add_const_bind [of _ w "\<lambda>\<rho>. bin_sem w Add (eval \<rho> a) (eval \<rho> r)" k]
    show ?thesis by (simp add: AddExpr_create.simps add_sub_pull(1))
  next
    case (sl k a)
    with False lr IH [of r a] Add_const_bind [of _ w "\<lambda>\<rho>. bin_sem w Sub (eval \<rho> r) (eval \<rho> a)" k]
    show ?thesis by (simp add: AddExpr_create.simps add_sub_pull(2))
  next
    case (ar k a)
    with False lr IH [of l a] Add_const_bind [of _ w "\<lambda>\<rho>. bin_sem w Add (eval \<rho> l) (eval \<rho> a)" k]
    show ?thesis by (simp add: AddExpr_create.simps add_sub_pull(3))
  next
    case (sr k a)
    with False lr IH [of l a] Add_const_bind [of _ w "\<lambda>\<rho>. bin_sem w Sub (eval \<rho> l) (eval \<rho> a)" k]
    show ?thesis by (simp add: AddExpr_create.simps add_sub_pull(4))
  next
    case no
    with False lr show ?thesis by (simp add: AddExpr_create.simps creates_Some_iff)
  qed
qed

lemma Sub_full:
  assumes lr: "wt l" "wt r" "getWidth l = w" "getWidth r = w" "w \<le> 64"
    and IH: "\<And>a b. size a + size b < size l + size r \<Longrightarrow> wt a \<Longrightarrow> wt b \<Longrightarrow> getWidth a = w \<Longrightarrow> getWidth b = w \<Longrightarrow>
      creates (Add_create X a b) w (\<lambda>\<rho>. bin_sem w Add (eval \<rho> a) (eval \<rho> b)) \<and>
      creates (Sub_create X a b) w (\<lambda>\<rho>. bin_sem w Sub (eval \<rho> a) (eval \<rho> b))"
  shows "creates (SubExpr_create X l r) w (\<lambda>\<rho>. bin_sem w Sub (eval \<rho> l) (eval \<rho> r))"
proof (cases "w = 1 \<or> l = r")
  case True
  have "0 < w" using lr wt_width by blast
  with True lr eval_bool [of l] eval_bool [of r] show ?thesis
    by (auto simp: SubExpr_create.simps XorExpr_create_def creates_Some_iff add_sub_bool add_sub_zero)
next
  case False
  show ?thesis
  proof (cases rule: const_kid_patterns [where l = l and r = r])
    case (al k a)
    with False lr IH [of a r] Add_const_bind [of _ w "\<lambda>\<rho>. bin_sem w Sub (eval \<rho> a) (eval \<rho> r)" k]
    show ?thesis by (simp add: SubExpr_create.simps add_sub_pull(5))
  next
    case (sl k a)
    with False lr IH [of a r] Sub_const_bind [of _ w "\<lambda>\<rho>. bin_sem w Add (eval \<rho> a) (eval \<rho> r)" k]
    show ?thesis by (simp add: SubExpr_create.simps add_sub_pull(6))
  next
    case (ar k a)
    with False lr IH [of l a] Sub_by_const_bind [of _ w "\<lambda>\<rho>. bin_sem w Sub (eval \<rho> l) (eval \<rho> a)" k]
    show ?thesis by (simp add: SubExpr_create.simps add_sub_pull(7))
  next
    case (sr k a)
    with False lr IH [of l a] Sub_by_const_bind [of _ w "\<lambda>\<rho>. bin_sem w Add (eval \<rho> l) (eval \<rho> a)" k]
    show ?thesis by (simp add: SubExpr_create.simps add_sub_pull(8))
  next
    case no
    with False lr show ?thesis by (simp add: SubExpr_create.simps creates_Some_iff)
  qed
qed

lemma AddSub_create_creates:
  "wt l \<Longrightarrow> wt r \<Longrightarrow> getWidth l = w \<Longrightarrow> getWidth r = w \<Longrightarrow> w \<le> 64 \<Longrightarrow>
   creates (Add_create X l r) w (\<lambda>\<rho>. bin_sem w Add (eval \<rho> l) (eval \<rho> r)) \<and>
   creates (Sub_create X l r) w (\<lambda>\<rho>. bin_sem w Sub (eval \<rho> l) (eval \<rho> r))"
proof (induction "size l + size r" arbitrary: l r rule: less_induct)
  case less
  note lr = less.prems
  have full: "creates (AddExpr_create X l r) w (\<lambda>\<rho>. bin_sem w Add (eval \<rho> l) (eval \<rho> r))"
    "creates (SubExpr_create X l r) w (\<lambda>\<rho>. bin_sem w Sub (eval \<rho> l) (eval \<rho> r))"
    by (rule Add_full [OF lr], use less in blast) (rule Sub_full [OF lr], use less in blast)
  consider (c) c where "l = ConstantExpr c" | (d) d where "r = ConstantExpr d" "\<nexists>c. l = ConstantExpr c"
    | (n) "\<nexists>c. l = ConstantExpr c" "\<nexists>d. r = ConstantExpr d" by blast
  then show ?case
  proof cases
    case c
    with lr Add_const_creates [of r w c] Sub_const_creates [of r w c] show ?thesis
      by (simp add: Add_create.simps Sub_create.simps)
  next
    case d
    then have "Add_create X l r = AddExpr_createPartial X l d" "Sub_create X l r = SubExpr_createPartial X l d"
      using lr by (cases l; simp add: Add_create.simps Sub_create.simps)+
    with d lr Add_partial [of l w d] Sub_partial_right [of l w d] show ?thesis
      by (simp add: AddExpr_createPartial_def bin_sem_commute(4) [of w "apv d"])
  next
    case n
    then have "Add_create X l r = AddExpr_create X l r" "Sub_create X l r = SubExpr_create X l r"
      using lr by (cases l; cases r; simp add: Add_create.simps Sub_create.simps)+
    with full show ?thesis by simp
  qed
qed

end

section \<open>The other operations\<close>

lemma sval_1: "sval (Suc 0) a = - (a mod 2)" for a
  by (simp add: sval_def)

lemma bool_ops:
  assumes "a = 0 \<or> a = 1" "b = 0 \<or> b = 1"
  shows "bin_sem (Suc 0) Mul a b = bin_sem (Suc 0) And a b"
    "b \<noteq> 0 \<Longrightarrow> bin_sem (Suc 0) UDiv a b = a"
    "b \<noteq> 0 \<Longrightarrow> bin_sem (Suc 0) SDiv a b = a"
    "b \<noteq> 0 \<Longrightarrow> bin_sem (Suc 0) URem a b = 0"
    "b \<noteq> 0 \<Longrightarrow> bin_sem (Suc 0) SRem a b = 0"
    "bin_sem (Suc 0) Shl a b = bin_sem (Suc 0) And a (of_bool (b = 0))"
    "bin_sem (Suc 0) LShr a b = bin_sem (Suc 0) And a (of_bool (b = 0))"
    "bin_sem (Suc 0) AShr a b = a"
  using assms
  by (auto simp: bin_sem_def take_bit_eq_mod sval_1 signed_divide_int_def signed_modulo_int_def)

lemma bool_cmps:
  assumes "a = 0 \<or> a = 1" "b = 0 \<or> b = 1"
  shows "bin_sem (Suc 0) And (of_bool (a = 0)) b = of_bool (cmp_sem (Suc 0) Ult a b)"
    "bin_sem (Suc 0) Or (of_bool (a = 0)) b = of_bool (cmp_sem (Suc 0) Ule a b)"
    "bin_sem (Suc 0) And a (of_bool (b = 0)) = of_bool (cmp_sem (Suc 0) Slt a b)"
    "bin_sem (Suc 0) Or a (of_bool (b = 0)) = of_bool (cmp_sem (Suc 0) Sle a b)"
  using assms by (auto simp: bin_sem_def take_bit_eq_mod sval_1)

lemma mul_ident: "take_bit w x = x \<Longrightarrow> bin_sem w Mul 1 x = x" "bin_sem w Mul 0 x = 0"
  by (simp_all add: bin_sem_def)

lemma creates_bind_eval:
  assumes "creates m v f" "\<And>z. wt z \<Longrightarrow> getWidth z = v \<Longrightarrow> creates (g z) w (\<lambda>\<rho>. h \<rho> (eval \<rho> z))"
  shows "creates (Option.bind m g) w (\<lambda>\<rho>. h \<rho> (f \<rho>))"
  using assms(1)
proof (rule creates_bind)
  fix z assume "wt z" "getWidth z = v" "\<And>\<rho>. eval \<rho> z = f \<rho>"
  with assms(2) [of z] show "creates (g z) w (\<lambda>\<rho>. h \<rho> (f \<rho>))" by simp
qed

context apint_default
begin

lemma Mul_partial:
  assumes "wt r" "getWidth r = w" "valid c" "apw c = w" "w \<le> 64"
  shows "creates (MulExpr_createPartialR X c r) w (\<lambda>\<rho>. bin_sem w Mul (apv c) (eval \<rho> r))"
proof (cases "w = 1")
  case True
  have "bin_sem 1 And (eval \<rho> r) (apv c) = bin_sem 1 Mul (apv c) (eval \<rho> r)" for \<rho>
    using True assms eval_bool [of r \<rho>] valid_bool [of c] by (simp add: bool_ops bin_sem_commute)
  with True And_partial [OF assms] assms(4) show ?thesis
    by (simp add: MulExpr_createPartialR_def AndExpr_createPartialR_def)
next
  case False
  with assms show ?thesis
    by (simp add: MulExpr_createPartialR_def isOne_valid isZero_valid creates_Some_iff mul_ident)
qed

lemma Mul_create_creates:
  "wt l \<Longrightarrow> wt r \<Longrightarrow> getWidth l = w \<Longrightarrow> getWidth r = w \<Longrightarrow> w \<le> 64 \<Longrightarrow>
   creates (Mul_create X l r) w (\<lambda>\<rho>. bin_sem w Mul (eval \<rho> l) (eval \<rho> r))"
  unfolding Mul_create_def
  by (rule bcreate_R_creates)
    (use eval_bool [of l] eval_bool [of r] in \<open>simp_all add: creates_Some_iff Mul_partial is_div_def
      MulExpr_create_def MulExpr_createPartial_def bin_sem_commute(5) [of _ _ "apv _"] bool_ops\<close>)

text \<open>\<open>x\<close> and the test for zero of \<open>y\<close>, as the Boolean cases of the shifts and comparisons combine them.\<close>

lemma zero_test_bind:
  assumes "wt x" "wt y" "getWidth x = 1" "getWidth y = 1"
  shows "creates (Option.bind (createIsZero X y) (\<lambda>z. And_create X x z)) 1 (\<lambda>\<rho>. bin_sem 1 And (eval \<rho> x) (of_bool (eval \<rho> y = 0)))"
    "creates (Option.bind (createIsZero X y) (\<lambda>z. And_create X z x)) 1 (\<lambda>\<rho>. bin_sem 1 And (of_bool (eval \<rho> y = 0)) (eval \<rho> x))"
    "creates (Option.bind (createIsZero X y) (\<lambda>z. Or_create X x z)) 1 (\<lambda>\<rho>. bin_sem 1 Or (eval \<rho> x) (of_bool (eval \<rho> y = 0)))"
    "creates (Option.bind (createIsZero X y) (\<lambda>z. Or_create X z x)) 1 (\<lambda>\<rho>. bin_sem 1 Or (of_bool (eval \<rho> y = 0)) (eval \<rho> x))"
  by (rule creates_bind_eval [OF createIsZero_creates [OF assms(2,4)]];
      use assms And_create_creates Or_create_creates in simp)+

lemma bcreate_creates:
  assumes "wt l" "wt r" "getWidth l = w" "getWidth r = w" "\<not> is_div k"
    and "creates (full l r) w (\<lambda>\<rho>. bin_sem w k (eval \<rho> l) (eval \<rho> r))"
  shows "creates (bcreate X k full l r) w (\<lambda>\<rho>. bin_sem w k (eval \<rho> l) (eval \<rho> r))"
proof (cases "\<exists>c d. l = ConstantExpr c \<and> r = ConstantExpr d")
  case True
  then obtain c d where "l = ConstantExpr c" "r = ConstantExpr d" by blast
  with assms Constant_bin_creates [of c d k] show ?thesis by (simp add: bcreate_def)
next
  case False
  with assms show ?thesis by (cases l; cases r) (simp_all add: bcreate_def)
qed

lemma shift_creates:
  assumes "wt l" "wt r" "getWidth l = w" "getWidth r = w" "w \<le> 64"
  shows "creates (Shl_create X l r) w (\<lambda>\<rho>. bin_sem w Shl (eval \<rho> l) (eval \<rho> r))"
    "creates (LShr_create X l r) w (\<lambda>\<rho>. bin_sem w LShr (eval \<rho> l) (eval \<rho> r))"
    "creates (AShr_create X l r) w (\<lambda>\<rho>. bin_sem w AShr (eval \<rho> l) (eval \<rho> r))"
  unfolding Shl_create_def LShr_create_def AShr_create_def
  by (rule bcreate_creates [OF assms(1-4)];
      use assms eval_bool [of l] eval_bool [of r] zero_test_bind(1) [of l r] in
        \<open>simp add: is_div_def ShlExpr_create_def LShrExpr_create_def AShrExpr_create_def creates_Some_iff bool_ops\<close>)+

end

context apint_default
begin

text \<open>Division: the value is the quotient or remainder wherever the divisor is not zero.\<close>

lemma div_creates:
  assumes "wt l" "wt r" "getWidth l = w" "getWidth r = w" "is_div k"
    and "\<And>d. r = ConstantExpr d \<Longrightarrow> apv d \<noteq> 0"
  shows "\<exists>e. create_bin X k l r = Some e \<and> wt e \<and> getWidth e = w \<and>
     (\<forall>\<rho>. eval \<rho> r \<noteq> 0 \<longrightarrow> eval \<rho> e = bin_sem w k (eval \<rho> l) (eval \<rho> r))"
proof (cases "\<exists>c d. l = ConstantExpr c \<and> r = ConstantExpr d")
  case True
  then obtain c d where cd: "l = ConstantExpr c" "r = ConstantExpr d" by blast
  with assms have "create_bin X k l r = map_option ConstantExpr (Constant_bin X k c d)"
    by (auto simp: is_div_def UDiv_create_def SDiv_create_def URem_create_def SRem_create_def bcreate_def)
  with cd assms Constant_bin_creates [of c d k] show ?thesis by (auto elim: createsE)
next
  case False
  have w: "0 < w" using assms wt_width by blast
  have z: "Constant_create X 0 1 = Some (Constant_alloc X 0 1)" by (simp add: Constant_create_valid)
  have "create_bin X k l r = Some (if w = 1 then (if k = UDiv \<or> k = SDiv then l else ConstantExpr (Constant_alloc X 0 1)) else BinaryExpr k l r)"
    using False assms(3-5) z
    by (cases l; cases r) (auto simp: is_div_def UDiv_create_def SDiv_create_def URem_create_def SRem_create_def bcreate_def
        UDivExpr_create_def SDivExpr_create_def URemExpr_create_def SRemExpr_create_def)
  moreover have "(if k = UDiv \<or> k = SDiv then eval \<rho> l else 0) = bin_sem (Suc 0) k (eval \<rho> l) (eval \<rho> r)"
    if "w = 1" "eval \<rho> r \<noteq> 0" for \<rho>
    using that assms(1-5) bool_ops(2-5) [of "eval \<rho> l" "eval \<rho> r"] eval_bool [of l \<rho>] eval_bool [of r \<rho>]
    by (auto simp: is_div_def simp del: One_nat_def)
  ultimately show ?thesis using assms w by (auto simp: is_div_def)
qed

lemma cmpcreate_creates:
  assumes "wt l" "wt r" "getWidth l = w" "getWidth r = w"
    and "creates (full l r) 1 (\<lambda>\<rho>. of_bool (cmp_sem w k (eval \<rho> l) (eval \<rho> r)))"
  shows "creates (cmpcreate X k full l r) 1 (\<lambda>\<rho>. of_bool (cmp_sem w k (eval \<rho> l) (eval \<rho> r)))"
proof (cases "\<exists>c d. l = ConstantExpr c \<and> r = ConstantExpr d")
  case True
  then obtain c d where "l = ConstantExpr c" "r = ConstantExpr d" by blast
  with assms Constant_cmp_creates [of c d k] show ?thesis by (simp add: cmpcreate_def)
next
  case False
  with assms show ?thesis by (cases l; cases r) (simp_all add: cmpcreate_def)
qed

lemma order_creates:
  assumes "wt l" "wt r" "getWidth l = w" "getWidth r = w" "w \<le> 64"
  shows "creates (Ult_create X l r) 1 (\<lambda>\<rho>. of_bool (cmp_sem w Ult (eval \<rho> l) (eval \<rho> r)))"
    "creates (Ule_create X l r) 1 (\<lambda>\<rho>. of_bool (cmp_sem w Ule (eval \<rho> l) (eval \<rho> r)))"
    "creates (Slt_create X l r) 1 (\<lambda>\<rho>. of_bool (cmp_sem w Slt (eval \<rho> l) (eval \<rho> r)))"
    "creates (Sle_create X l r) 1 (\<lambda>\<rho>. of_bool (cmp_sem w Sle (eval \<rho> l) (eval \<rho> r)))"
  unfolding Ult_create_def Ule_create_def Slt_create_def Sle_create_def
  by (rule cmpcreate_creates [OF assms(1-4)];
      use assms eval_bool [of l] eval_bool [of r] zero_test_bind [of l r] zero_test_bind [of r l] in
        \<open>simp add: UltExpr_create_def UleExpr_create_def SltExpr_create_def SleExpr_create_def creates_Some_iff
           bool_cmps del: cmp_sem.simps\<close>)+

lemma create_cmp_creates:
  assumes "wt l" "wt r" "getWidth l = w" "getWidth r = w" "w \<le> 64"
  shows "creates (create_cmp X k l r) 1 (\<lambda>\<rho>. of_bool (cmp_sem w k (eval \<rho> l) (eval \<rho> r)))"
  using order_creates [OF assms] order_creates [OF assms(2,1,4,3,5)] Eq_create_creates [OF assms] Ne_create_creates [OF assms]
  by (cases k) (simp_all add: Ugt_create_def Uge_create_def Sgt_create_def Sge_create_def)

lemma create_bin_creates:
  assumes "wt l" "wt r" "getWidth l = w" "getWidth r = w" "w \<le> 64" "\<not> is_div k"
  shows "creates (create_bin X k l r) w (\<lambda>\<rho>. bin_sem w k (eval \<rho> l) (eval \<rho> r))"
  using assms AddSub_create_creates [OF assms(1-5)] Mul_create_creates [OF assms(1-5)] And_create_creates [OF assms(1-5)]
    Or_create_creates [OF assms(1-5)] Xor_create_creates [OF assms(1-5)] shift_creates [OF assms(1-5)]
  by (cases k) (simp_all add: is_div_def)

end

section \<open>Extraction and concatenation\<close>

lemma extract_concat_bits:
  fixes L R :: int
  assumes "take_bit wr R = R"
  shows "wr \<le> off \<Longrightarrow> take_bit w (drop_bit off (push_bit wr L OR R)) = take_bit w (drop_bit (off - wr) L)"
    "off + w \<le> wr \<Longrightarrow> take_bit w (drop_bit off (push_bit wr L OR R)) = take_bit w (drop_bit off R)"
    "off < wr \<Longrightarrow> wr < off + w \<Longrightarrow>
     take_bit w (drop_bit off (push_bit wr L OR R)) =
       push_bit (wr - off) (take_bit (w + off - wr) (drop_bit 0 L)) OR take_bit (wr - off) (drop_bit off R)"
proof -
  have R: "bit R n \<Longrightarrow> n < wr" for n using assms by (metis bit_take_bit_iff)
  show "wr \<le> off \<Longrightarrow> take_bit w (drop_bit off (push_bit wr L OR R)) = take_bit w (drop_bit (off - wr) L)"
    by (rule bit_eqI) (use R in \<open>fastforce simp: bit_simps ac_simps\<close>)
  show "off + w \<le> wr \<Longrightarrow> take_bit w (drop_bit off (push_bit wr L OR R)) = take_bit w (drop_bit off R)"
    by (rule bit_eqI) (auto simp: bit_simps)
  show "off < wr \<Longrightarrow> wr < off + w \<Longrightarrow>
     take_bit w (drop_bit off (push_bit wr L OR R)) =
       push_bit (wr - off) (take_bit (w + off - wr) (drop_bit 0 L)) OR take_bit (wr - off) (drop_bit off R)"
    by (rule bit_eqI) (auto simp: bit_simps ac_simps dest: R)
qed

lemma extract_contiguous_bits:
  fixes Z :: int
  shows "push_bit wb (take_bit wa (drop_bit (k + wb) Z)) OR take_bit wb (drop_bit k Z) = take_bit (wa + wb) (drop_bit k Z)"
  by (rule bit_eqI) (auto simp: bit_simps ac_simps)

lemma bit_sval: "n < w \<Longrightarrow> bit (sval w v) n = bit v n"
  by (cases "n = w - 1") (auto simp: sval_def bit_signed_take_bit_iff min_def)

context apint_lib
begin

lemma Constant_Extract_valid:
  assumes "valid c" "0 < w" "off + w \<le> apw c"
  shows "Constant_Extract X c off w = APInt w (take_bit w (drop_bit off (apv c)))"
proof -
  have "take_bit w (take_bit (apw c) (drop_bit off (sval (apw c) (apv c)))) = take_bit w (drop_bit off (apv c))"
    using assms by (intro bit_eqI) (auto simp: bit_take_bit_iff bit_drop_bit_eq bit_sval)
  with assms show ?thesis by (simp add: Constant_Extract_def ap_ashr_by ap_zextOrTrunc valid_def)
qed

lemma Constant_Concat_valid:
  assumes "valid c" "valid d"
  shows "Constant_Concat X c d = Some (APInt (apw c + apw d) (push_bit (apw d) (apv c) OR apv d))"
proof -
  let ?W = "apw c + apw d"
  have b: "bit (apv c) n \<Longrightarrow> n < apw c" "bit (apv d) n \<Longrightarrow> n < apw d" for n
    using assms by (metis bit_take_bit_iff valid_def)+
  have v: "valid (APInt ?W (apv c))" "valid (APInt ?W (apv d))"
    using assms by (auto simp: valid_def bit_take_bit_iff intro!: bit_eqI intro: trans_less_add1 [OF b(1)] trans_less_add2 [OF b(2)])
  have "take_bit ?W (push_bit (apw d) (apv c)) = push_bit (apw d) (apv c)"
    by (intro bit_eqI) (auto simp: bit_take_bit_iff bit_push_bit_iff dest: b(1))
  moreover from this have "take_bit ?W (push_bit (apw d) (apv c) OR apv d) = push_bit (apw d) (apv c) OR apv d"
    using v(2) by (simp add: take_bit_or valid_def)
  moreover have "0 < apw c" "0 < apw d" using assms by (simp_all add: valid_def)
  moreover have "valid (APInt ?W (push_bit (apw d) (apv c)))"
    using calculation by (simp add: valid_def)
  ultimately show ?thesis
    using assms v by (simp add: Constant_Concat_def ap_zext ap_shl_by ap_bin is_div_def bin_sem_def)
qed

lemma concat_fold_creates:
  assumes "wt a" "wt b" "getWidth a = wa" "getWidth b = wb"
    and "\<And>z k wz. contiguous a b = Some (z, k, wz) \<Longrightarrow> wt z \<Longrightarrow> 0 < wz \<Longrightarrow> k + wz \<le> getWidth z \<Longrightarrow>
      creates (ext z k wz) wz (\<lambda>\<rho>. take_bit wz (drop_bit k (eval \<rho> z)))"
  shows "creates (case concat_fold X a b of Some c \<Rightarrow> c | None \<Rightarrow>
      (case contiguous a b of Some (z, k, wz) \<Rightarrow> ext z k wz | None \<Rightarrow> Some (ConcatExpr a b)))
    (wa + wb) (\<lambda>\<rho>. push_bit wb (eval \<rho> a) OR eval \<rho> b)"
proof (cases "concat_fold X a b")
  case (Some x)
  then obtain c d where cd: "a = ConstantExpr c" "b = ConstantExpr d" "x = map_option ConstantExpr (Constant_Concat X c d)"
    by (auto simp: concat_fold_def split: expr.splits)
  have "wt (ConcatExpr a b)" using assms by simp
  from eval_range(1) [OF this] assms cd
  have "valid (APInt (apw c + apw d) (push_bit (apw d) (apv c) OR apv d))" by (auto simp: valid_def)
  with cd assms Some show ?thesis by (simp add: Constant_Concat_valid creates_Some_iff)
next
  case None
  show ?thesis
  proof (cases "contiguous a b")
    case None': None
    with None assms show ?thesis by (simp add: creates_Some_iff)
  next
    case (Some p)
    then obtain z k wz where p: "p = (z, k, wz)" by (cases p)
    with Some obtain ka where ab: "a = ExtractExpr z ka wa" "b = ExtractExpr z k wb" "ka = k + wb" "wz = wa + wb"
      using assms(3,4) by (auto simp: contiguous_Some)
    with assms(1,2) have "creates (ext z k wz) wz (\<lambda>\<rho>. take_bit wz (drop_bit k (eval \<rho> z)))"
      by (intro assms(5)) (use Some p in auto)
    with None Some p ab show ?thesis by (simp add: extract_contiguous_bits)
  qed
qed

text \<open>The branch of \<open>ExtractExpr::create\<close> for an extract that takes bits of both sides of a concatenation.\<close>

lemma extract_straddle:
  assumes lr: "wt l" "wt r" and off: "off < getWidth r" "getWidth r < off + w"
    and ml: "creates ml (w + off - getWidth r) (\<lambda>\<rho>. take_bit (w + off - getWidth r) (drop_bit 0 (eval \<rho> l)))"
    and mr: "creates mr (getWidth r - off) (\<lambda>\<rho>. take_bit (getWidth r - off) (drop_bit off (eval \<rho> r)))"
    and ext: "\<And>a b z k wz. ml = Some a \<Longrightarrow> mr = Some b \<Longrightarrow> concat_fold X a b = None \<Longrightarrow>
      contiguous a b = Some (z, k, wz) \<Longrightarrow> wt z \<Longrightarrow> 0 < wz \<Longrightarrow> k + wz \<le> getWidth z \<Longrightarrow>
      creates (ext z k wz) wz (\<lambda>\<rho>. take_bit wz (drop_bit k (eval \<rho> z)))"
  shows "creates (Option.bind ml (\<lambda>a. Option.bind mr (\<lambda>b.
      case concat_fold X a b of Some c \<Rightarrow> c | None \<Rightarrow>
        (case contiguous a b of Some (z, k, wz) \<Rightarrow> ext z k wz | None \<Rightarrow> Some (ConcatExpr a b)))))
    w (\<lambda>\<rho>. take_bit w (drop_bit off (eval \<rho> (ConcatExpr l r))))"
proof -
  from ml obtain a where a: "ml = Some a" "wt a" "getWidth a = w + off - getWidth r"
    "\<And>\<rho>. eval \<rho> a = take_bit (w + off - getWidth r) (drop_bit 0 (eval \<rho> l))" by (rule createsE) blast
  from mr obtain b where b: "mr = Some b" "wt b" "getWidth b = getWidth r - off"
    "\<And>\<rho>. eval \<rho> b = take_bit (getWidth r - off) (drop_bit off (eval \<rho> r))" by (rule createsE) blast
  have no: "contiguous a b = Some x \<Longrightarrow> concat_fold X a b = None" for x
    by (auto simp: concat_fold_def contiguous_def split: expr.splits)
  have "creates (case concat_fold X a b of Some c \<Rightarrow> c | None \<Rightarrow>
      (case contiguous a b of Some (z, k, wz) \<Rightarrow> ext z k wz | None \<Rightarrow> Some (ConcatExpr a b)))
      (getWidth a + getWidth b) (\<lambda>\<rho>. push_bit (getWidth b) (eval \<rho> a) OR eval \<rho> b)"
    by (rule concat_fold_creates [OF a(2) b(2) refl refl]) (use ext [OF a(1) b(1)] no in blast)
  moreover have "take_bit w (drop_bit off (eval \<rho> (ConcatExpr l r))) = push_bit (getWidth b) (eval \<rho> a) OR eval \<rho> b" for \<rho>
    unfolding eval.simps a b using off lr by (intro extract_concat_bits(3)) simp_all
  ultimately show ?thesis using off a(1,3) b(1,3) by simp
qed

end

lemma Extract_create_creates:
  "apint_lib X \<Longrightarrow> wt e \<Longrightarrow> 0 < w \<Longrightarrow> off + w \<le> getWidth e \<Longrightarrow>
   creates (Extract_create X e off w) w (\<lambda>\<rho>. take_bit w (drop_bit off (eval \<rho> e)))"
proof (induction X e off w rule: Extract_create.induct)
  case (1 X e off w)
  note P = 1(6-9)
  show ?case
  proof (cases "w = getWidth e")
    case True
    with P show ?thesis by (simp add: Extract_create.simps creates_Some_iff)
  next
    case nf: False
    show ?thesis
    proof (cases e)
      case (ConstantExpr c)
      with P nf apint_lib.Constant_Extract_valid [OF P(1), of c w off] show ?thesis
        by (simp add: Extract_create.simps creates_Some_iff)
    next
      case (ConcatExpr l r)
      note IH = 1(1-5) [OF refl _ nf ConcatExpr]
      have lr: "wt l" "wt r" and R: "take_bit (getWidth r) (eval \<rho> r) = eval \<rho> r" for \<rho> using P ConcatExpr by simp_all
      note bits = extract_concat_bits [OF R]
      note unf = Extract_create.simps [of X "ConcatExpr l r"]
      consider (left) "getWidth r \<le> off" | (right) "\<not> getWidth r \<le> off" "off + w \<le> getWidth r"
        | (both) "\<not> getWidth r \<le> off" "\<not> off + w \<le> getWidth r" by blast
      then show ?thesis
      proof cases
        case left
        have "take_bit w (drop_bit off (eval \<rho> e)) = take_bit w (drop_bit (off - getWidth r) (eval \<rho> l))" for \<rho>
          unfolding ConcatExpr eval.simps using left by (rule bits(1))
        moreover have "Extract_create X e off w = Extract_create X l (off - getWidth r) w"
          using P nf left ConcatExpr by (simp add: unf)
        ultimately show ?thesis using IH(1) P lr left ConcatExpr by simp
      next
        case right
        have "take_bit w (drop_bit off (eval \<rho> e)) = take_bit w (drop_bit off (eval \<rho> r))" for \<rho>
          unfolding ConcatExpr eval.simps using right(2) by (rule bits(2))
        moreover have "Extract_create X e off w = Extract_create X r off w"
          using P nf right ConcatExpr by (simp add: unf)
        ultimately show ?thesis using IH(2) P lr right ConcatExpr by simp
      next
        case both
        have "creates (Extract_create X l 0 (w + off - getWidth r)) (w + off - getWidth r)
            (\<lambda>\<rho>. take_bit (w + off - getWidth r) (drop_bit 0 (eval \<rho> l)))"
          using IH(3) P lr both ConcatExpr by simp
        moreover from this have "creates (Extract_create X r off (getWidth r - off)) (getWidth r - off)
            (\<lambda>\<rho>. take_bit (getWidth r - off) (drop_bit off (eval \<rho> r)))"
          by (elim createsE) (use IH(4) [OF _ both] P lr both ConcatExpr in auto)
        ultimately have "creates (Option.bind (Extract_create X l 0 (w + off - getWidth r)) (\<lambda>a.
            Option.bind (Extract_create X r off (getWidth r - off)) (\<lambda>b.
              case concat_fold X a b of Some c \<Rightarrow> c | None \<Rightarrow>
                (case contiguous a b of Some (z, k, wz) \<Rightarrow> Extract_create X z k wz | None \<Rightarrow> Some (ConcatExpr a b)))))
            w (\<lambda>\<rho>. take_bit w (drop_bit off (eval \<rho> (ConcatExpr l r))))"
          by (intro apint_lib.extract_straddle [OF P(1) lr]) (use both P IH(5) [OF _ both _ _ _ _ refl refl P(1)] in auto)
        with P nf both ConcatExpr show ?thesis by (simp add: unf)
      qed
    qed (use P nf in \<open>simp_all add: Extract_create.simps creates_Some_iff\<close>)
  qed
qed

section \<open>Casts, selection and reads\<close>

lemma sext_trunc: "w \<le> v \<Longrightarrow> take_bit w (sval v a) = take_bit w a"
  by (rule bit_eqI) (auto simp: bit_take_bit_iff bit_sval)

lemma case_not_const:
  "\<nexists>c. e = ConstantExpr c \<Longrightarrow>
   case_expr f (\<lambda>_. g) (\<lambda>_ _ _. g) (\<lambda>_ _ _. g) (\<lambda>_ _. g) (\<lambda>_ _ _. g) (\<lambda>_. g) (\<lambda>_ _ _. g) (\<lambda>_ _ _. g) (\<lambda>_ _ _. g) e = g"
  by (cases e) auto

context apint_default
begin

lemmas Extract_creates = Extract_create_creates [OF apint_lib_axioms]

lemma Concat_create_creates:
  assumes "wt l" "wt r" "getWidth l = wl" "getWidth r = wr"
  shows "creates (Concat_create X l r) (wl + wr) (\<lambda>\<rho>. push_bit wr (eval \<rho> l) OR eval \<rho> r)"
proof -
  have "Concat_create X l r = (case concat_fold X l r of Some c \<Rightarrow> c | None \<Rightarrow>
      (case contiguous l r of Some (z, k, wz) \<Rightarrow> Extract_create X z k wz | None \<Rightarrow> Some (ConcatExpr l r)))"
    by (auto simp: Concat_create_def contiguous_Some split: option.splits)
  with concat_fold_creates [OF assms, of "Extract_create X"] Extract_creates show ?thesis by simp
qed

lemma Not_create_creates:
  assumes "wt e" "getWidth e = w"
  shows "creates (Not_create X e) w (\<lambda>\<rho>. take_bit w (NOT (eval \<rho> e)))"
  using assms by (cases e) (simp_all add: Not_create_def creates_Some_iff Constant_Not_def ap_not valid_def)

lemma ZExt_create_creates:
  assumes "wt e" "0 < w"
  shows "creates (ZExt_create X e w) w (\<lambda>\<rho>. ext_sem ZExt (getWidth e) w (eval \<rho> e))"
proof -
  consider "w = getWidth e" | "w < getWidth e" | "getWidth e < w" by linarith
  then show ?thesis
  proof cases
    case 2
    with assms Extract_creates [of e w 0] show ?thesis by (simp add: ZExt_create_def)
  next
    case 3
    with assms show ?thesis
      by (cases e) (simp_all add: ZExt_create_def creates_Some_iff Constant_ZExt_def ap_zextOrTrunc)
  qed (use assms in \<open>simp add: ZExt_create_def creates_Some_iff\<close>)
qed

lemma SExt_create_creates:
  assumes "wt e" "0 < w"
  shows "creates (SExt_create X e w) w (\<lambda>\<rho>. ext_sem SExt (getWidth e) w (eval \<rho> e))"
proof -
  consider "w = getWidth e" | "w < getWidth e" | "getWidth e < w" by linarith
  then show ?thesis
  proof cases
    case 2
    with assms Extract_creates [of e w 0] show ?thesis by (simp add: SExt_create_def sext_trunc)
  next
    case 3
    with assms show ?thesis
      by (cases e) (simp_all add: SExt_create_def creates_Some_iff Constant_SExt_def ap_sextOrTrunc)
  qed (use assms in \<open>simp add: SExt_create_def creates_Some_iff sext_trunc\<close>)
qed

lemma Select_bool_true:
  assumes "wt c" "wt t" "wt f" "getWidth c = 1" "getWidth t = 1" "getWidth f = 1" "t = ConstantExpr ct"
  shows "creates (Option.bind (isTrue X ct) (\<lambda>b. if b then Or_create X c f
      else Option.bind (createIsZero X c) (\<lambda>z. And_create X z f))) 1
    (\<lambda>\<rho>. if eval \<rho> c = 1 then eval \<rho> t else eval \<rho> f)"
proof -
  have b: "eval \<rho> c = 0 \<or> eval \<rho> c = 1" "eval \<rho> f = 0 \<or> eval \<rho> f = 1" for \<rho> using assms eval_bool by blast+
  have ct: "valid ct" "apw ct = 1" "apv ct = 0 \<or> apv ct = 1" using assms valid_bool by auto
  have "bin_sem 1 Or (eval \<rho> c) (eval \<rho> f) = (if eval \<rho> c = 1 then 1 else eval \<rho> f)"
    "bin_sem 1 And (of_bool (eval \<rho> c = 0)) (eval \<rho> f) = (if eval \<rho> c = 1 then 0 else eval \<rho> f)" for \<rho>
    using b [of \<rho>] by (auto simp: bin_sem_def)
  with Or_create_creates [of c f 1] zero_test_bind(2) [of f c] assms ct show ?thesis
    by (auto simp: isTrue_valid cong: if_cong)
qed

lemma Select_bool_false:
  assumes "wt c" "wt t" "wt f" "getWidth c = 1" "getWidth t = 1" "getWidth f = 1" "f = ConstantExpr cf"
  shows "creates (Option.bind (isTrue X cf) (\<lambda>b. if b then Option.bind (createIsZero X c) (\<lambda>z. Or_create X z t)
      else And_create X c t)) 1 (\<lambda>\<rho>. if eval \<rho> c = 1 then eval \<rho> t else eval \<rho> f)"
proof -
  have b: "eval \<rho> c = 0 \<or> eval \<rho> c = 1" "eval \<rho> t = 0 \<or> eval \<rho> t = 1" for \<rho> using assms eval_bool by blast+
  have cf: "valid cf" "apw cf = 1" "apv cf = 0 \<or> apv cf = 1" using assms valid_bool by auto
  have "bin_sem 1 And (eval \<rho> c) (eval \<rho> t) = (if eval \<rho> c = 1 then eval \<rho> t else 0)"
    "bin_sem 1 Or (of_bool (eval \<rho> c = 0)) (eval \<rho> t) = (if eval \<rho> c = 1 then eval \<rho> t else 1)" for \<rho>
    using b [of \<rho>] by (auto simp: bin_sem_def)
  with And_create_creates [of c t 1] zero_test_bind(4) [of t c] assms cf show ?thesis
    by (auto simp: isTrue_valid cong: if_cong)
qed

lemma Select_create_creates:
  assumes "wt c" "wt t" "wt f" "getWidth c = 1" "getWidth t = w" "getWidth f = w"
  shows "creates (Select_create X c t f) w (\<lambda>\<rho>. if eval \<rho> c = 1 then eval \<rho> t else eval \<rho> f)"
proof -
  have alloc: "creates (Some (SelectExpr c t f)) w (\<lambda>\<rho>. if eval \<rho> c = 1 then eval \<rho> t else eval \<rho> f)"
    using assms by (simp add: creates_Some_iff)
  consider (c) cc where "c = ConstantExpr cc" | (same) "\<nexists>cc. c = ConstantExpr cc" "t = f"
    | (wide) "\<nexists>cc. c = ConstantExpr cc" "t \<noteq> f" "w \<noteq> 1"
    | (t) ct where "\<nexists>cc. c = ConstantExpr cc" "t \<noteq> f" "w = 1" "t = ConstantExpr ct"
    | (f) cf where "\<nexists>cc. c = ConstantExpr cc" "t \<noteq> f" "w = 1" "\<nexists>ct. t = ConstantExpr ct" "f = ConstantExpr cf"
    | (no) "\<nexists>cc. c = ConstantExpr cc" "t \<noteq> f" "w = 1" "\<nexists>ct. t = ConstantExpr ct" "\<nexists>cf. f = ConstantExpr cf"
    by metis
  then show ?thesis
  proof cases
    case c
    with assms show ?thesis by (auto simp: Select_create_def isTrue_valid creates_Some_iff)
  next
    case same
    with assms show ?thesis by (simp add: Select_create_def case_not_const creates_Some_iff)
  next
    case wide
    with assms alloc show ?thesis by (simp add: Select_create_def case_not_const)
  next
    case t
    then have "Select_create X c t f = Option.bind (isTrue X ct) (\<lambda>b. if b then Or_create X c f
        else Option.bind (createIsZero X c) (\<lambda>z. And_create X z f))"
      using assms by (simp add: Select_create_def case_not_const)
    with t assms Select_bool_true [of c t f ct] show ?thesis by simp
  next
    case f
    then have "Select_create X c t f = Option.bind (isTrue X cf) (\<lambda>b. if b
        then Option.bind (createIsZero X c) (\<lambda>z. Or_create X z t) else And_create X c t)"
      using assms by (simp add: Select_create_def case_not_const)
    with f assms Select_bool_false [of c t f cf] show ?thesis by simp
  next
    case no
    with assms alloc show ?thesis by (simp add: Select_create_def case_not_const)
  qed
qed

lemma Read_loop_creates:
  assumes "wt i" "getWidth i = 32" "array_ok root" "wt_nodes us" "wt alloc" "getWidth alloc = 8"
    and "\<And>\<rho>. eval \<rho> alloc = read_nodes \<rho> root us (eval \<rho> i)"
  shows "creates (Read_create_loop X i us alloc) 8 (\<lambda>\<rho>. eval \<rho> alloc)"
  using assms(4,7)
proof (induction us)
  case Nil
  with assms show ?case by (simp add: creates_Some_iff)
next
  case (Cons u us)
  obtain ui uv where u: "u = (ui, uv)" by (cases u)
  with Cons have uw: "wt ui" "getWidth ui = 32" "wt uv" "getWidth uv = 8" "wt_nodes us" by simp_all
  from Eq_create_creates [OF assms(1) uw(1) assms(2) uw(2)] obtain cond where
    c: "Eq_create X i ui = Some cond" "wt cond" "getWidth cond = 1" "\<And>\<rho>. eval \<rho> cond = of_bool (eval \<rho> i = eval \<rho> ui)"
    by (auto elim: createsE)
  show ?case
  proof (cases cond)
    case (ConstantExpr ce)
    with c(2,3) have ce: "valid ce" "apw ce = 1" by simp_all
    have eq: "(apv ce = 1) = (eval \<rho> i = eval \<rho> ui)" for \<rho>
      using c(4) [of \<rho>] ConstantExpr by simp
    show ?thesis
    proof (cases "apv ce = 1")
      case True
      with eq Cons.prems u uw have "\<And>\<rho>. eval \<rho> alloc = eval \<rho> uv" by simp
      with True ConstantExpr c u uw ce show ?thesis by (simp add: isTrue_valid creates_Some_iff)
    next
      case False
      with eq Cons.prems u have "\<And>\<rho>. eval \<rho> alloc = read_nodes \<rho> root us (eval \<rho> i)" by simp metis
      with False ConstantExpr c u uw ce Cons.IH show ?thesis by (simp add: isTrue_valid)
    qed
  qed (use c u assms in \<open>simp_all add: creates_Some_iff\<close>)
qed

lemma Read_create_creates:
  assumes "wt i" "getWidth i = 32" "array_ok root" "wt_nodes us"
  shows "creates (Read_create X root us i) 8 (\<lambda>\<rho>. read_nodes \<rho> root us (eval \<rho> i))"
  using Read_loop_creates [OF assms, of "ReadExpr root us i"] assms by (simp add: Read_create_def)

end

section \<open>Little-endian reads of an array\<close>

fun bytes_val :: "(nat \<Rightarrow> int) \<Rightarrow> nat \<Rightarrow> int" where
  "bytes_val f 0 = 0"
| "bytes_val f (Suc n) = push_bit (8 * n) (f n) OR bytes_val f n"

context apint_default
begin

lemma Concat_bind:
  assumes "creates m wr f" "wt l" "getWidth l = wl"
  shows "creates (Option.bind m (\<lambda>r. Concat_create X l r)) (wl + wr) (\<lambda>\<rho>. push_bit wr (eval \<rho> l) OR f \<rho>)"
  using creates_bind_eval [OF assms(1), where h = "\<lambda>\<rho> x. push_bit wr (eval \<rho> l) OR x"]
    Concat_create_creates [OF assms(2) _ assms(3)] by blast

lemma read_byte_creates:
  "array_ok a \<Longrightarrow> i < 2 ^ 32 \<Longrightarrow> creates (read_byte X a i) 8 (\<lambda>\<rho>. array_val \<rho> a (int i))"
proof -
  assume a: "array_ok a" "i < 2 ^ 32"
  then have "take_bit 32 (int i mod 2 ^ 64) = int i"
    by (simp add: take_bit_eq_mod)
  with a Read_create_creates [of "ConstantExpr (Constant_alloc X (of_nat i) 32)" a "[]"] show ?thesis
    by (simp add: read_byte_def unsigned_of_nat take_bit_of_nat take_bit_eq_mod)
qed

lemma Concat4_creates:
  assumes "list_all (\<lambda>k. wt k \<and> getWidth k = 8) [k1, k2, k3, k4]"
  shows "creates (Concat_create4 X k1 k2 k3 k4) 32
    (\<lambda>\<rho>. push_bit 24 (eval \<rho> k1) OR (push_bit 16 (eval \<rho> k2) OR (push_bit 8 (eval \<rho> k3) OR eval \<rho> k4)))"
  unfolding Concat_create4_def
  using Concat_bind [OF Concat_bind [OF Concat_create_creates [of k3 k4 8 8], of k2 8], of k1 8] assms
  by (simp add: Option.bind_assoc)

lemma Concat8_creates:
  assumes "list_all (\<lambda>k. wt k \<and> getWidth k = 8) [k1, k2, k3, k4, k5, k6, k7, k8]"
  shows "creates (Concat_create8 X k1 k2 k3 k4 k5 k6 k7 k8) 64
    (\<lambda>\<rho>. push_bit 56 (eval \<rho> k1) OR (push_bit 48 (eval \<rho> k2) OR (push_bit 40 (eval \<rho> k3) OR (push_bit 32 (eval \<rho> k4) OR
      (push_bit 24 (eval \<rho> k5) OR (push_bit 16 (eval \<rho> k6) OR (push_bit 8 (eval \<rho> k7) OR eval \<rho> k8)))))))"
  unfolding Concat_create8_def
  using Concat_bind [OF Concat_bind [OF Concat_bind [OF Concat_bind [OF Concat4_creates [of k5 k6 k7 k8], of k4 8], of k3 8], of k2 8], of k1 8] assms
  by (simp add: Option.bind_assoc)

lemma createTempRead_creates:
  assumes "array_ok a" "n \<in> {1, 2, 4, 8}"
  shows "creates (createTempRead X a (8 * n)) (8 * n) (\<lambda>\<rho>. bytes_val (\<lambda>i. array_val \<rho> a (int i)) n)"
proof -
  have "\<exists>e. read_byte X a i = Some e \<and> wt e \<and> getWidth e = 8 \<and> (\<forall>\<rho>. eval \<rho> e = array_val \<rho> a (int i))" if "i < 8" for i
    using read_byte_creates [OF assms(1), of i] that by (auto elim!: createsE)
  then obtain b where b: "\<And>i. i < 8 \<Longrightarrow> read_byte X a i = Some (b i)" "\<And>i. i < 8 \<Longrightarrow> wt (b i) \<and> getWidth (b i) = 8"
    "\<And>i \<rho>. i < 8 \<Longrightarrow> eval \<rho> (b i) = array_val \<rho> a (int i)"
    by metis
  have "bytes_val f 2 = push_bit 8 (f 1) OR f 0" "bytes_val f 4 = push_bit 24 (f 3) OR (push_bit 16 (f 2) OR (push_bit 8 (f 1) OR f 0))"
    "bytes_val f 8 = push_bit 56 (f 7) OR (push_bit 48 (f 6) OR (push_bit 40 (f 5) OR (push_bit 32 (f 4) OR
      (push_bit 24 (f 3) OR (push_bit 16 (f 2) OR (push_bit 8 (f 1) OR f 0))))))" for f
    by (simp_all add: eval_nat_numeral)
  then show ?thesis
    using assms(2) b(1) b(2) [of 0] b(2) [of 1] Concat_create_creates [of "b 1" "b 0" 8 8]
      Concat4_creates [of "b 3" "b 2" "b 1" "b 0"] Concat8_creates [of "b 7" "b 6" "b 5" "b 4" "b 3" "b 2" "b 1" "b 0"]
    by (auto simp: createTempRead_def b creates_Some_iff)
qed

end

section \<open>The properties\<close>

text \<open>The arguments \<open>createFromKind\<close> accepts, with the width and the value of what they stand for; a division by zero has none.\<close>

fun args_ok :: "kind \<Rightarrow> create_arg list \<Rightarrow> bool" where
  "args_ok KNotOptimized [ExprArg e] = wt e"
| "args_ok KSelect [ExprArg c, ExprArg t, ExprArg f] =
     (wt c \<and> wt t \<and> wt f \<and> getWidth c = 1 \<and> getWidth t = getWidth f)"
| "args_ok KConcat [ExprArg l, ExprArg r] = (wt l \<and> wt r)"
| "args_ok (KCast k) [ExprArg e, WidthArg w] = (wt e \<and> 0 < w)"
| "args_ok (KBin k) [ExprArg l, ExprArg r] =
     (wt l \<and> wt r \<and> getWidth l = getWidth r \<and> getWidth r \<le> 64 \<and>
      (is_div k \<longrightarrow> (case r of ConstantExpr d \<Rightarrow> apv d \<noteq> 0 | _ \<Rightarrow> True)))"
| "args_ok (KCmp k) [ExprArg l, ExprArg r] =
     (wt l \<and> wt r \<and> getWidth l = getWidth r \<and> getWidth r \<le> 64)"
| "args_ok _ _ = False"

fun kind_width :: "kind \<Rightarrow> create_arg list \<Rightarrow> nat" where
  "kind_width KNotOptimized [ExprArg e] = getWidth e"
| "kind_width KSelect [ExprArg c, ExprArg t, ExprArg f] = getWidth t"
| "kind_width KConcat [ExprArg l, ExprArg r] = getWidth l + getWidth r"
| "kind_width (KCast k) [ExprArg e, WidthArg w] = w"
| "kind_width (KBin k) [ExprArg l, ExprArg r] = getWidth l"
| "kind_width _ _ = 1"

fun kind_sem :: "assignment \<Rightarrow> kind \<Rightarrow> create_arg list \<Rightarrow> int option" where
  "kind_sem \<rho> KNotOptimized [ExprArg e] = Some (eval \<rho> e)"
| "kind_sem \<rho> KSelect [ExprArg c, ExprArg t, ExprArg f] = Some (if eval \<rho> c = 1 then eval \<rho> t else eval \<rho> f)"
| "kind_sem \<rho> KConcat [ExprArg l, ExprArg r] = Some (push_bit (getWidth r) (eval \<rho> l) OR eval \<rho> r)"
| "kind_sem \<rho> (KCast k) [ExprArg e, WidthArg w] = Some (ext_sem k (getWidth e) w (eval \<rho> e))"
| "kind_sem \<rho> (KBin k) [ExprArg l, ExprArg r] =
     (if is_div k \<and> eval \<rho> r = 0 then None else Some (bin_sem (getWidth l) k (eval \<rho> l) (eval \<rho> r)))"
| "kind_sem \<rho> (KCmp k) [ExprArg l, ExprArg r] = Some (of_bool (cmp_sem (getWidth l) k (eval \<rho> l) (eval \<rho> r)))"
| "kind_sem \<rho> _ _ = None"

lemma apint_defaultI: "apint_lib X \<Longrightarrow> \<not> ConstArrayOpt X \<Longrightarrow> apint_default X"
  by (simp add: apint_default_def apint_default_axioms_def)

text \<open>
  C2: \<open>Expr::createFromKind\<close>, and with it every canonicalising constructor it dispatches to, is
  total and sound. On operands of equal width up to 64 bits (any width for selections,
  concatenations and casts) it never fails an assertion; the result is well-typed, has the width
  of the operation, and denotes, under every assignment of the symbolic arrays, the value of the
  unsimplified operation. For a division this holds wherever the divisor is not zero.
\<close>

theorem createFromKind_sound:
  assumes "apint_lib X" "\<not> ConstArrayOpt X" "args_ok k args"
  shows "\<exists>e. createFromKind X k args = Some e \<and> wt e \<and> getWidth e = kind_width k args \<and>
    (\<forall>\<rho> v. kind_sem \<rho> k args = Some v \<longrightarrow> eval \<rho> e = v)"
proof -
  note X = apint_defaultI [OF assms(1,2)]
  from assms(3) show ?thesis
  proof (cases "(k, args)" rule: args_ok.cases)
    case (1 e)
    with assms(3) show ?thesis by (simp add: NotOptimized_create_def)
  next
    case (2 c t f)
    with assms(3) apint_default.Select_create_creates [OF X, of c t f "getWidth t"] show ?thesis
      by (auto elim!: createsE)
  next
    case (3 l r)
    with assms(3) apint_default.Concat_create_creates [OF X, of l r "getWidth l" "getWidth r"] show ?thesis
      by (auto elim!: createsE)
  next
    case (4 c e w)
    with assms(3) apint_default.ZExt_create_creates [OF X, of e w] apint_default.SExt_create_creates [OF X, of e w]
    show ?thesis by (cases c) (auto elim!: createsE)
  next
    case (5 c l r)
    then have lr: "wt l" "wt r" "getWidth r = getWidth l" "getWidth l \<le> 64" using assms(3) by simp_all
    show ?thesis
    proof (cases "is_div c")
      case True
      have nz: "apv d \<noteq> 0" if "r = ConstantExpr d" for d using that 5 assms(3) True by simp
      from apint_default.div_creates [OF X lr(1,2) refl lr(3) True nz] obtain e where
        "create_bin X c l r = Some e" "wt e" "getWidth e = getWidth l"
        "\<And>\<rho>. eval \<rho> r \<noteq> 0 \<Longrightarrow> eval \<rho> e = bin_sem (getWidth l) c (eval \<rho> l) (eval \<rho> r)" by blast
      with 5 True show ?thesis by simp
    next
      case False
      from apint_default.create_bin_creates [OF X lr(1,2) refl lr(3,4) False] obtain e where
        "create_bin X c l r = Some e" "wt e" "getWidth e = getWidth l"
        "\<And>\<rho>. eval \<rho> e = bin_sem (getWidth l) c (eval \<rho> l) (eval \<rho> r)" by (rule createsE) blast
      with 5 False show ?thesis by simp
    qed
  next
    case (6 c l r)
    with assms(3) apint_default.create_cmp_creates [OF X, of l r "getWidth l" c] show ?thesis
      by (auto elim!: createsE)
  qed simp_all
qed

theorem createFromKind_sound_witness:
  "\<exists>e. createFromKind llvm_env (KBin Add)
      [ExprArg (ConstantExpr (APInt 8 200)), ExprArg (ReadExpr (Array 1 ''a'' 4 []) [] (ConstantExpr (APInt 32 2)))] = Some e \<and>
    wt e \<and> getWidth e = 8 \<and> (\<forall>\<rho>. \<rho> (Array 1 ''a'' 4 []) 2 = 100 \<longrightarrow> eval \<rho> e = 44)"
proof -
  have "take_bit 8 (100::int) = 100" "take_bit 8 (200::int) = 200" "take_bit 8 (300::int) = 44" "take_bit 32 (2::int) = 2"
    by (simp_all add: take_bit_eq_mod)
  then show ?thesis
    using createFromKind_sound [of llvm_env "KBin Add"
        "[ExprArg (ConstantExpr (APInt 8 200)), ExprArg (ReadExpr (Array 1 ''a'' 4 []) [] (ConstantExpr (APInt 32 2)))]",
        OF llvm.apint_lib_axioms llvm_default.no_const_array_opt]
    by (auto simp: valid_def array_ok_def is_div_def array_val_def bin_sem_def)
qed

text \<open>
  C19: \<open>ExtractExpr::create\<close> on any well-typed expression and any in-range bit field ends without a
  failed assertion, and the expression it returns denotes exactly the bits \<open>off\<close> to
  \<open>off + w - 1\<close>, whichever of its rewritings of constants and (nested) concatenations applied.
\<close>

theorem Extract_create_sound:
  assumes "apint_lib X" "wt e" "0 < w" "off + w \<le> getWidth e"
  shows "\<exists>e'. Extract_create X e off w = Some e' \<and> wt e' \<and> getWidth e' = w \<and>
    (\<forall>\<rho>. eval \<rho> e' = take_bit w (drop_bit off (eval \<rho> e)))"
  using Extract_create_creates [OF assms] by (auto elim!: createsE)

theorem Extract_create_sound_witness:
  "\<exists>e'. Extract_create llvm_env (ConcatExpr (ConstantExpr (APInt 8 3)) (NotOptimizedExpr (ConstantExpr (APInt 8 128)))) 7 2 = Some e' \<and>
    wt e' \<and> getWidth e' = 2 \<and> (\<forall>\<rho>. eval \<rho> e' = 3)"
  using Extract_create_sound [of llvm_env "ConcatExpr (ConstantExpr (APInt 8 3)) (NotOptimizedExpr (ConstantExpr (APInt 8 128)))" 2 7,
      OF llvm.apint_lib_axioms]
  by (simp add: valid_def take_bit_eq_mod)

text \<open>
  C21: extracting the two parts of a concatenation gives back its operands: for all well-typed
  \<open>l\<close> and \<open>r\<close>, the low bits of \<open>ConcatExpr::create(l, r)\<close> denote \<open>r\<close> and the high
  bits denote \<open>l\<close>.
\<close>

theorem Concat_Extract_roundtrip:
  assumes "apint_lib X" "\<not> ConstArrayOpt X" "wt l" "wt r"
  shows "\<exists>c lo hi. Concat_create X l r = Some c \<and>
    Extract_create X c 0 (getWidth r) = Some lo \<and> Extract_create X c (getWidth r) (getWidth l) = Some hi \<and>
    (\<forall>\<rho>. eval \<rho> lo = eval \<rho> r \<and> eval \<rho> hi = eval \<rho> l)"
proof -
  note X = apint_defaultI [OF assms(1,2)]
  have w: "0 < getWidth l" "0 < getWidth r" using assms wt_width by blast+
  from apint_default.Concat_create_creates [OF X assms(3,4) refl refl] obtain c where
    c: "Concat_create X l r = Some c" "wt c" "getWidth c = getWidth l + getWidth r"
      "\<And>\<rho>. eval \<rho> c = push_bit (getWidth r) (eval \<rho> l) OR eval \<rho> r" by (auto elim!: createsE)
  note bits = extract_concat_bits [OF eval_range(1) [OF assms(4)]]
  have lo: "take_bit (getWidth r) (drop_bit 0 (eval \<rho> c)) = eval \<rho> r" for \<rho>
    unfolding c by (subst bits(2)) (simp_all add: assms)
  have hi: "take_bit (getWidth l) (drop_bit (getWidth r) (eval \<rho> c)) = eval \<rho> l" for \<rho>
    unfolding c by (subst bits(1)) (simp_all add: assms)
  from Extract_create_creates [OF assms(1) c(2), of "getWidth r" 0]
    Extract_create_creates [OF assms(1) c(2), of "getWidth l" "getWidth r"] w c(1,3)
  obtain elo ehi where "Extract_create X c 0 (getWidth r) = Some elo" "\<And>\<rho>. eval \<rho> elo = eval \<rho> r"
    "Extract_create X c (getWidth r) (getWidth l) = Some ehi" "\<And>\<rho>. eval \<rho> ehi = eval \<rho> l"
    unfolding lo hi by (auto elim!: createsE)
  with c(1) show ?thesis by auto
qed

theorem Concat_Extract_roundtrip_witness:
  "\<exists>c lo hi. Concat_create llvm_env (ConstantExpr (APInt 8 3)) (NotExpr (NotOptimizedExpr (ConstantExpr (APInt 16 7)))) = Some c \<and>
    Extract_create llvm_env c 0 16 = Some lo \<and> Extract_create llvm_env c 16 8 = Some hi \<and>
    (\<forall>\<rho>. eval \<rho> lo = 65528 \<and> eval \<rho> hi = 3)"
  using Concat_Extract_roundtrip [of llvm_env "ConstantExpr (APInt 8 3)" "NotExpr (NotOptimizedExpr (ConstantExpr (APInt 16 7)))",
      OF llvm.apint_lib_axioms llvm_default.no_const_array_opt]
  by (simp add: valid_def take_bit_eq_mod not_int_def)

text \<open>
  C20: \<open>ReadExpr::create\<close> skips and short-cuts update nodes without changing what is read. For a
  well-typed update list and 32-bit index the expression it returns denotes the value of the most
  recent update at that index, or of the array when there is none.
\<close>

theorem Read_create_sound:
  assumes "apint_lib X" "\<not> ConstArrayOpt X" "wt i" "getWidth i = 32" "array_ok root" "wt_nodes us"
  shows "\<exists>e. Read_create X root us i = Some e \<and> wt e \<and> getWidth e = 8 \<and>
    (\<forall>\<rho>. eval \<rho> e = read_nodes \<rho> root us (eval \<rho> i))"
  using apint_default.Read_create_creates [OF apint_defaultI [OF assms(1,2)] assms(3-6)] by (auto elim!: createsE)

theorem Read_create_sound_witness:
  "\<exists>e. Read_create llvm_env (Array 1 ''a'' 4 [])
      [(ConstantExpr (APInt 32 1), ConstantExpr (APInt 8 10)), (ConstantExpr (APInt 32 2), ConstantExpr (APInt 8 20))]
      (ConstantExpr (APInt 32 2)) = Some e \<and>
    wt e \<and> getWidth e = 8 \<and> (\<forall>\<rho>. eval \<rho> e = 20)"
  using Read_create_sound [of llvm_env "ConstantExpr (APInt 32 2)" "Array 1 ''a'' 4 []"
      "[(ConstantExpr (APInt 32 1), ConstantExpr (APInt 8 10)), (ConstantExpr (APInt 32 2), ConstantExpr (APInt 8 20))]",
      OF llvm.apint_lib_axioms llvm_default.no_const_array_opt]
  by (simp add: valid_def take_bit_eq_mod array_ok_def)

text \<open>
  C22: \<open>Expr::createTempRead\<close> for 8, 16, 32 and 64 bits denotes the little-endian number in the
  first bytes of the array.
\<close>

theorem createTempRead_little_endian:
  assumes "apint_lib X" "\<not> ConstArrayOpt X" "array_ok a" "n \<in> {1, 2, 4, 8}"
  shows "\<exists>e. createTempRead X a (8 * n) = Some e \<and> wt e \<and> getWidth e = 8 * n \<and>
    (\<forall>\<rho>. eval \<rho> e = bytes_val (\<lambda>i. array_val \<rho> a (int i)) n)"
  using apint_default.createTempRead_creates [OF apint_defaultI [OF assms(1,2)] assms(3,4)] by (auto elim!: createsE)

theorem createTempRead_little_endian_witness:
  "\<exists>e. createTempRead llvm_env (Array 1 ''a'' 4 [APInt 8 1, APInt 8 2]) (8 * 2) = Some e \<and> wt e \<and> getWidth e = 8 * 2 \<and>
    (\<forall>\<rho>. eval \<rho> e = 513)"
  using createTempRead_little_endian [of llvm_env "Array 1 ''a'' 4 [APInt 8 1, APInt 8 2]" 2,
      OF llvm.apint_lib_axioms llvm_default.no_const_array_opt]
  by (simp add: array_ok_def valid_def take_bit_eq_mod array_val_def eval_nat_numeral)

end
