(* ===== verification/Memory.thy ===== *)
theory Memory
  imports Expr
begin

text \<open>
  Memory objects and their contents: \<open>lib/Core/Memory.h\<close>, \<open>lib/Core/Memory.cpp\<close> and the
  bit masks of \<open>include/klee/util/BitArray.h\<close>. An \<open>ObjectState\<close> keeps a byte in up to three
  places: the concrete store, the cache of known symbolic values, and the update list of the
  array. The masks say which of them is current.

  \<open>None\<close> is a failed assertion or an access outside the object. Offsets and sizes are natural
  numbers. Reads change the mutable fields, so they return the object state as well; \<open>ctr\<close> is
  the static counter that numbers the constant arrays. The record \<open>klee_context\<close> is
  \<open>klee::Context\<close> with the flag \<open>use-constant-arrays\<close>.
\<close>

section \<open>BitArray\<close>

type_synonym bit_array = "uint32_t list"

definition bitarray_length :: "nat \<Rightarrow> nat" where
  "bitarray_length sz = (sz + 31) div 32"

definition bitarray_new :: "nat \<Rightarrow> bool \<Rightarrow> bit_array" where
  "bitarray_new sz value = replicate (bitarray_length sz) (if value then - 1 else 0)"

definition bitarray_get :: "bit_array \<Rightarrow> nat \<Rightarrow> bool" where
  "bitarray_get bits idx = (drop_bit (idx mod 32) (bits ! (idx div 32)) AND 1 \<noteq> 0)"

definition bitarray_set :: "bit_array \<Rightarrow> nat \<Rightarrow> bit_array" where
  "bitarray_set bits idx = bits[idx div 32 := bits ! (idx div 32) OR push_bit (idx mod 32) 1]"

definition bitarray_unset :: "bit_array \<Rightarrow> nat \<Rightarrow> bit_array" where
  "bitarray_unset bits idx = bits[idx div 32 := bits ! (idx div 32) AND NOT (push_bit (idx mod 32) 1)]"

section \<open>MemoryObject\<close>

record klee_context =
  IsLittleEndian :: bool
  PointerWidth :: nat
  UseConstantArrays :: bool

record memory_object =
  mo_id :: nat
  mo_address :: uint64_t
  mo_size :: nat
  mo_name :: string
  isLocal :: bool
  isGlobal :: bool
  isFixed :: bool
  fake_object :: bool
  isUserSpecified :: bool

definition getBaseExpr :: "expr_env \<Rightarrow> klee_context \<Rightarrow> memory_object \<Rightarrow> apint option" where
  "getBaseExpr X C mo = Constant_create X (mo_address mo) (PointerWidth C)"

definition getSizeExpr :: "expr_env \<Rightarrow> klee_context \<Rightarrow> memory_object \<Rightarrow> apint option" where
  "getSizeExpr X C mo = Constant_create X (of_nat (mo_size mo)) (PointerWidth C)"

definition getOffsetExpr :: "expr_env \<Rightarrow> klee_context \<Rightarrow> memory_object \<Rightarrow> expr \<Rightarrow> expr option" where
  "getOffsetExpr X C mo pointer = do {
     b \<leftarrow> getBaseExpr X C mo;
     Sub_create X pointer (ConstantExpr b) }"

definition getBoundsCheckOffset :: "expr_env \<Rightarrow> klee_context \<Rightarrow> memory_object \<Rightarrow> expr \<Rightarrow> expr option" where
  "getBoundsCheckOffset X C mo offset =
     (if mo_size mo = 0 then
        Eq_create X offset (ConstantExpr (Constant_alloc X 0 (PointerWidth C)))
      else do {
        s \<leftarrow> getSizeExpr X C mo;
        Ult_create X offset (ConstantExpr s) })"

definition getBoundsCheckOffset_bytes ::
  "expr_env \<Rightarrow> klee_context \<Rightarrow> memory_object \<Rightarrow> expr \<Rightarrow> nat \<Rightarrow> expr option" where
  "getBoundsCheckOffset_bytes X C mo offset bytes =
     (if bytes \<le> mo_size mo then
        Ult_create X offset
          (ConstantExpr (Constant_alloc X (of_nat (mo_size mo - bytes + 1)) (PointerWidth C)))
      else Some (ConstantExpr (Constant_alloc X 0 1)))"

definition getBoundsCheckPointer :: "expr_env \<Rightarrow> klee_context \<Rightarrow> memory_object \<Rightarrow> expr \<Rightarrow> expr option" where
  "getBoundsCheckPointer X C mo pointer = do {
     off \<leftarrow> getOffsetExpr X C mo pointer;
     getBoundsCheckOffset X C mo off }"

definition getBoundsCheckPointer_bytes ::
  "expr_env \<Rightarrow> klee_context \<Rightarrow> memory_object \<Rightarrow> expr \<Rightarrow> nat \<Rightarrow> expr option" where
  "getBoundsCheckPointer_bytes X C mo pointer bytes = do {
     off \<leftarrow> getOffsetExpr X C mo pointer;
     getBoundsCheckOffset_bytes X C mo off bytes }"

section \<open>ObjectState\<close>

record object_state =
  copyOnWriteOwner :: nat
  os_object :: memory_object
  concreteStore :: "uint8_t list"
  concreteMask :: "bit_array option"
  flushMask :: "bit_array option"
  knownSymbolics :: "expr option list option"
  upd_root :: "array option"
  upd_list :: "(expr \<times> expr) list"
  os_size :: nat
  readOnly :: bool

subsection \<open>Masks\<close>

definition isByteConcrete :: "object_state \<Rightarrow> nat \<Rightarrow> bool" where
  "isByteConcrete os offset =
     (case concreteMask os of None \<Rightarrow> True | Some m \<Rightarrow> bitarray_get m offset)"

definition isByteFlushed :: "object_state \<Rightarrow> nat \<Rightarrow> bool" where
  "isByteFlushed os offset =
     (case flushMask os of None \<Rightarrow> False | Some m \<Rightarrow> \<not> bitarray_get m offset)"

definition knownSymbolic :: "object_state \<Rightarrow> nat \<Rightarrow> expr option" where
  "knownSymbolic os offset =
     (case knownSymbolics os of None \<Rightarrow> None | Some ks \<Rightarrow> ks ! offset)"

definition isByteKnownSymbolic :: "object_state \<Rightarrow> nat \<Rightarrow> bool" where
  "isByteKnownSymbolic os offset = (knownSymbolic os offset \<noteq> None)"

definition markByteConcrete :: "object_state \<Rightarrow> nat \<Rightarrow> object_state" where
  "markByteConcrete os offset =
     (case concreteMask os of
        None \<Rightarrow> os
      | Some m \<Rightarrow> os\<lparr>concreteMask := Some (bitarray_set m offset)\<rparr>)"

definition markByteSymbolic :: "object_state \<Rightarrow> nat \<Rightarrow> object_state" where
  "markByteSymbolic os offset =
     (let m = (case concreteMask os of None \<Rightarrow> bitarray_new (os_size os) True | Some m \<Rightarrow> m)
      in os\<lparr>concreteMask := Some (bitarray_unset m offset)\<rparr>)"

definition markByteUnflushed :: "object_state \<Rightarrow> nat \<Rightarrow> object_state" where
  "markByteUnflushed os offset =
     (case flushMask os of
        None \<Rightarrow> os
      | Some m \<Rightarrow> os\<lparr>flushMask := Some (bitarray_set m offset)\<rparr>)"

definition markByteFlushed :: "object_state \<Rightarrow> nat \<Rightarrow> object_state" where
  "markByteFlushed os offset =
     (case flushMask os of
        None \<Rightarrow> os\<lparr>flushMask := Some (bitarray_new (os_size os) False)\<rparr>
      | Some m \<Rightarrow> os\<lparr>flushMask := Some (bitarray_unset m offset)\<rparr>)"

definition setKnownSymbolic :: "object_state \<Rightarrow> nat \<Rightarrow> expr option \<Rightarrow> object_state" where
  "setKnownSymbolic os offset value =
     (case knownSymbolics os of
        Some ks \<Rightarrow> os\<lparr>knownSymbolics := Some (ks[offset := value])\<rparr>
      | None \<Rightarrow>
          (if value \<noteq> None
           then os\<lparr>knownSymbolics := Some ((replicate (os_size os) None)[offset := value])\<rparr>
           else os))"

subsection \<open>Construction\<close>

text \<open>
  The bytes of a fresh concrete store are whatever \<open>new uint8_t[]\<close> returns: \<open>garbage\<close>. Without
  constant arrays the object gets its symbolic array at once.
\<close>

definition new_ObjectState ::
  "klee_context \<Rightarrow> memory_object \<Rightarrow> uint8_t list \<Rightarrow> nat \<Rightarrow> object_state \<times> nat" where
  "new_ObjectState C mo garbage ctr =
     (let os = \<lparr>copyOnWriteOwner = 0, os_object = mo, concreteStore = take (mo_size mo) garbage,
                concreteMask = None, flushMask = None, knownSymbolics = None,
                upd_root = None, upd_list = [], os_size = mo_size mo, readOnly = False\<rparr> in
      if \<not> UseConstantArrays C then
        (os\<lparr>upd_root := Some (Array (ctr + 1) (''tmp_arr'' @ utostr (ctr + 1)) (mo_size mo) [])\<rparr>, ctr + 1)
      else (os, ctr))"

fun makeSymbolic_loop :: "nat list \<Rightarrow> object_state \<Rightarrow> object_state" where
  "makeSymbolic_loop [] os = os"
| "makeSymbolic_loop (i # is) os =
     makeSymbolic_loop is (markByteFlushed (setKnownSymbolic (markByteSymbolic os i) i None) i)"

definition makeSymbolic :: "object_state \<Rightarrow> object_state option" where
  "makeSymbolic os =
     (if upd_list os \<noteq> [] then None else Some (makeSymbolic_loop [0..<os_size os] os))"

definition new_ObjectState_array :: "memory_object \<Rightarrow> array \<Rightarrow> uint8_t list \<Rightarrow> object_state option" where
  "new_ObjectState_array mo a garbage =
     makeSymbolic \<lparr>copyOnWriteOwner = 0, os_object = mo, concreteStore = take (mo_size mo) garbage,
       concreteMask = None, flushMask = None, knownSymbolics = None,
       upd_root = Some a, upd_list = [], os_size = mo_size mo, readOnly = False\<rparr>"

definition copy_ObjectState :: "object_state \<Rightarrow> object_state option" where
  "copy_ObjectState os =
     (if readOnly os then None
      else Some (os\<lparr>copyOnWriteOwner := 0, readOnly := False\<rparr>))"

definition makeConcrete :: "object_state \<Rightarrow> object_state" where
  "makeConcrete os = os\<lparr>concreteMask := None, flushMask := None, knownSymbolics := None\<rparr>"

definition initializeToZero :: "object_state \<Rightarrow> object_state" where
  "initializeToZero os = (makeConcrete os)\<lparr>concreteStore := replicate (os_size os) 0\<rparr>"

definition initializeToRandom :: "object_state \<Rightarrow> object_state" where
  "initializeToRandom os = (makeConcrete os)\<lparr>concreteStore := replicate (os_size os) 0xAB\<rparr>"

subsection \<open>Updates\<close>

text \<open>\<open>UpdateList::extend\<close>; the node's constructor asserts the width of the value.\<close>

definition extend :: "object_state \<Rightarrow> expr \<Rightarrow> expr \<Rightarrow> object_state option" where
  "extend os index value =
     (if getWidth value \<noteq> 8 then None
      else Some (os\<lparr>upd_list := (index, value) # upd_list os\<rparr>))"

text \<open>The leading constant writes, oldest first, go into the contents of the array.\<close>

fun pull_writes :: "expr_env \<Rightarrow> apint list \<Rightarrow> (expr \<times> expr) list \<Rightarrow> (apint list \<times> (expr \<times> expr) list) option" where
  "pull_writes X Contents [] = Some (Contents, [])"
| "pull_writes X Contents ((i, v) # ws) =
     (case i of
        ConstantExpr Index \<Rightarrow>
          (case v of
             ConstantExpr Value \<Rightarrow> do {
               k \<leftarrow> getZExtValue X 64 Index;
               if unat k < length Contents then pull_writes X (Contents[unat k := Value]) ws else None }
           | _ \<Rightarrow> Some (Contents, (i, v) # ws))
      | _ \<Rightarrow> Some (Contents, (i, v) # ws))"

definition getUpdates :: "expr_env \<Rightarrow> object_state \<Rightarrow> nat \<Rightarrow> (array \<times> object_state \<times> nat) option" where
  "getUpdates X os ctr =
     (case upd_root os of
        Some a \<Rightarrow> Some (a, os, ctr)
      | None \<Rightarrow> do {
          zero \<leftarrow> Constant_create X 0 8;
          (Contents, rest) \<leftarrow> pull_writes X (replicate (os_size os) zero) (rev (upd_list os));
          let a = Array (ctr + 1) (''const_arr'' @ utostr (ctr + 1)) (os_size os) Contents;
          Some (a, os\<lparr>upd_root := Some a, upd_list := rev rest\<rparr>, ctr + 1) })"

definition flushMask_or_new :: "object_state \<Rightarrow> object_state" where
  "flushMask_or_new os =
     (case flushMask os of
        None \<Rightarrow> os\<lparr>flushMask := Some (bitarray_new (os_size os) True)\<rparr>
      | Some _ \<Rightarrow> os)"

definition unset_flushMask :: "object_state \<Rightarrow> nat \<Rightarrow> object_state" where
  "unset_flushMask os offset = os\<lparr>flushMask := map_option (\<lambda>m. bitarray_unset m offset) (flushMask os)\<rparr>"

text \<open>The value the two flush loops write back for an unflushed byte.\<close>

definition cached_byte :: "expr_env \<Rightarrow> object_state \<Rightarrow> nat \<Rightarrow> expr option" where
  "cached_byte X os offset =
     (if isByteConcrete os offset
      then map_option ConstantExpr (Constant_create X (ucast (concreteStore os ! offset)) 8)
      else knownSymbolic os offset)"

fun flush_read_loop :: "expr_env \<Rightarrow> nat list \<Rightarrow> object_state \<Rightarrow> object_state option" where
  "flush_read_loop X [] os = Some os"
| "flush_read_loop X (offset # offs) os =
     (if \<not> isByteFlushed os offset then do {
        v \<leftarrow> cached_byte X os offset;
        i \<leftarrow> Constant_create X (of_nat offset) 32;
        os' \<leftarrow> extend os (ConstantExpr i) v;
        flush_read_loop X offs (unset_flushMask os' offset) }
      else flush_read_loop X offs os)"

definition flushRangeForRead :: "expr_env \<Rightarrow> object_state \<Rightarrow> nat \<Rightarrow> nat \<Rightarrow> object_state option" where
  "flushRangeForRead X os rangeBase rangeSize =
     flush_read_loop X [rangeBase..<rangeBase + rangeSize] (flushMask_or_new os)"

fun flush_write_loop :: "expr_env \<Rightarrow> nat list \<Rightarrow> object_state \<Rightarrow> object_state option" where
  "flush_write_loop X [] os = Some os"
| "flush_write_loop X (offset # offs) os =
     (if \<not> isByteFlushed os offset then do {
        v \<leftarrow> cached_byte X os offset;
        i \<leftarrow> Constant_create X (of_nat offset) 32;
        os1 \<leftarrow> extend os (ConstantExpr i) v;
        let os2 = (if isByteConcrete os offset then markByteSymbolic os1 offset
                   else setKnownSymbolic os1 offset None);
        flush_write_loop X offs (unset_flushMask os2 offset) }
      else
        (let os1 = (if isByteConcrete os offset then markByteSymbolic os offset
                    else if isByteKnownSymbolic os offset then setKnownSymbolic os offset None
                    else os)
         in flush_write_loop X offs os1))"

definition flushRangeForWrite :: "expr_env \<Rightarrow> object_state \<Rightarrow> nat \<Rightarrow> nat \<Rightarrow> object_state option" where
  "flushRangeForWrite X os rangeBase rangeSize =
     flush_write_loop X [rangeBase..<rangeBase + rangeSize] (flushMask_or_new os)"

definition fastRangeCheckOffset :: "object_state \<Rightarrow> expr \<Rightarrow> nat \<times> nat" where
  "fastRangeCheckOffset os offset = (0, os_size os)"

subsection \<open>Bytes\<close>

definition is_constant :: "expr \<Rightarrow> bool" where
  "is_constant e = (case e of ConstantExpr _ \<Rightarrow> True | _ \<Rightarrow> False)"

definition read8 :: "expr_env \<Rightarrow> object_state \<Rightarrow> nat \<Rightarrow> nat \<Rightarrow> (expr \<times> object_state \<times> nat) option" where
  "read8 X os ctr offset =
     (if offset \<ge> os_size os then None
      else if isByteConcrete os offset then do {
        c \<leftarrow> Constant_create X (ucast (concreteStore os ! offset)) 8;
        Some (ConstantExpr c, os, ctr) }
      else (case knownSymbolic os offset of
          Some e \<Rightarrow> Some (e, os, ctr)
        | None \<Rightarrow>
            (if \<not> isByteFlushed os offset then None
             else do {
               (a, os', ctr') \<leftarrow> getUpdates X os ctr;
               i \<leftarrow> Constant_create X (of_nat offset) 32;
               e \<leftarrow> Read_create X a (upd_list os') (ConstantExpr i);
               Some (e, os', ctr') })))"

definition read8_sym :: "expr_env \<Rightarrow> object_state \<Rightarrow> nat \<Rightarrow> expr \<Rightarrow> (expr \<times> object_state \<times> nat) option" where
  "read8_sym X os ctr offset =
     (if is_constant offset then None
      else (let (base, sz) = fastRangeCheckOffset os offset in do {
        os1 \<leftarrow> flushRangeForRead X os base sz;
        (a, os2, ctr') \<leftarrow> getUpdates X os1 ctr;
        i \<leftarrow> ZExt_create X offset 32;
        e \<leftarrow> Read_create X a (upd_list os2) i;
        Some (e, os2, ctr') }))"

definition write8 :: "object_state \<Rightarrow> nat \<Rightarrow> uint8_t \<Rightarrow> object_state option" where
  "write8 os offset value =
     (if offset \<ge> os_size os then None
      else Some (markByteUnflushed (markByteConcrete
             (setKnownSymbolic (os\<lparr>concreteStore := (concreteStore os)[offset := value]\<rparr>) offset None)
             offset) offset))"

definition write8_expr :: "expr_env \<Rightarrow> object_state \<Rightarrow> nat \<Rightarrow> expr \<Rightarrow> object_state option" where
  "write8_expr X os offset value =
     (case value of
        ConstantExpr c \<Rightarrow> do { v \<leftarrow> getZExtValue X 8 c; write8 os offset (ucast v) }
      | _ \<Rightarrow>
          (if offset \<ge> os_size os then None
           else Some (markByteUnflushed (markByteSymbolic
                  (setKnownSymbolic os offset (Some value)) offset) offset)))"

definition write8_sym :: "expr_env \<Rightarrow> object_state \<Rightarrow> expr \<Rightarrow> expr \<Rightarrow> object_state option" where
  "write8_sym X os offset value =
     (if is_constant offset then None
      else (let (base, sz) = fastRangeCheckOffset os offset in do {
        os1 \<leftarrow> flushRangeForWrite X os base sz;
        i \<leftarrow> ZExt_create X offset 32;
        extend os1 i value }))"

subsection \<open>Wider accesses\<close>

definition byte_index :: "klee_context \<Rightarrow> nat \<Rightarrow> nat \<Rightarrow> nat" where
  "byte_index C NumBytes i = (if IsLittleEndian C then i else NumBytes - i - 1)"

text \<open>
  The loop of the two \<open>read\<close> functions from \<open>i\<close> on; \<open>rd\<close> reads the byte with the given index
  and \<open>Res\<close> is null before the first byte.
\<close>

fun read_loop :: "expr_env \<Rightarrow> (object_state \<Rightarrow> nat \<Rightarrow> nat \<Rightarrow> (expr \<times> object_state \<times> nat) option) \<Rightarrow>
    nat list \<Rightarrow> expr option \<Rightarrow> object_state \<Rightarrow> nat \<Rightarrow> (expr \<times> object_state \<times> nat) option" where
  "read_loop X rd [] Res os ctr = do { r \<leftarrow> Res; Some (r, os, ctr) }"
| "read_loop X rd (idx # idxs) Res os ctr = do {
     (Byte, os', ctr') \<leftarrow> rd os ctr idx;
     r \<leftarrow> (case Res of Some r \<Rightarrow> Concat_create X Byte r | None \<Rightarrow> Some Byte);
     read_loop X rd idxs (Some r) os' ctr' }"

definition read :: "expr_env \<Rightarrow> klee_context \<Rightarrow> object_state \<Rightarrow> nat \<Rightarrow> nat \<Rightarrow> nat \<Rightarrow>
    (expr \<times> object_state \<times> nat) option" where
  "read X C os ctr offset width =
     (if width = 1 then do {
        (b, os', ctr') \<leftarrow> read8 X os ctr offset;
        e \<leftarrow> Extract_create X b 0 1;
        Some (e, os', ctr') }
      else (let NumBytes = width div 8 in
        if width \<noteq> NumBytes * 8 then None
        else read_loop X (\<lambda>os ctr idx. read8 X os ctr (offset + idx))
               (map (byte_index C NumBytes) [0..<NumBytes]) None os ctr))"

definition read_sym :: "expr_env \<Rightarrow> klee_context \<Rightarrow> object_state \<Rightarrow> nat \<Rightarrow> expr \<Rightarrow> nat \<Rightarrow>
    (expr \<times> object_state \<times> nat) option" where
  "read_sym X C os ctr offset0 width = do {
     offset \<leftarrow> ZExt_create X offset0 32;
     case offset of
       ConstantExpr c \<Rightarrow> do { k \<leftarrow> getZExtValue X 32 c; read X C os ctr (unat k) width }
     | _ \<Rightarrow>
        (if width = 1 then do {
           (b, os', ctr') \<leftarrow> read8_sym X os ctr offset;
           e \<leftarrow> Extract_create X b 0 1;
           Some (e, os', ctr') }
         else (let NumBytes = width div 8 in
           if width \<noteq> NumBytes * 8 then None
           else read_loop X (\<lambda>os ctr idx. do {
                    i \<leftarrow> Constant_create X (of_nat idx) 32;
                    o' \<leftarrow> Add_create X offset (ConstantExpr i);
                    read8_sym X os ctr o' })
                  (map (byte_index C NumBytes) [0..<NumBytes]) None os ctr)) }"

text \<open>\<open>write16\<close>, \<open>write32\<close> and \<open>write64\<close>: the bytes of the value, the least significant first.\<close>

fun write_bytes :: "klee_context \<Rightarrow> nat \<Rightarrow> nat list \<Rightarrow> object_state \<Rightarrow> nat \<Rightarrow> uint64_t \<Rightarrow> object_state option" where
  "write_bytes C NumBytes [] os offset value = Some os"
| "write_bytes C NumBytes (i # is) os offset value = do {
     os' \<leftarrow> write8 os (offset + byte_index C NumBytes i) (ucast (drop_bit (8 * i) value));
     write_bytes C NumBytes is os' offset value }"

definition write16 :: "klee_context \<Rightarrow> object_state \<Rightarrow> nat \<Rightarrow> uint64_t \<Rightarrow> object_state option" where
  "write16 C os offset value = write_bytes C 2 [0..<2] os offset (take_bit 16 value)"

definition write32 :: "klee_context \<Rightarrow> object_state \<Rightarrow> nat \<Rightarrow> uint64_t \<Rightarrow> object_state option" where
  "write32 C os offset value = write_bytes C 4 [0..<4] os offset (take_bit 32 value)"

definition write64 :: "klee_context \<Rightarrow> object_state \<Rightarrow> nat \<Rightarrow> uint64_t \<Rightarrow> object_state option" where
  "write64 C os offset value = write_bytes C 8 [0..<8] os offset value"

text \<open>The general case of the two \<open>write\<close> functions; \<open>wr\<close> writes the byte with the given index.\<close>

fun write_loop :: "expr_env \<Rightarrow> klee_context \<Rightarrow> (object_state \<Rightarrow> nat \<Rightarrow> expr \<Rightarrow> object_state option) \<Rightarrow>
    nat \<Rightarrow> nat list \<Rightarrow> expr \<Rightarrow> object_state \<Rightarrow> object_state option" where
  "write_loop X C wr NumBytes [] value os = Some os"
| "write_loop X C wr NumBytes (i # is) value os = do {
     b \<leftarrow> Extract_create X value (8 * i) 8;
     os' \<leftarrow> wr os (byte_index C NumBytes i) b;
     write_loop X C wr NumBytes is value os' }"

definition write_general :: "expr_env \<Rightarrow> klee_context \<Rightarrow> (object_state \<Rightarrow> nat \<Rightarrow> expr \<Rightarrow> object_state option) \<Rightarrow>
    object_state \<Rightarrow> expr \<Rightarrow> object_state option" where
  "write_general X C wr os value =
     (let w = getWidth value in
      if w = 1 then do { b \<leftarrow> ZExt_create X value 8; wr os 0 b }
      else (let NumBytes = w div 8 in
        if w \<noteq> NumBytes * 8 then None
        else write_loop X C wr NumBytes [0..<NumBytes] value os))"

definition write_const :: "klee_context \<Rightarrow> object_state \<Rightarrow> nat \<Rightarrow> nat \<Rightarrow> uint64_t \<Rightarrow> object_state option" where
  "write_const C os offset w val =
     (if w = 1 \<or> w = 8 then write8 os offset (ucast val)
      else if w = 16 then write16 C os offset val
      else if w = 32 then write32 C os offset val
      else if w = 64 then write64 C os offset val
      else None)"

definition os_write :: "expr_env \<Rightarrow> klee_context \<Rightarrow> object_state \<Rightarrow> nat \<Rightarrow> expr \<Rightarrow> object_state option" where
  "os_write X C os offset value =
     (let general = write_general X C (\<lambda>os idx b. write8_expr X os (offset + idx) b) os value in
      case value of
        ConstantExpr c \<Rightarrow>
          (if apw c \<le> 64 then do {
             val \<leftarrow> getZExtValue X 64 c;
             write_const C os offset (apw c) val }
           else general)
      | _ \<Rightarrow> general)"

definition os_write_sym :: "expr_env \<Rightarrow> klee_context \<Rightarrow> object_state \<Rightarrow> expr \<Rightarrow> expr \<Rightarrow> object_state option" where
  "os_write_sym X C os offset0 value = do {
     offset \<leftarrow> ZExt_create X offset0 32;
     case offset of
       ConstantExpr c \<Rightarrow> do { k \<leftarrow> getZExtValue X 32 c; os_write X C os (unat k) value }
     | _ \<Rightarrow>
        (if getWidth value = 1 then do {
           b \<leftarrow> ZExt_create X value 8;
           write8_sym X os offset b }
         else write_general X C (\<lambda>os idx b. do {
             i \<leftarrow> Constant_create X (of_nat idx) 32;
             o' \<leftarrow> Add_create X offset (ConstantExpr i);
             write8_sym X os o' b }) os value) }"

end
