(* ===== verification/MemoryProps.thy ===== *)
theory MemoryProps
  imports Memory ExprSound
begin

text \<open>
  An \<open>ObjectState\<close> behaves as an array of bytes. \<open>byte\<close> is the value of a byte under an
  assignment of the symbolic arrays, \<open>os_inv\<close> the cache invariants of \<open>lib/Core/Memory.cpp\<close> with
  what the masks promise about the update list; every read returns the byte and keeps the
  invariant and all bytes, every write changes exactly the byte written.
\<close>

section \<open>BitArray\<close>

lemma bitarray_get_bit: "bitarray_get bits i = bit (bits ! (i div 32)) (i mod 32)"
  by (simp add: bitarray_get_def bit_iff_odd_drop_bit and_one_eq odd_iff_mod_2_eq_one)

lemma bitarray_index: "i < sz \<Longrightarrow> i div 32 < bitarray_length sz"
  by (simp add: bitarray_length_def)

lemma bitarray_length_simps [simp]:
  "length (bitarray_new sz v) = bitarray_length sz"
  "length (bitarray_set bits i) = length bits"
  "length (bitarray_unset bits i) = length bits"
  by (simp_all add: bitarray_new_def bitarray_set_def bitarray_unset_def)

lemma bitarray_get_new [simp]: "i < sz \<Longrightarrow> bitarray_get (bitarray_new sz v) i = v"
  by (simp add: bitarray_get_bit bitarray_new_def bitarray_index)

lemma same_index: "i div 32 = j div 32 \<Longrightarrow> i mod 32 = j mod 32 \<longleftrightarrow> i = (j :: nat)"
  by (metis div_mult_mod_eq)

lemma bitarray_get_set [simp]:
  "length bits = bitarray_length sz \<Longrightarrow> i < sz \<Longrightarrow> j < sz \<Longrightarrow>
   bitarray_get (bitarray_set bits i) j \<longleftrightarrow> i = j \<or> bitarray_get bits j"
  using bitarray_index [of i sz] same_index [of i j]
  by (cases "i div 32 = j div 32") (auto simp: bitarray_get_bit bitarray_set_def bit_simps nth_list_update)

lemma bitarray_get_unset [simp]:
  "length bits = bitarray_length sz \<Longrightarrow> i < sz \<Longrightarrow> j < sz \<Longrightarrow>
   bitarray_get (bitarray_unset bits i) j \<longleftrightarrow> i \<noteq> j \<and> bitarray_get bits j"
  using bitarray_index [of i sz] same_index [of i j]
  by (cases "i div 32 = j div 32") (auto simp: bitarray_get_bit bitarray_unset_def bit_simps nth_list_update)

section \<open>The masks\<close>

definition mask_ok :: "nat \<Rightarrow> bit_array option \<Rightarrow> bool" where
  "mask_ok sz m = (case m of None \<Rightarrow> True | Some bits \<Rightarrow> length bits = bitarray_length sz)"

definition shape :: "object_state \<Rightarrow> bool" where
  "shape os \<longleftrightarrow> length (concreteStore os) = os_size os \<and> mask_ok (os_size os) (concreteMask os) \<and>
     mask_ok (os_size os) (flushMask os) \<and>
     (case knownSymbolics os of None \<Rightarrow> True | Some ks \<Rightarrow> length ks = os_size os)"

lemmas mark_defs = markByteConcrete_def markByteSymbolic_def markByteUnflushed_def markByteFlushed_def
  setKnownSymbolic_def unset_flushMask_def flushMask_or_new_def
lemmas test_defs = isByteConcrete_def isByteFlushed_def knownSymbolic_def

lemma mark_fields [simp]:
  "concreteStore (markByteConcrete os i) = concreteStore os" "os_size (markByteConcrete os i) = os_size os"
  "upd_root (markByteConcrete os i) = upd_root os" "upd_list (markByteConcrete os i) = upd_list os"
  "concreteStore (markByteSymbolic os i) = concreteStore os" "os_size (markByteSymbolic os i) = os_size os"
  "upd_root (markByteSymbolic os i) = upd_root os" "upd_list (markByteSymbolic os i) = upd_list os"
  "concreteStore (markByteUnflushed os i) = concreteStore os" "os_size (markByteUnflushed os i) = os_size os"
  "upd_root (markByteUnflushed os i) = upd_root os" "upd_list (markByteUnflushed os i) = upd_list os"
  "concreteStore (markByteFlushed os i) = concreteStore os" "os_size (markByteFlushed os i) = os_size os"
  "upd_root (markByteFlushed os i) = upd_root os" "upd_list (markByteFlushed os i) = upd_list os"
  "concreteStore (setKnownSymbolic os i v) = concreteStore os" "os_size (setKnownSymbolic os i v) = os_size os"
  "upd_root (setKnownSymbolic os i v) = upd_root os" "upd_list (setKnownSymbolic os i v) = upd_list os"
  "concreteStore (unset_flushMask os i) = concreteStore os" "os_size (unset_flushMask os i) = os_size os"
  "upd_root (unset_flushMask os i) = upd_root os" "upd_list (unset_flushMask os i) = upd_list os"
  "concreteStore (flushMask_or_new os) = concreteStore os" "os_size (flushMask_or_new os) = os_size os"
  "upd_root (flushMask_or_new os) = upd_root os" "upd_list (flushMask_or_new os) = upd_list os"
  by (simp_all add: mark_defs Let_def split: option.splits)

lemma mark_shape [simp]:
  "shape os \<Longrightarrow> shape (markByteConcrete os i)" "shape os \<Longrightarrow> shape (markByteSymbolic os i)"
  "shape os \<Longrightarrow> shape (markByteUnflushed os i)" "shape os \<Longrightarrow> shape (markByteFlushed os i)"
  "shape os \<Longrightarrow> shape (setKnownSymbolic os i v)" "shape os \<Longrightarrow> shape (unset_flushMask os i)"
  "shape os \<Longrightarrow> shape (flushMask_or_new os)"
  by (auto simp: shape_def mask_ok_def mark_defs Let_def split: option.splits)

lemma mark_concrete [simp]:
  assumes "shape os" "i < os_size os" "j < os_size os"
  shows "isByteConcrete (markByteConcrete os i) j \<longleftrightarrow> i = j \<or> isByteConcrete os j"
    "isByteConcrete (markByteSymbolic os i) j \<longleftrightarrow> i \<noteq> j \<and> isByteConcrete os j"
  using assms by (auto simp: shape_def mask_ok_def mark_defs test_defs Let_def split: option.splits)

lemma mark_concrete_same [simp]:
  "isByteConcrete (markByteUnflushed os i) j = isByteConcrete os j"
  "isByteConcrete (markByteFlushed os i) j = isByteConcrete os j"
  "isByteConcrete (setKnownSymbolic os i v) j = isByteConcrete os j"
  "isByteConcrete (unset_flushMask os i) j = isByteConcrete os j"
  "isByteConcrete (flushMask_or_new os) j = isByteConcrete os j"
  by (simp_all add: mark_defs test_defs split: option.splits)

lemma mark_flushed [simp]:
  assumes "shape os" "i < os_size os" "j < os_size os"
  shows "isByteFlushed (markByteUnflushed os i) j \<longleftrightarrow> i \<noteq> j \<and> isByteFlushed os j"
    "flushMask os \<noteq> None \<Longrightarrow> isByteFlushed (unset_flushMask os i) j \<longleftrightarrow> i = j \<or> isByteFlushed os j"
  using assms by (auto simp: shape_def mask_ok_def mark_defs test_defs split: option.splits)

lemma mark_flushed_same [simp]:
  "isByteFlushed (markByteConcrete os i) j = isByteFlushed os j"
  "isByteFlushed (markByteSymbolic os i) j = isByteFlushed os j"
  "isByteFlushed (setKnownSymbolic os i v) j = isByteFlushed os j"
  "j < os_size os \<Longrightarrow> isByteFlushed (flushMask_or_new os) j = isByteFlushed os j"
  by (simp_all add: mark_defs test_defs Let_def split: option.splits)

lemma mark_flushMask [simp]:
  "flushMask (markByteConcrete os i) = flushMask os" "flushMask (markByteSymbolic os i) = flushMask os"
  "flushMask (setKnownSymbolic os i v) = flushMask os" "flushMask (flushMask_or_new os) \<noteq> None"
  "flushMask (unset_flushMask os i) = None \<longleftrightarrow> flushMask os = None"
  by (simp_all add: mark_defs Let_def split: option.splits)

lemma mark_known [simp]:
  assumes "shape os" "i < os_size os" "j < os_size os"
  shows "knownSymbolic (setKnownSymbolic os i v) j = (if i = j then v else knownSymbolic os j)"
  using assms by (auto simp: shape_def mark_defs test_defs split: option.splits)

lemma mark_known_same [simp]:
  "knownSymbolic (markByteConcrete os i) j = knownSymbolic os j"
  "knownSymbolic (markByteSymbolic os i) j = knownSymbolic os j"
  "knownSymbolic (markByteUnflushed os i) j = knownSymbolic os j"
  "knownSymbolic (markByteFlushed os i) j = knownSymbolic os j"
  "knownSymbolic (unset_flushMask os i) j = knownSymbolic os j"
  "knownSymbolic (flushMask_or_new os) j = knownSymbolic os j"
  by (simp_all add: mark_defs test_defs Let_def split: option.splits)

section \<open>The invariant\<close>

definition zero_array :: "nat \<Rightarrow> array" where
  "zero_array sz = Array 0 [] sz (replicate sz (APInt 8 0))"

definition root_of :: "object_state \<Rightarrow> array" where
  "root_of os = (case upd_root os of Some a \<Rightarrow> a | None \<Rightarrow> zero_array (os_size os))"

definition arr_val :: "assignment \<Rightarrow> object_state \<Rightarrow> nat \<Rightarrow> int" where
  "arr_val \<rho> os i = read_nodes \<rho> (root_of os) (upd_list os) (int i)"

text \<open>The value of a byte: its concrete value, the cached expression, or the array.\<close>

definition byte :: "assignment \<Rightarrow> object_state \<Rightarrow> nat \<Rightarrow> int" where
  "byte \<rho> os i =
     (if isByteConcrete os i then uint (concreteStore os ! i)
      else (case knownSymbolic os i of Some e \<Rightarrow> eval \<rho> e | None \<Rightarrow> arr_val \<rho> os i))"

definition coherent :: "object_state \<Rightarrow> nat \<Rightarrow> bool" where
  "coherent os i \<longleftrightarrow>
     (isByteConcrete os i \<longrightarrow> knownSymbolic os i = None) \<and>
     (isByteFlushed os i \<or> isByteConcrete os i \<or> knownSymbolic os i \<noteq> None) \<and>
     (\<forall>e. knownSymbolic os i = Some e \<longrightarrow> wt e \<and> getWidth e = 8) \<and>
     (isByteFlushed os i \<longrightarrow> (\<forall>\<rho>. byte \<rho> os i = arr_val \<rho> os i))"

definition upd_ok :: "object_state \<Rightarrow> bool" where
  "upd_ok os \<longleftrightarrow> array_ok (root_of os) \<and> wt_nodes (upd_list os) \<and>
     (\<forall>c. \<forall>v. (ConstantExpr c, v) \<in> set (upd_list os) \<longrightarrow> apv c < int (os_size os))"

definition os_inv :: "object_state \<Rightarrow> bool" where
  "os_inv os \<longleftrightarrow> shape os \<and> os_size os \<le> 2 ^ 32 \<and> upd_ok os \<and> (\<forall>i < os_size os. coherent os i)"

lemma array_ok_zero [simp]: "array_ok (zero_array sz)"
  by (simp add: array_ok_def zero_array_def valid_def)

section \<open>Byte accesses at constant offsets\<close>

lemma arr_val_cong: "upd_root os' = upd_root os \<Longrightarrow> os_size os' = os_size os \<Longrightarrow> upd_list os' = upd_list os \<Longrightarrow>
   arr_val \<rho> os' i = arr_val \<rho> os i \<and> upd_ok os' = upd_ok os"
  by (simp add: arr_val_def root_of_def upd_ok_def split: option.split)

lemma take_bit_uint8 [simp]: "take_bit 8 (uint (v :: uint8_t)) = uint v"
  using unsigned_less [where 'b = 8 and 'a = int and w = v] by (simp add: take_bit_int_eq_self)

lemma byte_range:
  assumes "os_inv os" "i < os_size os"
  shows "take_bit 8 (byte \<rho> os i) = byte \<rho> os i"
proof -
  have "take_bit 8 (arr_val \<rho> os i) = arr_val \<rho> os i"
    using assms by (simp add: os_inv_def upd_ok_def arr_val_def eval_range(2))
  then show ?thesis
    using assms by (auto simp: os_inv_def coherent_def byte_def split: option.splits)
qed

text \<open>A step that keeps the update list is judged byte by byte.\<close>

lemma os_inv_pointwise:
  assumes "os_inv os" "shape os'" "upd_root os' = upd_root os" "os_size os' = os_size os" "upd_list os' = upd_list os"
    and "\<And>j. j < os_size os \<Longrightarrow> coherent os' j"
  shows "os_inv os'"
  using assms arr_val_cong [OF assms(3-5)] by (simp add: os_inv_def)

text \<open>What the two byte writes share: only the byte \<open>i\<close> changes, and it becomes unflushed.\<close>

lemma write_step:
  assumes inv: "os_inv os" and sh: "shape os'"
    and f: "upd_root os' = upd_root os" "os_size os' = os_size os" "upd_list os' = upd_list os"
    and fl: "\<And>j. j < os_size os \<Longrightarrow> isByteFlushed os' j \<longleftrightarrow> i \<noteq> j \<and> isByteFlushed os j"
    and same: "\<And>j. j < os_size os \<Longrightarrow> i \<noteq> j \<Longrightarrow> isByteConcrete os' j = isByteConcrete os j \<and>
      knownSymbolic os' j = knownSymbolic os j \<and> concreteStore os' ! j = concreteStore os ! j"
    and new: "isByteConcrete os' i \<and> knownSymbolic os' i = None \<or>
      \<not> isByteConcrete os' i \<and> (\<exists>e. knownSymbolic os' i = Some e \<and> wt e \<and> getWidth e = 8)"
  shows "os_inv os'" "j < os_size os \<Longrightarrow> i \<noteq> j \<Longrightarrow> byte \<rho> os' j = byte \<rho> os j"
proof -
  have b: "byte \<rho> os' j = byte \<rho> os j" if "j < os_size os" "i \<noteq> j" for \<rho> j
    using same [OF that] arr_val_cong [OF f, of \<rho> j] by (simp add: byte_def split: option.split)
  then show "j < os_size os \<Longrightarrow> i \<noteq> j \<Longrightarrow> byte \<rho> os' j = byte \<rho> os j" .
  have "coherent os' j" if j: "j < os_size os" for j
  proof (cases "i = j")
    case True
    with new fl [OF j] show ?thesis by (auto simp: coherent_def)
  next
    case False
    have "coherent os j" using inv j by (simp add: os_inv_def)
    with b [OF j False] arr_val_cong [OF f, of _ j] same [OF j False] fl [OF j] False show ?thesis
      by (simp add: coherent_def)
  qed
  then show "os_inv os'" using os_inv_pointwise [OF inv sh f] by blast
qed

lemma write8_correct:
  assumes "os_inv os" "i < os_size os"
  shows "\<exists>os'. write8 os i v = Some os' \<and> os_inv os' \<and> os_size os' = os_size os \<and>
    (\<forall>\<rho>. \<forall>j < os_size os. byte \<rho> os' j = (if j = i then uint v else byte \<rho> os j))"
proof -
  define os1 where "os1 = os\<lparr>concreteStore := (concreteStore os)[i := v]\<rparr>"
  define os' where "os' = markByteUnflushed (markByteConcrete (setKnownSymbolic os1 i None) i) i"
  have sh: "shape os1" "i < os_size os1"
    using assms by (simp_all add: os1_def os_inv_def shape_def split: option.splits)
  have t: "isByteConcrete os1 j = isByteConcrete os j" "isByteFlushed os1 j = isByteFlushed os j"
    "knownSymbolic os1 j = knownSymbolic os j" "os_size os1 = os_size os" for j
    by (simp_all add: os1_def test_defs)
  have st: "concreteStore os1 ! j = (if i = j then v else concreteStore os ! j)" if "j < os_size os" for j
    using that assms by (auto simp: os1_def os_inv_def shape_def nth_list_update)
  have f: "upd_root os' = upd_root os" "os_size os' = os_size os" "upd_list os' = upd_list os"
    by (simp_all add: os'_def os1_def)
  have sh': "shape os'" using sh by (simp add: os'_def)
  have t': "isByteConcrete os' j \<longleftrightarrow> i = j \<or> isByteConcrete os j" "isByteFlushed os' j \<longleftrightarrow> i \<noteq> j \<and> isByteFlushed os j"
    "knownSymbolic os' j = (if i = j then None else knownSymbolic os j)"
    "concreteStore os' ! j = (if i = j then v else concreteStore os ! j)" if "j < os_size os" for j
    using that sh assms(2) st [OF that] by (simp_all add: os'_def t)
  note step = write_step [OF assms(1) sh' f, of i]
  have "os_inv os'" "\<And>j \<rho>. j < os_size os \<Longrightarrow> i \<noteq> j \<Longrightarrow> byte \<rho> os' j = byte \<rho> os j"
    using t' assms(2) by (auto intro!: step(1) step(2))
  moreover have "byte \<rho> os' i = uint v" for \<rho>
    using t' [OF assms(2)] by (simp add: byte_def)
  ultimately show ?thesis using assms(2) f by (auto simp: write8_def os'_def os1_def)
qed

lemma ucast_byte: "0 \<le> x \<Longrightarrow> x < 256 \<Longrightarrow> uint (ucast (word_of_int x :: uint64_t) :: uint8_t) = x"
  by (simp add: unsigned_ucast_eq unsigned_of_int take_bit_int_eq_self)

lemma write8_expr_correct:
  assumes "apint_lib X" "os_inv os" "i < os_size os" "wt e" "getWidth e = 8"
  shows "\<exists>os'. write8_expr X os i e = Some os' \<and> os_inv os' \<and> os_size os' = os_size os \<and>
    (\<forall>\<rho>. \<forall>j < os_size os. byte \<rho> os' j = (if j = i then eval \<rho> e else byte \<rho> os j))"
proof (cases "\<exists>c. e = ConstantExpr c")
  case True
  then obtain c where c: "e = ConstantExpr c" by blast
  with assms have v: "valid c" "apw c = 8" by simp_all
  then have b: "uint (ucast (word_of_int (apv c) :: uint64_t) :: uint8_t) = apv c"
    using valid_range [of c] by (intro ucast_byte) simp_all
  have "write8_expr X os i e = write8 os i (ucast (word_of_int (apv c) :: uint64_t))"
    using v c apint_lib.getZExtValue_valid [OF assms(1), of c 8] by (simp add: write8_expr_def)
  moreover have ev: "eval \<rho> e = apv c" for \<rho> using c by simp
  ultimately show ?thesis
    using write8_correct [OF assms(2,3), of "ucast (word_of_int (apv c) :: uint64_t)", unfolded b] unfolding ev by simp
next
  case False
  define os' where "os' = markByteUnflushed (markByteSymbolic (setKnownSymbolic os i (Some e)) i) i"
  have eq: "write8_expr X os i e = Some os'"
    using False assms(3) by (simp add: write8_expr_def os'_def case_not_const)
  have f: "upd_root os' = upd_root os" "os_size os' = os_size os" "upd_list os' = upd_list os"
    by (simp_all add: os'_def)
  have sh: "shape os" using assms(2) by (simp add: os_inv_def)
  have sh': "shape os'" using sh by (simp add: os'_def)
  have t': "isByteConcrete os' j \<longleftrightarrow> i \<noteq> j \<and> isByteConcrete os j" "isByteFlushed os' j \<longleftrightarrow> i \<noteq> j \<and> isByteFlushed os j"
    "knownSymbolic os' j = (if i = j then Some e else knownSymbolic os j)"
    "concreteStore os' ! j = concreteStore os ! j" if "j < os_size os" for j
    using that sh assms(3) by (simp_all add: os'_def)
  note step = write_step [OF assms(2) sh' f, of i]
  have "os_inv os'" "\<And>j \<rho>. j < os_size os \<Longrightarrow> i \<noteq> j \<Longrightarrow> byte \<rho> os' j = byte \<rho> os j"
    using t' assms(3-5) by (auto intro!: step(1) step(2))
  moreover have "byte \<rho> os' i = eval \<rho> e" for \<rho>
    using t' [OF assms(3)] by (simp add: byte_def)
  ultimately show ?thesis using eq f by auto
qed

section \<open>Lazily created constant arrays\<close>

lemma wt_nodes_iff:
  "wt_nodes us \<longleftrightarrow> (\<forall>(i, v) \<in> set us. wt i \<and> getWidth i = 32 \<and> wt v \<and> getWidth v = 8)"
  by (induction us) auto

lemma read_nodes_root:
  "array_val \<rho> r k = array_val \<rho> r' k \<Longrightarrow> read_nodes \<rho> r us k = read_nodes \<rho> r' us k"
  by (induction us) auto

lemma read_nodes_snoc:
  "array_val \<rho> r' k = (if eval \<rho> i = k then eval \<rho> v else array_val \<rho> r k) \<Longrightarrow>
   read_nodes \<rho> r (us @ [(i, v)]) k = read_nodes \<rho> r' us k"
  by (induction us) auto

definition bytes_ok :: "apint list \<Rightarrow> bool" where
  "bytes_ok cs \<longleftrightarrow> (\<forall>c \<in> set cs. valid c \<and> apw c = 8)"

lemma pull_writes_correct:
  assumes "apint_lib X" "bytes_ok Contents" "wt_nodes ws"
    and "\<forall>c v. (ConstantExpr c, v) \<in> set ws \<longrightarrow> apv c < int (length Contents)"
  shows "\<exists>Contents' rest. pull_writes X Contents ws = Some (Contents', rest) \<and>
    length Contents' = length Contents \<and> bytes_ok Contents' \<and> set rest \<subseteq> set ws \<and>
    (\<forall>\<rho> k p n s p' n' s'. k < length Contents \<longrightarrow>
      read_nodes \<rho> (Array p' n' s' Contents') (rev rest) (int k) = read_nodes \<rho> (Array p n s Contents) (rev ws) (int k))"
  using assms(2-4)
proof (induction ws arbitrary: Contents)
  case Nil
  then show ?case by (simp add: array_val_def)
next
  case (Cons u ws)
  obtain i v where u: "u = (i, v)" by (cases u)
  have stop: "\<forall>\<rho> k p n s p' n' s'. k < length Contents \<longrightarrow>
      read_nodes \<rho> (Array p' n' s' Contents) (rev (u # ws)) (int k) = read_nodes \<rho> (Array p n s Contents) (rev (u # ws)) (int k)"
    by (intro allI impI read_nodes_root) (simp add: array_val_def)
  show ?case
  proof (cases "\<exists>c d. i = ConstantExpr c \<and> v = ConstantExpr d")
    case False
    then have "pull_writes X Contents (u # ws) = Some (Contents, u # ws)"
      by (cases i; cases v) (simp_all add: u)
    with stop Cons.prems show ?thesis by simp
  next
    case True
    then obtain c d where cd: "i = ConstantExpr c" "v = ConstantExpr d" by blast
    with Cons.prems u have c: "valid c" "apw c = 32" "apv c < int (length Contents)" and d: "valid d" "apw d = 8"
      by (auto simp: wt_nodes_iff)
    define k where "k = nat (apv c)"
    have k: "apv c = int k" "k < length Contents" using c valid_range [of c] by (simp_all add: k_def nat_less_iff)
    have "k < 2 ^ 32" using k(1) c valid_range [of c] by simp
    then have un: "unat (word_of_int (apv c) :: uint64_t) = k"
      unfolding k(1) by (simp add: unat_of_nat take_bit_nat_eq_self flip: of_nat_nat_take_bit_eq)
    have up: "bytes_ok (Contents[k := d])"
      using Cons.prems(1) d set_update_subset_insert [of Contents k d] by (auto simp: bytes_ok_def)
    have ws: "\<forall>b x. (ConstantExpr b, x) \<in> set ws \<longrightarrow> apv b < int (length (Contents[k := d]))"
      using Cons.prems(3) by simp
    have "wt_nodes ws" using Cons.prems(2) u by simp
    from Cons.IH [OF up this ws] obtain Contents' rest where
      P: "pull_writes X (Contents[k := d]) ws = Some (Contents', rest)" "length Contents' = length Contents"
        "bytes_ok Contents'" "set rest \<subseteq> set ws"
        "\<And>\<rho> j p n s p' n' s'. j < length Contents \<Longrightarrow> read_nodes \<rho> (Array p' n' s' Contents') (rev rest) (int j) =
           read_nodes \<rho> (Array p n s (Contents[k := d])) (rev ws) (int j)"
      by auto
    have "read_nodes \<rho> (Array p n s Contents) (rev ws @ [(i, v)]) (int j) =
        read_nodes \<rho> (Array p n s (Contents[k := d])) (rev ws) (int j)" if "j < length Contents" for \<rho> j p n s
      by (rule read_nodes_snoc) (use that k cd in \<open>auto simp: array_val_def nth_list_update\<close>)
    moreover have "pull_writes X Contents (u # ws) = Some (Contents', rest)"
      using P(1) cd u k un c apint_lib.getZExtValue_valid [OF assms(1), of c 64] by simp
    ultimately show ?thesis using P u by auto
  qed
qed

definition same_bytes :: "object_state \<Rightarrow> object_state \<Rightarrow> bool" where
  "same_bytes os os' \<longleftrightarrow> os_inv os' \<and> os_size os' = os_size os \<and>
     (\<forall>\<rho>. \<forall>j < os_size os. byte \<rho> os' j = byte \<rho> os j)"

lemma same_bytes_trans: "same_bytes a b \<Longrightarrow> same_bytes b c \<Longrightarrow> same_bytes a c"
  by (simp add: same_bytes_def)

text \<open>Changing only the update list, to one that reads the same inside the object.\<close>

lemma same_bytes_updates:
  assumes inv: "os_inv os" and os': "os' = os\<lparr>upd_root := r, upd_list := us\<rparr>" and ok: "upd_ok os'"
    and val: "\<And>\<rho> i. i < os_size os \<Longrightarrow> arr_val \<rho> os' i = arr_val \<rho> os i"
  shows "same_bytes os os'"
proof -
  have t: "isByteConcrete os' j = isByteConcrete os j" "isByteFlushed os' j = isByteFlushed os j"
    "knownSymbolic os' j = knownSymbolic os j" "concreteStore os' = concreteStore os" "os_size os' = os_size os" for j
    by (simp_all add: os' test_defs)
  have b: "byte \<rho> os' j = byte \<rho> os j" if "j < os_size os" for \<rho> j
    using val [OF that] by (simp add: byte_def t split: option.split)
  have "shape os'" using inv by (simp add: os' os_inv_def shape_def split: option.splits)
  moreover have "coherent os' j" if "j < os_size os" for j
    using inv that b [OF that] val [OF that] by (simp add: os_inv_def coherent_def t)
  ultimately show ?thesis using inv b ok by (simp add: same_bytes_def os_inv_def t)
qed

lemma getUpdates_correct:
  assumes "apint_lib X" "os_inv os"
  shows "\<exists>a os' ctr'. getUpdates X os ctr = Some (a, os', ctr') \<and> upd_root os' = Some a \<and> same_bytes os os' \<and>
    (\<forall>\<rho>. \<forall>i < os_size os. arr_val \<rho> os' i = arr_val \<rho> os i)"
proof (cases "upd_root os")
  case (Some a)
  with assms show ?thesis by (simp add: getUpdates_def same_bytes_def)
next
  case None
  have ok: "upd_ok os" "os_size os \<le> 2 ^ 32" using assms(2) by (simp_all add: os_inv_def)
  let ?z = "Constant_alloc X 0 8"
  have z: "Constant_create X 0 8 = Some ?z" "?z = APInt 8 0"
    using apint_lib.Constant_alloc_valid [OF assms(1), of 8 0] apint_lib.Constant_create_valid [OF assms(1), of 8 0]
    by (simp_all add: apint.expand)
  have "bytes_ok (replicate (os_size os) ?z)" "wt_nodes (rev (upd_list os))"
    using ok by (simp_all add: bytes_ok_def valid_def z(2) upd_ok_def wt_nodes_iff)
  with pull_writes_correct [OF assms(1), of "replicate (os_size os) ?z" "rev (upd_list os)"] ok
  obtain C' rest where P: "pull_writes X (replicate (os_size os) ?z) (rev (upd_list os)) = Some (C', rest)"
    "length C' = os_size os" "bytes_ok C'" "set rest \<subseteq> set (upd_list os)"
    "\<And>\<rho> k p n s p' n' s'. k < os_size os \<Longrightarrow> read_nodes \<rho> (Array p' n' s' C') (rev rest) (int k) =
       read_nodes \<rho> (Array p n s (replicate (os_size os) ?z)) (upd_list os) (int k)"
    by (auto simp: upd_ok_def)
  define a where "a = Array (ctr + 1) (''const_arr'' @ utostr (ctr + 1)) (os_size os) C'"
  define os' where "os' = os\<lparr>upd_root := Some a, upd_list := rev rest\<rparr>"
  have val: "arr_val \<rho> os' i = arr_val \<rho> os i" if "i < os_size os" for \<rho> i
    using P(5) [OF that] None z(2) by (simp add: arr_val_def root_of_def os'_def a_def zero_array_def)
  have "upd_ok os'"
    using ok(1) P(3) by (auto simp: upd_ok_def os'_def root_of_def a_def array_ok_def bytes_ok_def wt_nodes_iff dest!: subsetD [OF P(4)])
  with val have "same_bytes os os'"
    by (intro same_bytes_updates [OF assms(2) os'_def]) auto
  moreover have "getUpdates X os ctr = Some (a, os', ctr + 1)"
    using None z(1) P(1) by (simp add: getUpdates_def os'_def a_def Let_def)
  ultimately show ?thesis using val by (simp add: os'_def)
qed

lemma word_index:
  assumes "i < 2 ^ 32"
  shows "take_bit 32 (uint (of_nat i :: uint64_t)) = int i" "take_bit 32 (of_nat i :: uint64_t) = of_nat i"
proof -
  have "uint (of_nat i :: uint64_t) = int i"
    using assms by (simp add: unsigned_of_nat take_bit_nat_eq_self)
  with assms show "take_bit 32 (uint (of_nat i :: uint64_t)) = int i"
    by (simp add: take_bit_int_eq_self)
  then show "take_bit 32 (of_nat i :: uint64_t) = of_nat i"
    by (metis of_int_of_nat_eq of_nat_take_bit take_bit_of_nat unsigned_take_bit_eq word_of_int_uint)
qed

lemma word_byte:
  "take_bit 8 (uint (ucast (v :: uint8_t) :: uint64_t)) = uint v" "take_bit 8 (ucast v :: uint64_t) = ucast v"
proof -
  have u: "uint (ucast v :: uint64_t) = uint v"
    using unsigned_less [where 'b = 8 and 'a = int and w = v] by (simp add: unsigned_ucast_eq take_bit_int_eq_self)
  then show "take_bit 8 (uint (ucast (v :: uint8_t) :: uint64_t)) = uint v" by simp
  with u show "take_bit 8 (ucast v :: uint64_t) = ucast v"
    by (metis unsigned_take_bit_eq word_of_int_uint)
qed

context apint_default
begin

lemma Constant_index:
  "i < 2 ^ 32 \<Longrightarrow> Constant_create X (of_nat i) 32 = Some (Constant_alloc X (of_nat i) 32)"
  using word_index(2) by (simp add: Constant_create_valid)

lemma Constant_byte:
  "Constant_create X (ucast (v :: uint8_t)) 8 = Some (Constant_alloc X (ucast v) 8)"
  using word_byte(2) by (simp add: Constant_create_valid)

lemma read8_correct:
  assumes "os_inv os" "i < os_size os"
  shows "\<exists>e os' ctr'. read8 X os ctr i = Some (e, os', ctr') \<and> wt e \<and> getWidth e = 8 \<and>
    (\<forall>\<rho>. eval \<rho> e = byte \<rho> os i) \<and> same_bytes os os'"
proof (cases "isByteConcrete os i")
  case True
  with assms show ?thesis by (simp add: read8_def Constant_byte word_byte byte_def same_bytes_def)
next
  case c: False
  have co: "coherent os i" using assms by (simp add: os_inv_def)
  show ?thesis
  proof (cases "knownSymbolic os i")
    case (Some e)
    with c co assms show ?thesis by (simp add: read8_def byte_def same_bytes_def coherent_def)
  next
    case None
    with c co have f: "isByteFlushed os i" by (simp add: coherent_def)
    have i: "i < 2 ^ 32" using assms by (simp add: os_inv_def)
    from getUpdates_correct [OF apint_lib_axioms assms(1), of ctr] obtain a os' ctr' where
      u: "getUpdates X os ctr = Some (a, os', ctr')" "upd_root os' = Some a" "same_bytes os os'"
        "\<And>\<rho>. arr_val \<rho> os' i = arr_val \<rho> os i" using assms(2) by blast
    have "array_ok a" "wt_nodes (upd_list os')"
      using u(2,3) by (simp_all add: same_bytes_def os_inv_def upd_ok_def root_of_def)
    with Read_create_creates [of "ConstantExpr (Constant_alloc X (of_nat i) 32)" a "upd_list os'"] i
    obtain e where e: "Read_create X a (upd_list os') (ConstantExpr (Constant_alloc X (of_nat i) 32)) = Some e"
      "wt e" "getWidth e = 8" "\<And>\<rho>. eval \<rho> e = read_nodes \<rho> a (upd_list os') (int i)"
      by (auto simp: word_index elim!: createsE)
    have "eval \<rho> e = byte \<rho> os i" for \<rho>
      using u(2) u(4) [of \<rho>] e(4) [of \<rho>] c None by (simp add: byte_def arr_val_def root_of_def)
    with u(1,3) e c None f i assms(2) show ?thesis by (simp add: read8_def Constant_index)
  qed
qed

end

section \<open>Flushing the caches\<close>

definition cleared :: "object_state \<Rightarrow> nat \<Rightarrow> bool" where
  "cleared os i \<longleftrightarrow> isByteFlushed os i \<and> \<not> isByteConcrete os i \<and> knownSymbolic os i = None"

text \<open>Writing the cached value of an unflushed byte back to the update list.\<close>

lemma flush_step:
  assumes inv: "os_inv os" and i: "i < os_size os" "\<not> isByteFlushed os i" "flushMask os \<noteq> None"
    and c: "valid c" "apw c = 32" "apv c = int i"
    and v: "wt v" "getWidth v = 8" "\<And>\<rho>. eval \<rho> v = byte \<rho> os i"
    and os': "os' = unset_flushMask (os\<lparr>upd_list := (ConstantExpr c, v) # upd_list os\<rparr>) i"
  shows "same_bytes os os'" "\<And>j. j < os_size os \<Longrightarrow> isByteFlushed os' j \<longleftrightarrow> i = j \<or> isByteFlushed os j"
    "\<And>j. isByteConcrete os' j = isByteConcrete os j" "\<And>j. knownSymbolic os' j = knownSymbolic os j" "flushMask os' \<noteq> None"
proof -
  let ?os1 = "os\<lparr>upd_list := (ConstantExpr c, v) # upd_list os\<rparr>"
  have sh: "shape ?os1" using inv by (simp add: os_inv_def shape_def split: option.splits)
  show f: "isByteFlushed os' j \<longleftrightarrow> i = j \<or> isByteFlushed os j" if "j < os_size os" for j
    using that sh i mark_flushed(2) [of ?os1 i j] by (simp add: os' test_defs)
  show t: "isByteConcrete os' j = isByteConcrete os j" "knownSymbolic os' j = knownSymbolic os j" for j
    by (simp_all add: os') (simp_all add: test_defs)
  show "flushMask os' \<noteq> None" using i by (simp add: os')
  have r: "root_of os' = root_of os" by (simp add: root_of_def os' split: option.split)
  have a: "arr_val \<rho> os' j = (if i = j then byte \<rho> os i else arr_val \<rho> os j)" for \<rho> j
    using c v r by (simp add: arr_val_def) (simp add: os')
  have b: "byte \<rho> os' j = byte \<rho> os j" if "j < os_size os" for \<rho> j
  proof (cases "i = j")
    case True
    have "coherent os i" using inv i by (simp add: os_inv_def)
    with True i t show ?thesis by (auto simp: coherent_def byte_def os')
  next
    case False
    with a [of \<rho> j] t show ?thesis by (simp add: byte_def os' split: option.split)
  qed
  have "coherent os' j" if "j < os_size os" for j
    using inv that f [OF that] b [OF that] a [of _ j] t by (auto simp: os_inv_def coherent_def)
  moreover have "upd_ok os'" using inv c v i r by (auto simp: os_inv_def upd_ok_def) (auto simp: os')
  ultimately show "same_bytes os os'" using inv sh b by (simp add: same_bytes_def os_inv_def os')
qed

text \<open>Dropping the cache of a flushed byte.\<close>

lemma drop_step:
  assumes inv: "os_inv os" and i: "i < os_size os" "isByteFlushed os i"
    and os': "os' = (if isByteConcrete os i then markByteSymbolic os i
      else if isByteKnownSymbolic os i then setKnownSymbolic os i None else os)"
  shows "same_bytes os os'" "cleared os' i" "\<And>j. j < os_size os \<Longrightarrow> cleared os j \<Longrightarrow> cleared os' j" "flushMask os' = flushMask os"
    "\<And>j. isByteFlushed os' j = isByteFlushed os j"
proof -
  have sh: "shape os" and co: "coherent os i" using inv i by (simp_all add: os_inv_def)
  have k: "isByteKnownSymbolic os j \<longleftrightarrow> knownSymbolic os j \<noteq> None" for j by (simp add: isByteKnownSymbolic_def)
  have t: "isByteConcrete os' j \<longleftrightarrow> i \<noteq> j \<and> isByteConcrete os j"
    "knownSymbolic os' j = (if i = j then None else knownSymbolic os j)" if "j < os_size os" for j
    using that sh i co by (auto simp: os' k coherent_def)
  show f: "isByteFlushed os' j = isByteFlushed os j" for j by (simp add: os')
  show "flushMask os' = flushMask os" by (simp add: os')
  show "cleared os' i" using i t [OF i(1)] f by (simp add: cleared_def)
  show "cleared os' j" if "j < os_size os" "cleared os j" for j
    using that t [OF that(1)] f by (simp add: cleared_def)
  have fields: "upd_root os' = upd_root os" "os_size os' = os_size os" "upd_list os' = upd_list os" "concreteStore os' = concreteStore os"
    by (simp_all add: os')
  have a: "arr_val \<rho> os' j = arr_val \<rho> os j" "upd_ok os' = upd_ok os" for \<rho> j using arr_val_cong [OF fields(1-3)] by simp_all
  have b: "byte \<rho> os' j = byte \<rho> os j" if "j < os_size os" for \<rho> j
    using that i co t [OF that] a(1) [of \<rho> j] fields by (cases "i = j") (auto simp: coherent_def byte_def split: option.split)
  have "coherent os' j" if "j < os_size os" for j
    using inv that f b [OF that] a(1) t [OF that] i by (auto simp: os_inv_def coherent_def)
  moreover have "shape os'" using sh by (simp add: os')
  ultimately show "same_bytes os os'" using inv b a fields by (simp add: same_bytes_def os_inv_def)
qed

lemma flushMask_or_new_same:
  assumes "os_inv os"
  shows "same_bytes os (flushMask_or_new os)"
proof -
  have f: "upd_root (flushMask_or_new os) = upd_root os" "os_size (flushMask_or_new os) = os_size os"
    "upd_list (flushMask_or_new os) = upd_list os" by simp_all
  note a = arr_val_cong [OF f]
  have b: "byte \<rho> (flushMask_or_new os) j = byte \<rho> os j" for \<rho> j
    using a [of \<rho> j] by (simp add: byte_def split: option.split)
  with a assms show ?thesis by (simp add: same_bytes_def os_inv_def coherent_def)
qed

context apint_default
begin

lemma cached_byte_correct:
  assumes "os_inv os" "i < os_size os" "\<not> isByteFlushed os i"
  shows "\<exists>v. cached_byte X os i = Some v \<and> wt v \<and> getWidth v = 8 \<and> (\<forall>\<rho>. eval \<rho> v = byte \<rho> os i)"
proof -
  have "coherent os i" using assms by (simp add: os_inv_def)
  with assms(3) show ?thesis
    by (auto simp: cached_byte_def Constant_byte word_byte byte_def coherent_def)
qed

lemma flush_read_loop_correct:
  assumes "os_inv os" "flushMask os \<noteq> None" "\<And>i. i \<in> set offs \<Longrightarrow> i < os_size os"
  shows "\<exists>os'. flush_read_loop X offs os = Some os' \<and> same_bytes os os' \<and>
    (\<forall>j < os_size os. j \<in> set offs \<or> isByteFlushed os j \<longrightarrow> isByteFlushed os' j)"
  using assms
proof (induction offs arbitrary: os)
  case Nil
  then show ?case by (simp add: same_bytes_def)
next
  case (Cons i offs)
  show ?case
  proof (cases "isByteFlushed os i")
    case True
    with Cons.IH [of os] Cons.prems show ?thesis by auto
  next
    case False
    have i: "i < os_size os" "i < 2 ^ 32" using Cons.prems(1) Cons.prems(3) [of i] by (simp_all add: os_inv_def)
    from cached_byte_correct [OF Cons.prems(1) i(1) False] obtain v where
      v: "cached_byte X os i = Some v" "wt v" "getWidth v = 8" "\<And>\<rho>. eval \<rho> v = byte \<rho> os i" by blast
    let ?c = "Constant_alloc X (of_nat i) 32"
    define os' where "os' = unset_flushMask (os\<lparr>upd_list := (ConstantExpr ?c, v) # upd_list os\<rparr>) i"
    note step = flush_step [OF Cons.prems(1) i(1) False Cons.prems(2), of ?c v os', OF _ _ _ v(2-4) os'_def]
    have s: "same_bytes os os'" "flushMask os' \<noteq> None" "\<And>j. j < os_size os \<Longrightarrow> isByteFlushed os' j \<longleftrightarrow> i = j \<or> isByteFlushed os j"
      using step(1,2,5) i(2) by (simp_all add: word_index)
    then have inv: "os_inv os'" "os_size os' = os_size os" by (simp_all add: same_bytes_def)
    from Cons.IH [OF inv(1) s(2)] inv Cons.prems(3) obtain os'' where
      o: "flush_read_loop X offs os' = Some os''" "same_bytes os' os''"
        "\<forall>j < os_size os. j \<in> set offs \<or> isByteFlushed os' j \<longrightarrow> isByteFlushed os'' j" by auto
    have "flush_read_loop X (i # offs) os = Some os''"
      using False v o(1) i(2) by (simp add: Constant_index extend_def os'_def)
    with o s same_bytes_trans [OF s(1) o(2)] show ?thesis by auto
  qed
qed

end

lemma unset_flushMask_commute:
  "unset_flushMask (markByteSymbolic os i) j = markByteSymbolic (unset_flushMask os j) i"
  "unset_flushMask (setKnownSymbolic os i v) j = setKnownSymbolic (unset_flushMask os j) i v"
  by (simp_all add: mark_defs Let_def split: option.split)

context apint_default
begin

text \<open>One turn of the write loop: the byte ends up flushed with its caches dropped.\<close>

lemma flush_write_step:
  assumes inv: "os_inv os" and i: "i < os_size os" and fm: "flushMask os \<noteq> None"
  shows "\<exists>os'. flush_write_loop X (i # offs) os = flush_write_loop X offs os' \<and> same_bytes os os' \<and> flushMask os' \<noteq> None \<and>
    cleared os' i \<and> (\<forall>j < os_size os. cleared os j \<longrightarrow> cleared os' j)"
proof (cases "isByteFlushed os i")
  case True
  define os' where "os' = (if isByteConcrete os i then markByteSymbolic os i
      else if isByteKnownSymbolic os i then setKnownSymbolic os i None else os)"
  note d = drop_step [OF inv i True os'_def]
  have "flush_write_loop X (i # offs) os = flush_write_loop X offs os'"
    using True by (simp add: os'_def Let_def)
  with d fm show ?thesis by auto
next
  case False
  have i2: "i < 2 ^ 32" using inv i by (simp add: os_inv_def)
  from cached_byte_correct [OF inv i False] obtain v where
    v: "cached_byte X os i = Some v" "wt v" "getWidth v = 8" "\<And>\<rho>. eval \<rho> v = byte \<rho> os i" by blast
  let ?c = "Constant_alloc X (of_nat i) 32"
  define os1 where "os1 = os\<lparr>upd_list := (ConstantExpr ?c, v) # upd_list os\<rparr>"
  define os2 where "os2 = unset_flushMask os1 i"
  note step = flush_step [OF inv i False fm, of ?c v os2, OF _ _ _ v(2-4) os2_def [unfolded os1_def]]
  have s: "same_bytes os os2" "flushMask os2 \<noteq> None" "\<And>j. j < os_size os \<Longrightarrow> isByteFlushed os2 j \<longleftrightarrow> i = j \<or> isByteFlushed os j"
    "\<And>j. isByteConcrete os2 j = isByteConcrete os j" "\<And>j. knownSymbolic os2 j = knownSymbolic os j"
    using step i2 by (simp_all add: word_index)
  then have inv2: "os_inv os2" "os_size os2 = os_size os" "isByteFlushed os2 i" using i by (simp_all add: same_bytes_def)
  define os' where "os' = (if isByteConcrete os2 i then markByteSymbolic os2 i
      else if isByteKnownSymbolic os2 i then setKnownSymbolic os2 i None else os2)"
  note d = drop_step [OF inv2(1) i [folded inv2(2)] inv2(3) os'_def]
  have "isByteConcrete os i \<or> isByteKnownSymbolic os i"
    using inv i False by (auto simp: os_inv_def coherent_def isByteKnownSymbolic_def)
  then have "flush_write_loop X (i # offs) os = flush_write_loop X offs os'"
    using False v(1,3) i2 s(4,5)
    by (auto simp: Constant_index extend_def unset_flushMask_commute os'_def os2_def os1_def Let_def isByteKnownSymbolic_def)
  moreover have "cleared os' j" if "j < os_size os" "cleared os j" for j
    using that s d(3) [of j] inv2(2) by (simp add: cleared_def)
  ultimately show ?thesis using d(2,4) s(2) same_bytes_trans [OF s(1) d(1)] by auto
qed

lemma flush_write_loop_correct:
  assumes "os_inv os" "flushMask os \<noteq> None" "\<And>i. i \<in> set offs \<Longrightarrow> i < os_size os"
  shows "\<exists>os'. flush_write_loop X offs os = Some os' \<and> same_bytes os os' \<and>
    (\<forall>j < os_size os. j \<in> set offs \<or> cleared os j \<longrightarrow> cleared os' j)"
  using assms
proof (induction offs arbitrary: os)
  case Nil
  then show ?case by (simp add: same_bytes_def)
next
  case (Cons i offs)
  from flush_write_step [OF Cons.prems(1) Cons.prems(3) Cons.prems(2), of i offs] obtain os' where
    s: "flush_write_loop X (i # offs) os = flush_write_loop X offs os'" "same_bytes os os'" "flushMask os' \<noteq> None"
      "cleared os' i" "\<forall>j < os_size os. cleared os j \<longrightarrow> cleared os' j" by auto
  have inv: "os_inv os'" "os_size os' = os_size os" using s(2) by (simp_all add: same_bytes_def)
  from Cons.IH [OF inv(1) s(3)] Cons.prems(3) inv obtain os'' where
    o: "flush_write_loop X offs os' = Some os''" "same_bytes os' os''"
      "\<forall>j < os_size os. j \<in> set offs \<or> cleared os' j \<longrightarrow> cleared os'' j" by auto
  with s same_bytes_trans [OF s(2) o(2)] show ?case by auto
qed

lemma flushRange_correct:
  assumes "os_inv os"
  shows "\<exists>os'. flushRangeForRead X os 0 (os_size os) = Some os' \<and> same_bytes os os' \<and> (\<forall>j < os_size os. isByteFlushed os' j)"
    "\<exists>os'. flushRangeForWrite X os 0 (os_size os) = Some os' \<and> same_bytes os os' \<and> (\<forall>j < os_size os. cleared os' j)"
proof -
  note n = flushMask_or_new_same [OF assms]
  have m: "os_inv (flushMask_or_new os)" "flushMask (flushMask_or_new os) \<noteq> None" using n by (simp_all add: same_bytes_def)
  show "\<exists>os'. flushRangeForRead X os 0 (os_size os) = Some os' \<and> same_bytes os os' \<and> (\<forall>j < os_size os. isByteFlushed os' j)"
    using flush_read_loop_correct [OF m, of "[0..<os_size os]"] same_bytes_trans [OF n] by (fastforce simp: flushRangeForRead_def)
  show "\<exists>os'. flushRangeForWrite X os 0 (os_size os) = Some os' \<and> same_bytes os os' \<and> (\<forall>j < os_size os. cleared os' j)"
    using flush_write_loop_correct [OF m, of "[0..<os_size os]"] same_bytes_trans [OF n] by (fastforce simp: flushRangeForWrite_def)
qed

end

section \<open>Byte accesses at symbolic offsets\<close>

text \<open>A write at a symbolic index, once every cache is dropped.\<close>

lemma extend_symbolic:
  assumes inv: "os_inv os" and cl: "\<And>j. j < os_size os \<Longrightarrow> cleared os j"
    and i: "wt i" "getWidth i = 32" "\<not> is_constant i" and v: "wt v" "getWidth v = 8"
  shows "\<exists>os'. extend os i v = Some os' \<and> os_inv os' \<and> os_size os' = os_size os \<and>
    (\<forall>\<rho>. \<forall>j < os_size os. byte \<rho> os' j = (if eval \<rho> i = int j then eval \<rho> v else byte \<rho> os j))"
proof -
  define os' where "os' = os\<lparr>upd_list := (i, v) # upd_list os\<rparr>"
  have r: "root_of os' = root_of os" by (simp add: root_of_def os'_def split: option.split)
  have cl': "cleared os' j = cleared os j" for j by (simp add: cleared_def os'_def test_defs)
  have b: "cleared os j \<Longrightarrow> byte \<rho> os j = arr_val \<rho> os j" for os \<rho> j by (simp add: cleared_def byte_def)
  have a: "arr_val \<rho> os' j = (if eval \<rho> i = int j then eval \<rho> v else arr_val \<rho> os j)" for \<rho> j
    by (simp add: arr_val_def r) (simp add: os'_def)
  have "upd_ok os'"
    using inv i v by (auto simp: os_inv_def upd_ok_def r) (auto simp: os'_def is_constant_def)
  moreover have "shape os'" using inv by (simp add: os'_def os_inv_def shape_def split: option.splits)
  moreover have "coherent os' j" if "j < os_size os" for j
  proof -
    have c: "cleared os' j" using cl [OF that] cl' by simp
    with b [OF c] show ?thesis by (simp add: coherent_def cleared_def)
  qed
  moreover have "os_size os' = os_size os" by (simp add: os'_def)
  moreover have "extend os i v = Some os'" using v by (simp add: extend_def os'_def)
  moreover have "byte \<rho> os' j = (if eval \<rho> i = int j then eval \<rho> v else byte \<rho> os j)" if "j < os_size os" for \<rho> j
    using b [of os' j \<rho>] b [of os j \<rho>] cl [OF that] a [of \<rho> j] by (simp add: cl')
  ultimately show ?thesis using inv by (simp add: os_inv_def)
qed

context apint_default
begin

lemma ZExt_32: "getWidth e = 32 \<Longrightarrow> ZExt_create X e 32 = Some e"
  by (simp add: ZExt_create_def)

lemma read8_sym_correct:
  assumes "os_inv os" "wt i" "getWidth i = 32" "\<not> is_constant i"
  shows "\<exists>e os' ctr'. read8_sym X os ctr i = Some (e, os', ctr') \<and> wt e \<and> getWidth e = 8 \<and> same_bytes os os' \<and>
    (\<forall>\<rho>. \<forall>j < os_size os. eval \<rho> i = int j \<longrightarrow> eval \<rho> e = byte \<rho> os j)"
proof -
  from flushRange_correct(1) [OF assms(1)] obtain os1 where
    f: "flushRangeForRead X os 0 (os_size os) = Some os1" "same_bytes os os1" "\<forall>j < os_size os. isByteFlushed os1 j" by blast
  have inv1: "os_inv os1" "os_size os1 = os_size os" using f(2) by (simp_all add: same_bytes_def)
  from getUpdates_correct [OF apint_lib_axioms inv1(1), of ctr] obtain a os2 ctr' where
    u: "getUpdates X os1 ctr = Some (a, os2, ctr')" "upd_root os2 = Some a" "same_bytes os1 os2"
      "\<And>\<rho> j. j < os_size os \<Longrightarrow> arr_val \<rho> os2 j = arr_val \<rho> os1 j" using inv1 by auto
  have ok: "array_ok a" "wt_nodes (upd_list os2)"
    using u(2,3) by (simp_all add: same_bytes_def os_inv_def upd_ok_def root_of_def)
  from Read_create_creates [OF assms(2,3) ok] obtain e where
    e: "Read_create X a (upd_list os2) i = Some e" "wt e" "getWidth e = 8" "\<And>\<rho>. eval \<rho> e = read_nodes \<rho> a (upd_list os2) (eval \<rho> i)"
    by (auto elim!: createsE)
  have "eval \<rho> e = byte \<rho> os j" if "j < os_size os" "eval \<rho> i = int j" for \<rho> j
  proof -
    have "eval \<rho> e = arr_val \<rho> os1 j"
      using e(4) [of \<rho>] that u(2) u(4) [of j \<rho>] by (simp add: arr_val_def root_of_def)
    also have "\<dots> = byte \<rho> os1 j" using inv1 f(3) that by (simp add: os_inv_def coherent_def)
    finally show ?thesis using f(2) that by (simp add: same_bytes_def)
  qed
  moreover have "read8_sym X os ctr i = Some (e, os2, ctr')"
    using assms f u e by (simp add: read8_sym_def fastRangeCheckOffset_def ZExt_32)
  ultimately show ?thesis using e same_bytes_trans [OF f(2) u(3)] by auto
qed

lemma write8_sym_correct:
  assumes "os_inv os" "wt i" "getWidth i = 32" "\<not> is_constant i" "wt v" "getWidth v = 8"
  shows "\<exists>os'. write8_sym X os i v = Some os' \<and> os_inv os' \<and> os_size os' = os_size os \<and>
    (\<forall>\<rho>. \<forall>j < os_size os. byte \<rho> os' j = (if eval \<rho> i = int j then eval \<rho> v else byte \<rho> os j))"
proof -
  from flushRange_correct(2) [OF assms(1)] obtain os1 where
    f: "flushRangeForWrite X os 0 (os_size os) = Some os1" "same_bytes os os1" "\<forall>j < os_size os. cleared os1 j" by blast
  then have inv1: "os_inv os1" "os_size os1 = os_size os" "\<And>j. j < os_size os1 \<Longrightarrow> cleared os1 j" by (simp_all add: same_bytes_def)
  from extend_symbolic [OF inv1(1,3) assms(2-6)] obtain os' where
    "extend os1 i v = Some os'" "os_inv os'" "os_size os' = os_size os"
    "\<forall>\<rho>. \<forall>j < os_size os. byte \<rho> os' j = (if eval \<rho> i = int j then eval \<rho> v else byte \<rho> os1 j)" by (auto simp: inv1(2))
  with f assms(3,4) show ?thesis by (simp add: write8_sym_def fastRangeCheckOffset_def ZExt_32 same_bytes_def)
qed

end

section \<open>Wider accesses\<close>

fun concat_bytes :: "int list \<Rightarrow> int" where
  "concat_bytes [] = 0"
| "concat_bytes (b # bs) = push_bit 8 (concat_bytes bs) OR b"

lemma push_bit_or: "push_bit n (a OR b) = push_bit n a OR push_bit n (b :: int)"
  by (rule bit_eqI) (auto simp: bit_simps)

lemma concat_bytes_snoc: "concat_bytes (bs @ [b]) = push_bit (8 * length bs) b OR concat_bytes bs"
  by (induction bs) (simp_all add: push_bit_or or.assoc add.commute)

lemma bytes_val_concat: "bytes_val f n = concat_bytes (map f [0..<n])"
  by (induction n) (simp_all add: concat_bytes_snoc)

lemma byte_index_less: "i < n \<Longrightarrow> byte_index C n i < n"
  by (simp add: byte_index_def)

lemma byte_index_involutive: "i < n \<Longrightarrow> byte_index C n (byte_index C n i) = i"
  by (simp add: byte_index_def)

lemma byte_index_inj: "inj_on (byte_index C n) {0..<n}"
  by (rule inj_on_inverseI [of _ "byte_index C n"]) (simp add: byte_index_involutive)

text \<open>The value of the \<open>n\<close> bytes from \<open>off\<close> on, in the byte order of the target.\<close>

definition word_val :: "klee_context \<Rightarrow> assignment \<Rightarrow> object_state \<Rightarrow> nat \<Rightarrow> nat \<Rightarrow> int" where
  "word_val C \<rho> os off n = bytes_val (\<lambda>i. byte \<rho> os (off + byte_index C n i)) n"

context apint_default
begin

lemma read_loop_correct:
  assumes "os_inv os" "\<And>i. i \<in> set idxs \<Longrightarrow> off + i < os_size os" "wt r" "getWidth r = 8 * n"
  shows "\<exists>e os' ctr'. read_loop X (\<lambda>os ctr idx. read8 X os ctr (off + idx)) idxs (Some r) os ctr = Some (e, os', ctr') \<and>
    wt e \<and> getWidth e = 8 * (n + length idxs) \<and> same_bytes os os' \<and>
    (\<forall>\<rho>. eval \<rho> e = push_bit (8 * n) (concat_bytes (map (\<lambda>i. byte \<rho> os (off + i)) idxs)) OR eval \<rho> r)"
  using assms
proof (induction idxs arbitrary: os r n ctr)
  case Nil
  then show ?case by (simp add: same_bytes_def)
next
  case (Cons i idxs)
  have i: "off + i < os_size os" using Cons.prems(2) by simp
  from read8_correct [OF Cons.prems(1) i, of ctr] obtain b os1 ctr1 where
    b: "read8 X os ctr (off + i) = Some (b, os1, ctr1)" "wt b" "getWidth b = 8" "\<And>\<rho>. eval \<rho> b = byte \<rho> os (off + i)"
      "same_bytes os os1" by blast
  from Concat_create_creates [OF b(2) Cons.prems(3) b(3) Cons.prems(4)] obtain r1 where
    r: "Concat_create X b r = Some r1" "wt r1" "getWidth r1 = 8 * Suc n"
      "\<And>\<rho>. eval \<rho> r1 = push_bit (8 * n) (eval \<rho> b) OR eval \<rho> r" by (auto elim!: createsE)
  have inv1: "os_inv os1" "\<And>i. i \<in> set idxs \<Longrightarrow> off + i < os_size os1"
    using b(5) Cons.prems(2) by (simp_all add: same_bytes_def)
  from Cons.IH [OF inv1 r(2,3), of ctr1] obtain e os' ctr' where
    e: "read_loop X (\<lambda>os ctr idx. read8 X os ctr (off + idx)) idxs (Some r1) os1 ctr1 = Some (e, os', ctr')"
      "wt e" "getWidth e = 8 * (Suc n + length idxs)" "same_bytes os1 os'"
      "\<And>\<rho>. eval \<rho> e = push_bit (8 * Suc n) (concat_bytes (map (\<lambda>i. byte \<rho> os1 (off + i)) idxs)) OR eval \<rho> r1" by blast
  have same: "map (\<lambda>i. byte \<rho> os1 (off + i)) idxs = map (\<lambda>i. byte \<rho> os (off + i)) idxs" for \<rho>
    using b(5) Cons.prems(2) by (simp add: same_bytes_def)
  have "eval \<rho> e = push_bit (8 * n) (concat_bytes (map (\<lambda>i. byte \<rho> os (off + i)) (i # idxs))) OR eval \<rho> r" for \<rho>
    using e(5) [of \<rho>] unfolding same by (simp add: r(4) b(4) push_bit_or or.assoc add.commute [of 8])
  with e(1-3) b(1) r(1) same_bytes_trans [OF b(5) e(4)] show ?case by simp
qed

lemma read_correct:
  assumes "os_inv os" "0 < n" "off + n \<le> os_size os"
  shows "\<exists>e os' ctr'. read X C os ctr off (8 * n) = Some (e, os', ctr') \<and> wt e \<and> getWidth e = 8 * n \<and> same_bytes os os' \<and>
    (\<forall>\<rho>. eval \<rho> e = word_val C \<rho> os off n)"
proof -
  let ?p = "byte_index C n"
  have p: "off + ?p i < os_size os" if "i < n" for i
    using byte_index_less [OF that, of C] assms(3) by simp
  have idxs: "map ?p [0..<n] = ?p 0 # map ?p [1..<n]" using assms(2) by (simp add: upt_rec)
  from read8_correct [OF assms(1) p, of 0 ctr] assms(2) obtain b os1 ctr1 where
    b: "read8 X os ctr (off + ?p 0) = Some (b, os1, ctr1)" "wt b" "getWidth b = 8 * 1" "\<And>\<rho>. eval \<rho> b = byte \<rho> os (off + ?p 0)"
      "same_bytes os os1" by auto
  have inv1: "os_inv os1" "\<And>i. i \<in> set (map ?p [1..<n]) \<Longrightarrow> off + i < os_size os1"
    using b(5) p by (auto simp: same_bytes_def)
  have len: "8 * (1 + length (map ?p [1..<n])) = 8 * n" using assms(2) by simp
  from read_loop_correct [of os1 "map ?p [1..<n]" off b 1 ctr1, OF inv1 b(2,3)] obtain e os' ctr' where
    e: "read_loop X (\<lambda>os ctr idx. read8 X os ctr (off + idx)) (map ?p [1..<n]) (Some b) os1 ctr1 = Some (e, os', ctr')"
      "wt e" "getWidth e = 8 * n" "same_bytes os1 os'"
      "\<And>\<rho>. eval \<rho> e = push_bit 8 (concat_bytes (map (\<lambda>i. byte \<rho> os1 (off + i)) (map ?p [1..<n]))) OR eval \<rho> b"
    unfolding len by (metis mult.right_neutral)
  have same: "map (\<lambda>i. byte \<rho> os1 (off + i)) (map ?p [1..<n]) = map (\<lambda>i. byte \<rho> os (off + ?p i)) [1..<n]" for \<rho>
    using b(5) p by (simp add: same_bytes_def)
  have "[0..<n] = 0 # [1..<n]" using assms(2) by (simp add: upt_rec)
  then have "eval \<rho> e = word_val C \<rho> os off n" for \<rho>
    using e(5) [of \<rho>] unfolding same by (simp add: word_val_def bytes_val_concat b(4))
  moreover have "read X C os ctr off (8 * n) = Some (e, os', ctr')"
    using b(1) e(1) by (simp add: read_def idxs Let_def)
  ultimately show ?thesis using e(2,3) same_bytes_trans [OF b(5) e(4)] by blast
qed

lemma read_bool_correct:
  assumes "os_inv os" "off < os_size os"
  shows "\<exists>e os' ctr'. read X C os ctr off 1 = Some (e, os', ctr') \<and> wt e \<and> getWidth e = 1 \<and> same_bytes os os' \<and>
    (\<forall>\<rho>. eval \<rho> e = take_bit 1 (byte \<rho> os off))"
proof -
  from read8_correct [OF assms, of ctr] obtain b os1 ctr1 where
    b: "read8 X os ctr off = Some (b, os1, ctr1)" "wt b" "getWidth b = 8" "\<And>\<rho>. eval \<rho> b = byte \<rho> os off"
      "same_bytes os os1" by blast
  from Extract_creates [of b 1 0] b obtain e where
    "Extract_create X b 0 1 = Some e" "wt e" "getWidth e = 1" "\<And>\<rho>. eval \<rho> e = take_bit 1 (byte \<rho> os off)"
    by (auto elim!: createsE)
  with b show ?thesis by (simp add: read_def)
qed

end

text \<open>
  Both write loops are a sequence of byte writes: \<open>step\<close> writes the value \<open>sel i\<close> at \<open>p i\<close>.
\<close>

fun write_seq :: "(object_state \<Rightarrow> nat \<Rightarrow> object_state option) \<Rightarrow> nat list \<Rightarrow> object_state \<Rightarrow> object_state option" where
  "write_seq step [] os = Some os"
| "write_seq step (i # is) os = do { os' \<leftarrow> step os i; write_seq step is os' }"

definition wrote :: "(object_state \<Rightarrow> object_state \<Rightarrow> bool) \<Rightarrow> object_state \<Rightarrow> object_state option \<Rightarrow> bool" where
  "wrote R os m \<longleftrightarrow> (\<exists>os'. m = Some os' \<and> os_inv os' \<and> os_size os' = os_size os \<and> R os os')"

lemma write_seq_correct:
  assumes "os_inv os" "inj_on p (set is)" "\<And>i. i \<in> set is \<Longrightarrow> p i < os_size os"
    and step: "\<And>os' i. os_inv os' \<Longrightarrow> i \<in> set is \<Longrightarrow> p i < os_size os' \<Longrightarrow>
      wrote (\<lambda>os os'. \<forall>\<rho>. \<forall>j < os_size os. byte \<rho> os' j = (if j = p i then sel \<rho> i else byte \<rho> os j)) os' (step os' i)"
  shows "wrote (\<lambda>os os'. \<forall>\<rho>. \<forall>j < os_size os. (\<forall>i \<in> set is. j = p i \<longrightarrow> byte \<rho> os' j = sel \<rho> i) \<and>
      (j \<notin> p ` set is \<longrightarrow> byte \<rho> os' j = byte \<rho> os j)) os (write_seq step is os)"
  using assms
proof (induction "is" arbitrary: os)
  case Nil
  then show ?case by (simp add: wrote_def)
next
  case (Cons i "is")
  from Cons.prems(4) [OF Cons.prems(1), of i] Cons.prems(3) obtain os1 where
    s: "step os i = Some os1" "os_inv os1" "os_size os1 = os_size os"
      "\<And>\<rho> j. j < os_size os \<Longrightarrow> byte \<rho> os1 j = (if j = p i then sel \<rho> i else byte \<rho> os j)" by (auto simp: wrote_def)
  have "wrote (\<lambda>os os'. \<forall>\<rho>. \<forall>j < os_size os. (\<forall>i \<in> set is. j = p i \<longrightarrow> byte \<rho> os' j = sel \<rho> i) \<and>
      (j \<notin> p ` set is \<longrightarrow> byte \<rho> os' j = byte \<rho> os j)) os1 (write_seq step is os1)"
    using Cons.prems s(3) by (intro Cons.IH [OF s(2)]) auto
  then obtain os' where o: "write_seq step is os1 = Some os'" "os_inv os'" "os_size os' = os_size os"
    "\<And>\<rho> j k. j < os_size os \<Longrightarrow> k \<in> set is \<Longrightarrow> j = p k \<Longrightarrow> byte \<rho> os' j = sel \<rho> k"
    "\<And>\<rho> j. j < os_size os \<Longrightarrow> j \<notin> p ` set is \<Longrightarrow> byte \<rho> os' j = byte \<rho> os1 j"
    unfolding wrote_def s(3) by blast
  have "byte \<rho> os' (p i) = sel \<rho> i" if "p i < os_size os" for \<rho>
  proof (cases "p i \<in> p ` set is")
    case True
    then have "i \<in> set is" using Cons.prems(2) by (auto simp: inj_on_def)
    with o(4) that show ?thesis by blast
  next
    case False
    with o(5) s(4) that show ?thesis by simp
  qed
  with o s show ?case by (auto simp: wrote_def)
qed

text \<open>The bytes of a value laid out in the byte order of the target.\<close>

definition stored :: "klee_context \<Rightarrow> nat \<Rightarrow> nat \<Rightarrow> (assignment \<Rightarrow> int) \<Rightarrow> object_state \<Rightarrow> object_state \<Rightarrow> bool" where
  "stored C off n f os os' \<longleftrightarrow> (\<forall>\<rho>. \<forall>j < os_size os. byte \<rho> os' j =
     (if off \<le> j \<and> j < off + n then take_bit 8 (drop_bit (8 * byte_index C n (j - off)) (f \<rho>)) else byte \<rho> os j))"

lemma write_seq_stored:
  assumes "os_inv os" "off + n \<le> os_size os"
    and step: "\<And>os' i. os_inv os' \<Longrightarrow> i < n \<Longrightarrow> off + byte_index C n i < os_size os' \<Longrightarrow>
      wrote (\<lambda>os os'. \<forall>\<rho>. \<forall>j < os_size os. byte \<rho> os' j =
        (if j = off + byte_index C n i then take_bit 8 (drop_bit (8 * i) (f \<rho>)) else byte \<rho> os j)) os' (step os' i)"
  shows "wrote (stored C off n f) os (write_seq step [0..<n] os)"
proof -
  let ?p = "\<lambda>i. off + byte_index C n i" and ?sel = "\<lambda>\<rho> i. take_bit 8 (drop_bit (8 * i) (f \<rho>))"
  have inj: "inj_on ?p (set [0..<n])" using byte_index_inj [of C n] by (simp add: inj_on_def)
  have p: "?p i < os_size os" if "i \<in> set [0..<n]" for i
    using that assms(2) byte_index_less [of i n C] by simp
  have "wrote (\<lambda>os os'. \<forall>\<rho>. \<forall>j < os_size os. (\<forall>i \<in> set [0..<n]. j = ?p i \<longrightarrow> byte \<rho> os' j = ?sel \<rho> i) \<and>
      (j \<notin> ?p ` set [0..<n] \<longrightarrow> byte \<rho> os' j = byte \<rho> os j)) os (write_seq step [0..<n] os)"
    by (rule write_seq_correct [OF assms(1) inj p]) (use step in auto)
  then obtain os' where o: "write_seq step [0..<n] os = Some os'" "os_inv os'" "os_size os' = os_size os"
    "\<And>\<rho> j i. j < os_size os \<Longrightarrow> i < n \<Longrightarrow> j = ?p i \<Longrightarrow> byte \<rho> os' j = ?sel \<rho> i"
    "\<And>\<rho> j. j < os_size os \<Longrightarrow> j \<notin> ?p ` {0..<n} \<Longrightarrow> byte \<rho> os' j = byte \<rho> os j"
    by (auto simp: wrote_def)
  have "stored C off n f os os'"
    unfolding stored_def
  proof (intro allI impI)
    fix \<rho> j assume j: "j < os_size os"
    show "byte \<rho> os' j = (if off \<le> j \<and> j < off + n then ?sel \<rho> (byte_index C n (j - off)) else byte \<rho> os j)"
    proof (cases "off \<le> j \<and> j < off + n")
      case True
      then have "j - off < n" by auto
      with True o(4) [OF j, of "byte_index C n (j - off)"] show ?thesis
        by (simp add: byte_index_involutive byte_index_less)
    next
      case False
      then have "j \<notin> ?p ` {0..<n}" using byte_index_less [of _ n C] by fastforce
      with False o(5) [OF j] show ?thesis by auto
    qed
  qed
  with o show ?thesis by (simp add: wrote_def)
qed

lemma write_bytes_seq:
  "write_bytes C n is os off v = write_seq (\<lambda>os i. write8 os (off + byte_index C n i) (ucast (drop_bit (8 * i) v))) is os"
  by (induction "is" arbitrary: os) simp_all

lemma write_loop_seq:
  "write_loop X C wr n is v os = write_seq (\<lambda>os i. do { b \<leftarrow> Extract_create X v (8 * i) 8; wr os (byte_index C n i) b }) is os"
  by (induction "is" arbitrary: os) (auto split: Option.bind_split)

lemma uint_byte_of: "uint (ucast (drop_bit k (v :: uint64_t)) :: uint8_t) = take_bit 8 (drop_bit k (uint v))"
proof -
  have "take_bit 64 (uint v) = uint v"
    using unsigned_less [where 'b = 64 and 'a = int and w = v] by (simp add: take_bit_int_eq_self)
  then show ?thesis by (simp add: unsigned_ucast_eq unsigned_drop_bit_eq)
qed

lemma write_bytes_correct:
  assumes "os_inv os" "off + n \<le> os_size os"
  shows "wrote (stored C off n (\<lambda>\<rho>. uint v)) os (write_bytes C n [0..<n] os off v)"
  unfolding write_bytes_seq
proof (rule write_seq_stored [OF assms])
  fix os' i assume "os_inv os'" "i < n" "off + byte_index C n i < os_size os'"
  then show "wrote (\<lambda>os os'. \<forall>\<rho>. \<forall>j < os_size os. byte \<rho> os' j =
      (if j = off + byte_index C n i then take_bit 8 (drop_bit (8 * i) (uint v)) else byte \<rho> os j)) os'
      (write8 os' (off + byte_index C n i) (ucast (drop_bit (8 * i) v)))"
    using write8_correct [of os' "off + byte_index C n i" "ucast (drop_bit (8 * i) v)"]
    by (auto simp: wrote_def uint_byte_of)
qed

lemma write_loop_correct:
  assumes "apint_lib X" "os_inv os" "off + n \<le> os_size os" "wt v" "getWidth v = 8 * n"
  shows "wrote (stored C off n (\<lambda>\<rho>. eval \<rho> v)) os
    (write_loop X C (\<lambda>os idx b. write8_expr X os (off + idx) b) n [0..<n] v os)"
  unfolding write_loop_seq
proof (rule write_seq_stored [OF assms(2,3)])
  fix os' i assume i: "os_inv os'" "i < n" "off + byte_index C n i < os_size os'"
  have "8 * i + 8 \<le> getWidth v" using i(2) assms(5) by simp
  with Extract_create_creates [OF assms(1,4), of 8 "8 * i"] obtain b where
    b: "Extract_create X v (8 * i) 8 = Some b" "wt b" "getWidth b = 8" "\<And>\<rho>. eval \<rho> b = take_bit 8 (drop_bit (8 * i) (eval \<rho> v))"
    by (auto elim!: createsE)
  with write8_expr_correct [OF assms(1) i(1,3) b(2,3)]
  show "wrote (\<lambda>os os'. \<forall>\<rho>. \<forall>j < os_size os. byte \<rho> os' j =
      (if j = off + byte_index C n i then take_bit 8 (drop_bit (8 * i) (eval \<rho> v)) else byte \<rho> os j)) os'
      (Option.bind (Extract_create X v (8 * i) 8) (write8_expr X os' (off + byte_index C n i)))"
    by (auto simp: wrote_def)
qed

text \<open>The widths \<open>write\<close> accepts, and the number of bytes they take.\<close>

definition store_bytes :: "nat \<Rightarrow> nat" where
  "store_bytes w = (if w = 1 then 1 else w div 8)"

definition storable :: "expr \<Rightarrow> bool" where
  "storable v \<longleftrightarrow> wt v \<and> (getWidth v = 1 \<or> 8 dvd getWidth v) \<and>
     (is_constant v \<and> getWidth v \<le> 64 \<longrightarrow> getWidth v \<in> {1, 8, 16, 32, 64})"

lemma byte_index_one [simp]: "byte_index C (Suc 0) 0 = 0"
  by (simp add: byte_index_def)

text \<open>A write of a single byte.\<close>

lemma stored_byte:
  assumes "\<exists>os'. m = Some os' \<and> os_inv os' \<and> os_size os' = os_size os \<and>
      (\<forall>\<rho>. \<forall>j < os_size os. byte \<rho> os' j = (if j = off then g \<rho> else byte \<rho> os j))"
    and "\<And>\<rho>. g \<rho> = take_bit 8 (f \<rho>)"
  shows "wrote (stored C off 1 f) os m"
  using assms by (auto simp: wrote_def stored_def)

lemma write_const_correct:
  assumes "os_inv os" "off + store_bytes w \<le> os_size os" "w \<in> {1, 8, 16, 32, 64}" "take_bit w (uint v) = uint v"
  shows "wrote (stored C off (store_bytes w) (\<lambda>\<rho>. uint v)) os (write_const C os off w v)"
proof -
  have t: "take_bit w v = v" using assms(4) by (metis unsigned_take_bit_eq word_of_int_uint)
  consider "w = 1 \<or> w = 8" | "w = 16" | "w = 32" | "w = 64" using assms(3) by auto
  then show ?thesis
  proof cases
    case 1
    then have n: "store_bytes w = 1" by (auto simp: store_bytes_def)
    have "uint (ucast v :: uint8_t) = take_bit 8 (uint v)" using uint_byte_of [of 0 v] by simp
    with stored_byte [OF write8_correct, of os off "ucast v" "\<lambda>\<rho>. uint v"] 1 n assms(1,2) show ?thesis
      by (auto simp: write_const_def)
  next
    case 2
    with write_bytes_correct [OF assms(1), of off 2 C v] assms(2) t show ?thesis
      by (simp add: write_const_def write16_def store_bytes_def)
  next
    case 3
    with write_bytes_correct [OF assms(1), of off 4 C v] assms(2) t show ?thesis
      by (simp add: write_const_def write32_def store_bytes_def)
  next
    case 4
    with write_bytes_correct [OF assms(1), of off 8 C v] assms(2) show ?thesis
      by (simp add: write_const_def write64_def store_bytes_def)
  qed
qed

lemma is_constant_iff: "is_constant e \<longleftrightarrow> (\<exists>c. e = ConstantExpr c)"
  by (cases e) (simp_all add: is_constant_def)

context apint_default
begin

lemma write_general_correct:
  assumes "os_inv os" "wt v" "getWidth v = 1 \<or> 8 dvd getWidth v" "off + store_bytes (getWidth v) \<le> os_size os"
  shows "wrote (stored C off (store_bytes (getWidth v)) (\<lambda>\<rho>. eval \<rho> v)) os
    (write_general X C (\<lambda>os idx b. write8_expr X os (off + idx) b) os v)"
proof (cases "getWidth v = 1")
  case True
  have one: "take_bit 8 (eval \<rho> v) = eval \<rho> v" for \<rho>
  proof -
    have "take_bit 8 (take_bit 1 (eval \<rho> v)) = take_bit 1 (eval \<rho> v)"
      by (simp only: take_bit_take_bit)
    then show ?thesis unfolding eval_take_bit [OF assms(2) True] .
  qed
  from ZExt_create_creates [OF assms(2), of 8] obtain b where
    b: "ZExt_create X v 8 = Some b" "wt b" "getWidth b = 8" "\<And>\<rho>. eval \<rho> b = eval \<rho> v"
    by (auto elim!: createsE simp: one)
  have "off < os_size os" using True assms(4) by (simp add: store_bytes_def)
  from stored_byte [OF write8_expr_correct [OF apint_lib_axioms assms(1) this b(2,3)], of "\<lambda>\<rho>. eval \<rho> v"]
  have "wrote (stored C off 1 (\<lambda>\<rho>. eval \<rho> v)) os (write8_expr X os off b)" by (simp only: b(4) one)
  then show ?thesis by (simp add: write_general_def store_bytes_def True b(1))
next
  case False
  with assms(3) obtain n where w: "getWidth v = 8 * n" by auto
  from write_loop_correct [OF apint_lib_axioms assms(1) _ assms(2) w, of off C] False assms(4) w
  show ?thesis by (simp add: write_general_def store_bytes_def Let_def)
qed

lemma os_write_correct:
  assumes "os_inv os" "storable v" "off + store_bytes (getWidth v) \<le> os_size os"
  shows "wrote (stored C off (store_bytes (getWidth v)) (\<lambda>\<rho>. eval \<rho> v)) os (os_write X C os off v)"
proof -
  have v: "wt v" "getWidth v = 1 \<or> 8 dvd getWidth v" using assms(2) by (simp_all add: storable_def)
  note gen = write_general_correct [OF assms(1) v assms(3)]
  show ?thesis
  proof (cases "is_constant v \<and> getWidth v \<le> 64")
    case True
    then obtain c where c: "v = ConstantExpr c" by (auto simp: is_constant_iff)
    let ?v = "word_of_int (apv c) :: uint64_t"
    have d: "valid c" "apw c \<in> {1, 8, 16, 32, 64}" "apw c \<le> 64" using c True assms(2) v by (simp_all add: storable_def)
    have "(2 :: int) ^ apw c \<le> 2 ^ 64" using d(3) by (intro power_increasing) simp_all
    then have "take_bit 64 (apv c) = apv c" using valid_range [OF d(1)] by (intro take_bit_int_eq_self) linarith+
    then have u: "uint ?v = apv c" using valid_range [OF d(1)] by (simp add: unsigned_of_int)
    have "os_write X C os off v = write_const C os off (apw c) ?v"
      unfolding os_write_def Let_def c using getZExtValue_valid [OF d(1,3)] d(3) by simp
    moreover have "take_bit (apw c) (uint ?v) = uint ?v" using d(1) u by (simp add: valid_def)
    moreover have "off + store_bytes (apw c) \<le> os_size os" using assms(3) c by simp
    ultimately show ?thesis
      using write_const_correct [OF assms(1) _ d(2), of off ?v C] unfolding u c by simp
  next
    case False
    have "os_write X C os off v = write_general X C (\<lambda>os idx b. write8_expr X os (off + idx) b) os v"
    proof (cases "is_constant v")
      case True
      with False obtain c where "v = ConstantExpr c" "\<not> apw c \<le> 64" by (auto simp: is_constant_iff)
      then show ?thesis by (simp add: os_write_def)
    next
      case False
      then show ?thesis by (simp add: os_write_def case_not_const is_constant_iff)
    qed
    with gen show ?thesis by simp
  qed
qed

end

section \<open>Construction\<close>

lemma shape_concrete:
  "length (concreteStore os) = os_size os \<Longrightarrow> concreteMask os = None \<Longrightarrow> flushMask os = None \<Longrightarrow> knownSymbolics os = None \<Longrightarrow>
   shape os \<and> coherent os i"
  by (simp add: shape_def mask_ok_def coherent_def test_defs)

lemma new_ObjectState_inv:
  assumes "mo_size mo \<le> length garbage" "mo_size mo \<le> 2 ^ 32"
  shows "os_inv (fst (new_ObjectState C mo garbage ctr))"
  using assms by (auto simp: new_ObjectState_def os_inv_def upd_ok_def root_of_def array_ok_def zero_array_def valid_def Let_def
      intro: shape_concrete [THEN conjunct1] shape_concrete [THEN conjunct2])

lemma makeConcrete_inv:
  assumes "os_inv os" "length st = os_size os"
  shows "os_inv ((makeConcrete os)\<lparr>concreteStore := st\<rparr>)" (is "os_inv ?os'")
proof -
  have f: "upd_root ?os' = upd_root os" "os_size ?os' = os_size os" "upd_list ?os' = upd_list os"
    by (simp_all add: makeConcrete_def)
  have "shape ?os' \<and> coherent ?os' j" for j using assms(2) by (intro shape_concrete) (simp_all add: makeConcrete_def)
  then show ?thesis using os_inv_pointwise [OF assms(1) _ f] by blast
qed

lemma mark_flushed_more:
  assumes "shape os" "i < os_size os" "j < os_size os" "i = j \<or> isByteFlushed os j"
  shows "isByteFlushed (markByteFlushed os i) j"
  using assms by (auto simp: shape_def mask_ok_def mark_defs test_defs split: option.splits)

lemma makeSymbolic_loop_correct:
  assumes "shape os" "\<And>i. i \<in> set is \<Longrightarrow> i < os_size os"
  shows "shape (makeSymbolic_loop is os) \<and> os_size (makeSymbolic_loop is os) = os_size os \<and>
    upd_root (makeSymbolic_loop is os) = upd_root os \<and> upd_list (makeSymbolic_loop is os) = upd_list os \<and>
    (\<forall>j < os_size os. j \<in> set is \<or> cleared os j \<longrightarrow> cleared (makeSymbolic_loop is os) j)"
  using assms
proof (induction "is" arbitrary: os)
  case Nil
  then show ?case by simp
next
  case (Cons i "is")
  define os' where "os' = markByteFlushed (setKnownSymbolic (markByteSymbolic os i) i None) i"
  have s: "shape os'" "os_size os' = os_size os" "upd_root os' = upd_root os" "upd_list os' = upd_list os"
    using Cons.prems(1) by (simp_all add: os'_def)
  have c: "cleared os' j" if "j < os_size os" "i = j \<or> cleared os j" for j
    using that Cons.prems unfolding cleared_def os'_def by (auto simp: mark_flushed_more)
  from Cons.IH [of os'] s Cons.prems(2) c show ?case unfolding makeSymbolic_loop.simps os'_def [symmetric] by auto
qed

lemma cleared_inv:
  assumes "shape os" "os_size os \<le> 2 ^ 32" "upd_ok os" "\<And>j. j < os_size os \<Longrightarrow> cleared os j"
  shows "os_inv os"
  using assms by (simp add: os_inv_def coherent_def cleared_def byte_def)

lemma makeSymbolic_inv:
  assumes "shape os" "os_size os \<le> 2 ^ 32" "upd_ok os" "makeSymbolic os = Some os'"
  shows "os_inv os'"
proof -
  have m: "os' = makeSymbolic_loop [0..<os_size os] os" using assms(4) by (simp add: makeSymbolic_def split: if_splits)
  have l: "shape os'" "os_size os' = os_size os" "upd_root os' = upd_root os" "upd_list os' = upd_list os"
    "\<forall>j < os_size os. cleared os' j"
    using makeSymbolic_loop_correct [OF assms(1), of "[0..<os_size os]"] m by simp_all
  have "upd_ok os'" using arr_val_cong [OF l(3,2,4)] assms(3) by simp
  with l assms(2) show ?thesis by (intro cleared_inv) simp_all
qed

lemma new_ObjectState_array_inv:
  assumes "mo_size mo \<le> length garbage" "mo_size mo \<le> 2 ^ 32" "array_ok a" "new_ObjectState_array mo a garbage = Some os"
  shows "os_inv os"
  using assms(4) unfolding new_ObjectState_array_def
  by (rule makeSymbolic_inv [rotated -1])
    (use assms(1-3) in \<open>auto simp: upd_ok_def root_of_def intro: shape_concrete [THEN conjunct1]\<close>)

lemma byte_owner: "byte \<rho> (os\<lparr>copyOnWriteOwner := k, readOnly := b\<rparr>) i = byte \<rho> os i"
  by (simp add: byte_def arr_val_def root_of_def test_defs split: option.split)

lemma os_inv_owner:
  assumes "os_inv os"
  shows "os_inv (os\<lparr>copyOnWriteOwner := k, readOnly := b\<rparr>)" (is "os_inv ?os'")
proof -
  have t: "isByteConcrete ?os' j = isByteConcrete os j" "isByteFlushed ?os' j = isByteFlushed os j"
    "knownSymbolic ?os' j = knownSymbolic os j" "arr_val \<rho> ?os' j = arr_val \<rho> os j" for \<rho> j
    by (simp_all add: test_defs arr_val_def root_of_def split: option.split)
  have "shape ?os'" using assms by (simp add: os_inv_def shape_def split: option.splits)
  moreover have "coherent ?os' j" if "j < os_size os" for j
    using assms that by (simp add: os_inv_def coherent_def t byte_owner)
  ultimately show ?thesis using os_inv_pointwise [OF assms, of ?os'] by simp
qed

lemma copy_ObjectState_inv: "os_inv os \<Longrightarrow> copy_ObjectState os = Some os' \<Longrightarrow> os_inv os'"
  by (auto simp: copy_ObjectState_def os_inv_owner split: if_splits)

section \<open>Every operation keeps the invariant\<close>

lemma read_loop_keeps:
  assumes "\<And>os ctr idx b os' ctr'. P os \<Longrightarrow> rd os ctr idx = Some (b, os', ctr') \<Longrightarrow> P os'"
    and "P os" "read_loop X rd idxs Res os ctr = Some (e, os', ctr')"
  shows "P os'"
  using assms(2,3)
proof (induction idxs arbitrary: Res os ctr)
  case Nil
  then show ?case by (auto simp: bind_eq_Some_conv)
next
  case (Cons i idxs)
  from Cons.prems(2) obtain b os1 ctr1 r where "rd os ctr i = Some (b, os1, ctr1)"
    "read_loop X rd idxs (Some r) os1 ctr1 = Some (e, os', ctr')" by (auto simp: bind_eq_Some_conv)
  with Cons.IH [of os1] assms(1) [OF Cons.prems(1)] show ?case by blast
qed

lemma write_seq_keeps:
  assumes "\<And>os i os'. P os \<Longrightarrow> i \<in> set is \<Longrightarrow> step os i = Some os' \<Longrightarrow> P os'" "P os" "write_seq step is os = Some os'"
  shows "P os'"
  using assms
proof (induction "is" arbitrary: os)
  case Nil
  then show ?case by simp
next
  case (Cons i "is")
  from Cons.prems(3) obtain os1 where os1: "step os i = Some os1" "write_seq step is os1 = Some os'" by (auto simp: bind_eq_Some_conv)
  have "P os1" by (rule Cons.prems(1) [OF Cons.prems(2) _ os1(1)]) simp
  from Cons.IH [OF _ this os1(2)] Cons.prems(1) show ?case by (metis list.set_intros(2))
qed

lemma write8_in_range: "write8 os i v = Some os' \<Longrightarrow> i < os_size os"
  by (simp add: write8_def split: if_splits)

lemma read8_in_range: "read8 X os ctr i = Some r \<Longrightarrow> i < os_size os"
  by (rule ccontr) (simp add: read8_def)

lemma write8_expr_in_range:
  assumes "write8_expr X os i v = Some os'"
  shows "i < os_size os"
proof (cases "\<exists>c. v = ConstantExpr c")
  case True
  with assms show ?thesis by (auto simp: write8_expr_def bind_eq_Some_conv dest: write8_in_range)
next
  case False
  with assms show ?thesis by (simp add: write8_expr_def case_not_const split: if_splits)
qed

lemma sym_not_constant:
  "read8_sym X os ctr i = Some r \<Longrightarrow> \<not> is_constant i" "write8_sym X os i v = Some os' \<Longrightarrow> \<not> is_constant i"
  by (cases "is_constant i"; simp add: read8_sym_def write8_sym_def)+

lemma write8_keeps:
  assumes "os_inv os" "write8 os i v = Some os'"
  shows "os_inv os'"
  using write8_correct [OF assms(1) write8_in_range [OF assms(2)], of v] assms(2) by simp

context apint_default
begin

lemma read8_keeps:
  assumes "os_inv os" "read8 X os ctr i = Some (e, os', ctr')"
  shows "same_bytes os os'" "wt e" "getWidth e = 8"
  using read8_correct [OF assms(1) read8_in_range [OF assms(2)], of ctr] assms(2) by simp_all

lemma read8_sym_keeps:
  assumes "os_inv os" "wt i" "getWidth i = 32" "read8_sym X os ctr i = Some (e, os', ctr')"
  shows "same_bytes os os'" "wt e" "getWidth e = 8"
  using read8_sym_correct [OF assms(1-3) sym_not_constant(1) [OF assms(4)], of ctr] assms(4) by simp_all

lemma write8_expr_keeps:
  assumes "os_inv os" "wt v" "getWidth v = 8" "write8_expr X os i v = Some os'"
  shows "os_inv os'"
  using write8_expr_correct [OF apint_lib_axioms assms(1) write8_expr_in_range [OF assms(4)] assms(2,3)] assms(4) by simp

lemma write8_sym_keeps:
  assumes "os_inv os" "wt i" "getWidth i = 32" "wt v" "getWidth v = 8" "write8_sym X os i v = Some os'"
  shows "os_inv os'"
  using write8_sym_correct [OF assms(1-3) sym_not_constant(2) [OF assms(6)] assms(4,5)] assms(6) by simp

lemma read_keeps:
  assumes "os_inv os" "read X C os ctr off w = Some (e, os', ctr')"
  shows "same_bytes os os'"
proof (cases "w = 1")
  case True
  with assms read8_keeps [OF assms(1)] show ?thesis by (auto simp: read_def bind_eq_Some_conv)
next
  case False
  with assms(2) have l: "read_loop X (\<lambda>os ctr idx. read8 X os ctr (off + idx)) (map (byte_index C (w div 8)) [0..<w div 8]) None os ctr = Some (e, os', ctr')"
    by (simp add: read_def Let_def split: if_splits)
  show ?thesis
  proof (rule read_loop_keeps [OF _ _ l])
    show "same_bytes os os" using assms(1) by (simp add: same_bytes_def)
    fix os1 ctr1 i b os2 ctr2 assume a: "same_bytes os os1" "read8 X os1 ctr1 (off + i) = Some (b, os2, ctr2)"
    then have "os_inv os1" by (simp add: same_bytes_def)
    from same_bytes_trans [OF a(1) read8_keeps(1) [OF this a(2)]] show "same_bytes os os2" .
  qed
qed

end

context apint_default
begin

lemma offset_step:
  assumes "wt off" "getWidth off = 32" "Constant_create X (of_nat n) 32 = Some k" "Add_create X off (ConstantExpr k) = Some off'"
  shows "wt off'" "getWidth off' = 32"
proof -
  have "k = Constant_alloc X (of_nat n) 32" using assms(3) by (simp add: Constant_create_def split: if_splits)
  then have "wt (ConstantExpr k)" "getWidth (ConstantExpr k) = 32" by simp_all
  from AddSub_create_creates [THEN conjunct1, OF assms(1) this(1) assms(2) this(2)] assms(4)
  show "wt off'" "getWidth off' = 32" by (auto elim!: createsE)
qed

lemma ZExt_wt: "wt e \<Longrightarrow> 0 < w \<Longrightarrow> ZExt_create X e w = Some e' \<Longrightarrow> wt e' \<and> getWidth e' = w"
  using ZExt_create_creates [of e w] by (auto elim!: createsE)

lemma read_sym_keeps:
  assumes "os_inv os" "wt off0" "read_sym X C os ctr off0 w = Some (e, os', ctr')"
  shows "same_bytes os os'"
proof -
  from assms(3) obtain off where z: "ZExt_create X off0 32 = Some off" by (auto simp: read_sym_def bind_eq_Some_conv)
  note off = ZExt_wt [OF assms(2) _ z, simplified]
  show ?thesis
  proof (cases "\<exists>c. off = ConstantExpr c")
    case True
    with assms(3) z read_keeps [OF assms(1)] show ?thesis by (auto simp: read_sym_def bind_eq_Some_conv)
  next
    case nc: False
    show ?thesis
    proof (cases "w = 1")
      case True
      with nc assms(3) z read8_sym_keeps(1) [OF assms(1), of off] off show ?thesis
        by (auto simp: read_sym_def bind_eq_Some_conv case_not_const)
    next
      case False
      with nc assms(3) z have l: "read_loop X (\<lambda>os ctr idx. do {
          i \<leftarrow> Constant_create X (of_nat idx) 32;
          o' \<leftarrow> Add_create X off (ConstantExpr i);
          read8_sym X os ctr o' }) (map (byte_index C (w div 8)) [0..<w div 8]) None os ctr = Some (e, os', ctr')"
        by (simp add: read_sym_def case_not_const Let_def split: if_splits)
      show ?thesis
      proof (rule read_loop_keeps [OF _ _ l])
        show "same_bytes os os" using assms(1) by (simp add: same_bytes_def)
        fix os1 ctr1 i b os2 ctr2
        assume a: "same_bytes os os1" "do {
          i \<leftarrow> Constant_create X (of_nat i) 32;
          o' \<leftarrow> Add_create X off (ConstantExpr i);
          read8_sym X os1 ctr1 o' } = Some (b, os2, ctr2)"
        from a(2) obtain k o' where k: "Constant_create X (of_nat i) 32 = Some k" "Add_create X off (ConstantExpr k) = Some o'"
          "read8_sym X os1 ctr1 o' = Some (b, os2, ctr2)" by (auto simp: bind_eq_Some_conv)
        have "os_inv os1" using a(1) by (simp add: same_bytes_def)
        from same_bytes_trans [OF a(1) read8_sym_keeps(1) [OF this offset_step [OF off [THEN conjunct1] off [THEN conjunct2] k(1,2)] k(3)]]
        show "same_bytes os os2" .
      qed
    qed
  qed
qed

lemma write_general_keeps:
  assumes wr: "\<And>os idx b os'. os_inv os \<Longrightarrow> wt b \<Longrightarrow> getWidth b = 8 \<Longrightarrow> wr os idx b = Some os' \<Longrightarrow> os_inv os'"
    and "os_inv os" "wt v" "write_general X C wr os v = Some os'"
  shows "os_inv os'"
proof (cases "getWidth v = 1")
  case True
  with assms(4) obtain b where b: "ZExt_create X v 8 = Some b" "wr os 0 b = Some os'"
    by (auto simp: write_general_def bind_eq_Some_conv)
  from ZExt_wt [OF assms(3) _ b(1)] show ?thesis using wr [OF assms(2) _ _ b(2)] by simp
next
  case False
  define n where "n = getWidth v div 8"
  from False assms(4) have w: "getWidth v = 8 * n"
    and s: "write_seq (\<lambda>os i. do { b \<leftarrow> Extract_create X v (8 * i) 8; wr os (byte_index C n i) b }) [0..<n] os = Some os'"
    by (simp_all add: write_general_def Let_def write_loop_seq n_def split: if_splits)
  show ?thesis
  proof (rule write_seq_keeps [where P = os_inv, OF _ assms(2) s])
    fix os1 i os2 assume a: "os_inv os1" "i \<in> set [0..<n]"
      "do { b \<leftarrow> Extract_create X v (8 * i) 8; wr os1 (byte_index C n i) b } = Some os2"
    from a(3) obtain b where b: "Extract_create X v (8 * i) 8 = Some b" "wr os1 (byte_index C n i) b = Some os2"
      by (auto simp: bind_eq_Some_conv)
    have "8 * i + 8 \<le> getWidth v" using a(2) w by simp
    with Extract_creates [OF assms(3), of 8 "8 * i"] b(1) have "wt b" "getWidth b = 8" by (auto elim!: createsE)
    from wr [OF a(1) this b(2)] show "os_inv os2" .
  qed
qed

lemma write_bytes_keeps:
  assumes "os_inv os" "write_bytes C n is os off v = Some os'"
  shows "os_inv os'"
  by (rule write_seq_keeps [where P = os_inv, OF _ assms(1) assms(2) [unfolded write_bytes_seq]]) (rule write8_keeps)

lemma os_write_keeps:
  assumes "os_inv os" "wt v" "os_write X C os off v = Some os'"
  shows "os_inv os'"
proof (cases "\<exists>c. v = ConstantExpr c \<and> apw c \<le> 64")
  case True
  then obtain c val where "write_const C os off (apw c) val = Some os'"
    using assms(3) by (auto simp: os_write_def bind_eq_Some_conv)
  then show ?thesis
    using write_bytes_keeps [OF assms(1)] write8_keeps [OF assms(1)]
    by (auto simp: write_const_def write16_def write32_def write64_def split: if_splits)
next
  case False
  have "os_write X C os off v = write_general X C (\<lambda>os idx b. write8_expr X os (off + idx) b) os v"
  proof (cases "\<exists>c. v = ConstantExpr c")
    case True
    with False show ?thesis by (auto simp: os_write_def)
  next
    case False
    then show ?thesis by (simp add: os_write_def case_not_const)
  qed
  with assms(3) have g: "write_general X C (\<lambda>os idx b. write8_expr X os (off + idx) b) os v = Some os'" by simp
  show ?thesis by (rule write_general_keeps [OF _ assms(1,2) g]) (rule write8_expr_keeps)
qed

lemma os_write_sym_keeps:
  assumes "os_inv os" "wt off0" "wt v" "os_write_sym X C os off0 v = Some os'"
  shows "os_inv os'"
proof -
  from assms(4) obtain off where z: "ZExt_create X off0 32 = Some off" by (auto simp: os_write_sym_def bind_eq_Some_conv)
  note off = ZExt_wt [OF assms(2) _ z, simplified]
  have wr: "os_inv os2" if "os_inv os1" "wt b" "getWidth b = 8" "do {
      i \<leftarrow> Constant_create X (of_nat idx) 32;
      o' \<leftarrow> Add_create X off (ConstantExpr i);
      write8_sym X os1 o' b } = Some os2" for os1 idx b os2
  proof -
    from that(4) obtain k o' where k: "Constant_create X (of_nat idx) 32 = Some k" "Add_create X off (ConstantExpr k) = Some o'"
      "write8_sym X os1 o' b = Some os2" by (auto simp: bind_eq_Some_conv)
    from write8_sym_keeps [OF that(1) offset_step [OF off [THEN conjunct1] off [THEN conjunct2] k(1,2)] that(2,3) k(3)]
    show ?thesis .
  qed
  show ?thesis
  proof (cases "\<exists>c. off = ConstantExpr c")
    case True
    with assms(4) z os_write_keeps [OF assms(1,3)] show ?thesis by (auto simp: os_write_sym_def bind_eq_Some_conv)
  next
    case nc: False
    show ?thesis
    proof (cases "getWidth v = 1")
      case True
      with nc assms(4) z obtain b where b: "ZExt_create X v 8 = Some b" "write8_sym X os off b = Some os'"
        by (auto simp: os_write_sym_def bind_eq_Some_conv case_not_const)
      from write8_sym_keeps [OF assms(1) _ _ _ _ b(2)] ZExt_wt [OF assms(3) _ b(1)] off show ?thesis by simp
    next
      case False
      with nc assms(4) z have g: "write_general X C (\<lambda>os idx b. do {
          i \<leftarrow> Constant_create X (of_nat idx) 32;
          o' \<leftarrow> Add_create X off (ConstantExpr i);
          write8_sym X os o' b }) os v = Some os'"
        by (simp add: os_write_sym_def case_not_const)
      show ?thesis by (rule write_general_keeps [OF _ assms(1,3) g]) (rule wr)
    qed
  qed
qed

end

section \<open>Properties\<close>

lemma bytes_val_cong: "(\<And>i. i < n \<Longrightarrow> f i = g i) \<Longrightarrow> bytes_val f n = bytes_val g n"
  by (induction n) simp_all

lemma bytes_val_split: "bytes_val (\<lambda>i. take_bit 8 (drop_bit (8 * i) x)) n = take_bit (8 * n) x"
proof (induction n)
  case (Suc n)
  have "push_bit (8 * n) (take_bit 8 (drop_bit (8 * n) x)) OR take_bit (8 * n) x = take_bit (8 * n + 8) x"
    by (rule bit_eqI) (auto simp: bit_simps)
  with Suc show ?case by (simp add: add.commute)
qed simp

lemma stored_word_val:
  assumes "stored C off n f os os'" "off + n \<le> os_size os"
  shows "word_val C \<rho> os' off n = take_bit (8 * n) (f \<rho>)"
proof -
  have "byte \<rho> os' (off + byte_index C n i) = take_bit 8 (drop_bit (8 * i) (f \<rho>))" if "i < n" for i
    using assms that byte_index_less [OF that, of C] by (simp add: stored_def byte_index_involutive)
  then have "word_val C \<rho> os' off n = bytes_val (\<lambda>i. take_bit 8 (drop_bit (8 * i) (f \<rho>))) n"
    unfolding word_val_def by (intro bytes_val_cong) simp
  then show ?thesis by (simp add: bytes_val_split)
qed

text \<open>The objects a run of the interpreter can build.\<close>

inductive os_reach :: "expr_env \<Rightarrow> klee_context \<Rightarrow> object_state \<Rightarrow> bool" for X C where
  new: "mo_size mo \<le> length garbage \<Longrightarrow> mo_size mo \<le> 2 ^ 32 \<Longrightarrow> os_reach X C (fst (new_ObjectState C mo garbage ctr))"
| new_array: "mo_size mo \<le> length garbage \<Longrightarrow> mo_size mo \<le> 2 ^ 32 \<Longrightarrow> array_ok a \<Longrightarrow>
    new_ObjectState_array mo a garbage = Some os \<Longrightarrow> os_reach X C os"
| copy: "os_reach X C os \<Longrightarrow> copy_ObjectState os = Some os' \<Longrightarrow> os_reach X C os'"
| zero: "os_reach X C os \<Longrightarrow> os_reach X C (initializeToZero os)"
| random: "os_reach X C os \<Longrightarrow> os_reach X C (initializeToRandom os)"
| symbolic: "os_reach X C os \<Longrightarrow> makeSymbolic os = Some os' \<Longrightarrow> os_reach X C os'"
| read8: "os_reach X C os \<Longrightarrow> read8 X os ctr i = Some (e, os', ctr') \<Longrightarrow> os_reach X C os'"
| load: "os_reach X C os \<Longrightarrow> read X C os ctr i w = Some (e, os', ctr') \<Longrightarrow> os_reach X C os'"
| load_sym: "os_reach X C os \<Longrightarrow> wt off \<Longrightarrow> read_sym X C os ctr off w = Some (e, os', ctr') \<Longrightarrow> os_reach X C os'"
| write8: "os_reach X C os \<Longrightarrow> write8 os i b = Some os' \<Longrightarrow> os_reach X C os'"
| store: "os_reach X C os \<Longrightarrow> wt v \<Longrightarrow> os_write X C os i v = Some os' \<Longrightarrow> os_reach X C os'"
| store_sym: "os_reach X C os \<Longrightarrow> wt off \<Longrightarrow> wt v \<Longrightarrow> os_write_sym X C os off v = Some os' \<Longrightarrow> os_reach X C os'"

definition ctxt0 :: klee_context where
  "ctxt0 = \<lparr>IsLittleEndian = True, PointerWidth = 64, UseConstantArrays = True\<rparr>"

definition object0 :: object_state where
  "object0 = fst (new_ObjectState ctxt0 \<lparr>mo_id = 1, mo_address = 4096, mo_size = 4, mo_name = ''x'', isLocal = False,
     isGlobal = True, isFixed = False, fake_object = False, isUserSpecified = False\<rparr> [1, 2, 3, 4] 0)"

definition index0 :: expr where
  "index0 = NotOptimizedExpr (ConstantExpr (APInt 32 2))"

lemma object0_facts: "os_inv object0" "os_size object0 = 4" "os_reach X ctxt0 object0"
  unfolding object0_def by (rule new_ObjectState_inv os_reach.new | simp add: new_ObjectState_def ctxt0_def)+

lemma index0_facts: "wt index0" "getWidth index0 = 32" "\<not> is_constant index0" "eval \<rho> index0 = 2"
  by (simp_all add: index0_def valid_def take_bit_eq_mod is_constant_def)

text \<open>
  C6: The caches of an object stay coherent. From any construction of an object, through any
  sequence of reads, writes, copies and re-initialisations at constant and symbolic offsets, the
  concrete store, the known symbolic bytes, the two masks and the update list satisfy the invariant
  \<open>os_inv\<close>: a concrete byte has no cached expression, every byte has a value somewhere, and a byte
  marked as flushed has the value the update list gives it.
\<close>

theorem os_reach_coherent:
  assumes "apint_lib X" "\<not> ConstArrayOpt X" "os_reach X C os"
  shows "os_inv os"
  using assms(3)
proof induction
  case (zero os)
  then show ?case using makeConcrete_inv [of os "replicate (os_size os) 0"] by (simp add: initializeToZero_def)
next
  case (random os)
  then show ?case using makeConcrete_inv [of os "replicate (os_size os) 0xAB"] by (simp add: initializeToRandom_def)
next
  case (symbolic os os')
  then show ?case using makeSymbolic_inv [of os os'] by (simp add: os_inv_def)
qed (use apint_defaultI [OF assms(1,2)] in \<open>auto simp: same_bytes_def intro: new_ObjectState_inv new_ObjectState_array_inv
    copy_ObjectState_inv write8_keeps apint_default.os_write_keeps apint_default.os_write_sym_keeps
    dest: apint_default.read8_keeps(1) apint_default.read_keeps apint_default.read_sym_keeps\<close>)

theorem os_reach_coherent_witness: "os_inv object0"
  using os_reach_coherent [of llvm_env ctxt0 object0, OF llvm.apint_lib_axioms llvm_default.no_const_array_opt]
  by (simp add: object0_facts)

text \<open>
  C7: A write followed by a read. What \<open>ObjectState::write\<close> stores at a constant offset,
  \<open>ObjectState::read\<close> returns from there: for every storable value that fits into the object, of
  any width and for both byte orders, both succeed and the expression read denotes the value written.
\<close>

theorem os_write_read_roundtrip:
  assumes "apint_lib X" "\<not> ConstArrayOpt X" "os_inv os" "storable v" "off + store_bytes (getWidth v) \<le> os_size os"
  shows "\<exists>os' e os'' ctr'. os_write X C os off v = Some os' \<and> read X C os' ctr off (getWidth v) = Some (e, os'', ctr') \<and>
    wt e \<and> getWidth e = getWidth v \<and> (\<forall>\<rho>. eval \<rho> e = eval \<rho> v)"
proof -
  note X = apint_defaultI [OF assms(1,2)]
  have v: "wt v" "getWidth v = 1 \<or> 8 dvd getWidth v" "0 < getWidth v" using assms(4) wt_width by (auto simp: storable_def)
  from apint_default.os_write_correct [OF X assms(3-5), of C] obtain os' where
    w: "os_write X C os off v = Some os'" "os_inv os'" "os_size os' = os_size os"
      "stored C off (store_bytes (getWidth v)) (\<lambda>\<rho>. eval \<rho> v) os os'" by (auto simp: wrote_def)
  show ?thesis
  proof (cases "getWidth v = 1")
    case True
    then have o: "off < os_size os" using assms(5) by (simp add: store_bytes_def)
    have "byte \<rho> os' off = take_bit 8 (eval \<rho> v)" for \<rho>
      using w(4) o True by (simp add: stored_def store_bytes_def)
    then have "take_bit 1 (byte \<rho> os' off) = eval \<rho> v" for \<rho>
      using eval_take_bit [OF v(1) True, of \<rho>] by (simp only: take_bit_take_bit)
    with apint_default.read_bool_correct [OF X w(2), of off C ctr] o w(1,3) True show ?thesis by auto
  next
    case False
    with v obtain n where n: "getWidth v = 8 * n" "0 < n" "store_bytes (getWidth v) = n" by (auto simp: store_bytes_def)
    have "word_val C \<rho> os' off n = eval \<rho> v" for \<rho>
      using stored_word_val [OF w(4) assms(5), of \<rho>] eval_take_bit [OF v(1) n(1)] n(3) by simp
    with apint_default.read_correct [OF X w(2) n(2), of off C ctr] w(1,3) n assms(5) show ?thesis by auto
  qed
qed

theorem os_write_read_roundtrip_witness:
  "\<exists>os' e os'' ctr'. os_write llvm_env ctxt0 object0 1 (ConstantExpr (APInt 16 513)) = Some os' \<and>
    read llvm_env ctxt0 os' 0 1 16 = Some (e, os'', ctr') \<and> wt e \<and> getWidth e = 16 \<and> (\<forall>\<rho>. eval \<rho> e = 513)"
  using os_write_read_roundtrip [of llvm_env object0 "ConstantExpr (APInt 16 513)" 1 ctxt0 0,
      OF llvm.apint_lib_axioms llvm_default.no_const_array_opt object0_facts(1)]
  by (simp add: object0_facts storable_def store_bytes_def valid_def take_bit_eq_mod)

text \<open>
  C13: \<open>ObjectState::write\<close> at a constant offset changes exactly the bytes it covers: byte \<open>j\<close> of
  the object becomes the byte of the value that the byte order puts there, every byte outside the
  range keeps its value, and the object stays coherent.
\<close>

theorem os_write_exact:
  assumes "apint_lib X" "\<not> ConstArrayOpt X" "os_inv os" "storable v" "n = store_bytes (getWidth v)" "off + n \<le> os_size os"
  shows "\<exists>os'. os_write X C os off v = Some os' \<and> os_inv os' \<and> os_size os' = os_size os \<and>
    (\<forall>\<rho>. \<forall>j < os_size os. byte \<rho> os' j =
      (if off \<le> j \<and> j < off + n then take_bit 8 (drop_bit (8 * byte_index C n (j - off)) (eval \<rho> v)) else byte \<rho> os j))"
  using apint_default.os_write_correct [OF apint_defaultI [OF assms(1,2)] assms(3,4), of off C] assms(5,6)
  by (auto simp: wrote_def stored_def)

theorem os_write_exact_witness:
  "\<exists>os'. os_write llvm_env ctxt0 object0 1 (ConstantExpr (APInt 16 513)) = Some os' \<and> os_inv os' \<and>
    (\<forall>\<rho>. byte \<rho> os' 0 = 1 \<and> byte \<rho> os' 1 = 1 \<and> byte \<rho> os' 2 = 2 \<and> byte \<rho> os' 3 = 4)"
proof -
  have b: "byte \<rho> object0 0 = 1" "byte \<rho> object0 3 = 4" for \<rho>
    by (simp_all add: byte_def object0_def new_ObjectState_def ctxt0_def isByteConcrete_def)
  have i: "byte_index ctxt0 2 0 = 0" "byte_index ctxt0 2 1 = 1" by (simp_all add: byte_index_def ctxt0_def)
  have v: "storable (ConstantExpr (APInt 16 513))" "2 = store_bytes (getWidth (ConstantExpr (APInt 16 513)))" "1 + 2 \<le> os_size object0"
    by (simp_all add: object0_facts storable_def store_bytes_def valid_def take_bit_eq_mod)
  from os_write_exact [OF llvm.apint_lib_axioms llvm_default.no_const_array_opt object0_facts(1) v, of ctxt0]
  obtain os' where w: "os_write llvm_env ctxt0 object0 1 (ConstantExpr (APInt 16 513)) = Some os'" "os_inv os'"
    "\<forall>\<rho>. \<forall>j < 4. byte \<rho> os' j = (if 1 \<le> j \<and> j < 1 + 2 then take_bit 8 (drop_bit (8 * byte_index ctxt0 2 (j - 1)) 513) else byte \<rho> object0 j)"
    unfolding object0_facts(2) eval.simps apint.sel by blast
  have "byte \<rho> os' 0 = 1 \<and> byte \<rho> os' 1 = 1 \<and> byte \<rho> os' 2 = 2 \<and> byte \<rho> os' 3 = 4" for \<rho>
    using w(3) [rule_format, of 0 \<rho>] w(3) [rule_format, of 1 \<rho>] w(3) [rule_format, of 2 \<rho>] w(3) [rule_format, of 3 \<rho>] b [of \<rho>] i
    by (simp add: take_bit_eq_mod drop_bit_eq_div)
  with w(1,2) show ?thesis by blast
qed

text \<open>
  C8: Byte accesses at symbolic offsets. After \<open>write8(i, v)\<close> a read at another symbolic offset
  \<open>k\<close> sees, under every assignment, the value written when the two offsets coincide and the old
  byte otherwise, whatever the mixture of concrete, cached and flushed bytes was before.
\<close>

theorem symbolic_read_over_write:
  assumes "apint_lib X" "\<not> ConstArrayOpt X" "os_inv os"
    and "wt i" "getWidth i = 32" "\<not> is_constant i" "wt k" "getWidth k = 32" "\<not> is_constant k" "wt v" "getWidth v = 8"
  shows "\<exists>os' e os'' ctr'. write8_sym X os i v = Some os' \<and> read8_sym X os' ctr k = Some (e, os'', ctr') \<and> os_inv os'' \<and>
    (\<forall>\<rho>. \<forall>j < os_size os. eval \<rho> k = int j \<longrightarrow>
      eval \<rho> e = (if eval \<rho> i = eval \<rho> k then eval \<rho> v else byte \<rho> os j))"
proof -
  note X = apint_defaultI [OF assms(1,2)]
  from apint_default.write8_sym_correct [OF X assms(3-6,10,11)] obtain os' where
    w: "write8_sym X os i v = Some os'" "os_inv os'" "os_size os' = os_size os"
      "\<And>\<rho> j. j < os_size os \<Longrightarrow> byte \<rho> os' j = (if eval \<rho> i = int j then eval \<rho> v else byte \<rho> os j)" by blast
  from apint_default.read8_sym_correct [OF X w(2) assms(7-9), of ctr] obtain e os'' ctr' where
    "read8_sym X os' ctr k = Some (e, os'', ctr')" "same_bytes os' os''"
    "\<And>\<rho> j. j < os_size os \<Longrightarrow> eval \<rho> k = int j \<Longrightarrow> eval \<rho> e = byte \<rho> os' j" unfolding w(3) by blast
  with w show ?thesis by (auto simp: same_bytes_def)
qed

theorem symbolic_read_over_write_witness:
  "\<exists>os' e os'' ctr'. write8_sym llvm_env object0 index0 (ConstantExpr (APInt 8 9)) = Some os' \<and>
    read8_sym llvm_env os' 0 index0 = Some (e, os'', ctr') \<and> os_inv os'' \<and> (\<forall>\<rho>. eval \<rho> e = 9)"
proof -
  have v: "wt (ConstantExpr (APInt 8 9))" "getWidth (ConstantExpr (APInt 8 9)) = 8" by (simp_all add: valid_def take_bit_eq_mod)
  from symbolic_read_over_write [OF llvm.apint_lib_axioms llvm_default.no_const_array_opt object0_facts(1)
      index0_facts(1-3) index0_facts(1-3) v, of 0]
  show ?thesis unfolding object0_facts index0_facts(4) by fastforce
qed

text \<open>
  C14: Reading is pure. A read of any width at a symbolic or constant offset may flush caches into the
  update list and create the constant array behind it, but it leaves the object coherent and the
  value of every byte under every assignment unchanged.
\<close>

theorem read_sym_pure:
  assumes "apint_lib X" "\<not> ConstArrayOpt X" "os_inv os" "wt off" "read_sym X C os ctr off w = Some (e, os', ctr')"
  shows "os_inv os' \<and> os_size os' = os_size os \<and> (\<forall>\<rho>. \<forall>j < os_size os. byte \<rho> os' j = byte \<rho> os j)"
  using apint_default.read_sym_keeps [OF apint_defaultI [OF assms(1,2)] assms(3-5)] by (simp add: same_bytes_def)

theorem read_sym_pure_witness:
  "\<exists>e os' ctr'. read_sym llvm_env ctxt0 object0 0 index0 1 = Some (e, os', ctr') \<and> os_inv os' \<and>
    (\<forall>\<rho>. byte \<rho> os' 0 = 1)"
proof -
  have z: "ZExt_create llvm_env index0 32 = Some index0" by (rule llvm_default.ZExt_32) (rule index0_facts)
  have nc: "\<nexists>c. index0 = ConstantExpr c" by (simp add: index0_def)
  from llvm_default.read8_sym_correct [OF object0_facts(1) index0_facts(1-3), of 0] obtain b os' ctr' where
    b: "read8_sym llvm_env object0 0 index0 = Some (b, os', ctr')" "wt b" "getWidth b = 8" by blast
  from llvm_default.Extract_creates [OF b(2), of 1 0] b(3) obtain e where "Extract_create llvm_env b 0 1 = Some e" by (auto elim!: createsE)
  with z nc b(1) have r: "read_sym llvm_env ctxt0 object0 0 index0 1 = Some (e, os', ctr')"
    by (simp add: read_sym_def case_not_const)
  from read_sym_pure [OF llvm.apint_lib_axioms llvm_default.no_const_array_opt object0_facts(1) index0_facts(1) r]
  have p: "os_inv os'" "\<And>\<rho> j. j < 4 \<Longrightarrow> byte \<rho> os' j = byte \<rho> object0 j" by (simp_all add: object0_facts)
  have "byte \<rho> object0 0 = 1" for \<rho>
    by (simp add: byte_def object0_def new_ObjectState_def ctxt0_def isByteConcrete_def)
  with r p show ?thesis by auto
qed

text \<open>
  C25: Reading is type safe. Every read of a supported width (1, or a multiple of 8 bits) within a
  coherent object succeeds and returns a well-typed expression of exactly that width, whose value
  under every assignment fits in it, and leaves a coherent object of the same size; a read
  of any other width is refused.
\<close>

theorem os_read_typed:
  assumes "apint_lib X" "\<not> ConstArrayOpt X" "os_inv os" "w = 1 \<or> 8 dvd w \<and> 0 < w" "off + store_bytes w \<le> os_size os"
  shows "(\<exists>e os' ctr'. read X C os ctr off w = Some (e, os', ctr') \<and> wt e \<and> getWidth e = w \<and>
      (\<forall>\<rho>. 0 \<le> eval \<rho> e \<and> eval \<rho> e < 2 ^ w) \<and> os_inv os' \<and> os_size os' = os_size os) \<and>
    (\<forall>w'. w' \<noteq> 1 \<and> \<not> 8 dvd w' \<longrightarrow> read X C os ctr off w' = None)"
proof -
  note X = apint_defaultI [OF assms(1,2)]
  have "\<exists>e os' ctr'. read X C os ctr off w = Some (e, os', ctr') \<and> wt e \<and> getWidth e = w \<and> same_bytes os os'"
  proof (cases "w = 1")
    case True
    with assms(5) apint_default.read_bool_correct [OF X assms(3), of off C ctr] show ?thesis
      by (auto simp: store_bytes_def)
  next
    case False
    with assms(4) obtain n where "w = 8 * n" "0 < n" by auto
    with False assms(5) apint_default.read_correct [OF X assms(3), of n off C ctr] show ?thesis
      by (auto simp: store_bytes_def)
  qed
  moreover have "read X C os ctr off w' = None" if "w' \<noteq> 1" "\<not> 8 dvd w'" for w'
  proof -
    have "w' \<noteq> w' div 8 * 8" using that(2) by (metis dvd_triv_right)
    with that(1) show ?thesis by (simp add: read_def Let_def)
  qed
  ultimately show ?thesis using eval_bounds by (fastforce simp: same_bytes_def)
qed

theorem os_read_typed_witness:
  "\<exists>e os' ctr'. read llvm_env ctxt0 object0 0 1 16 = Some (e, os', ctr') \<and> wt e \<and> getWidth e = 16 \<and> os_inv os'"
  using os_read_typed [of llvm_env object0 16 1 ctxt0 0, OF llvm.apint_lib_axioms llvm_default.no_const_array_opt object0_facts(1)]
  by (auto simp: object0_facts store_bytes_def)

end
