(* ===== verification/AddressSpace.thy ===== *)
theory AddressSpace
  imports Memory ImmutableMap
begin

text \<open>
  The address space of a state: \<open>lib/Core/AddressSpace.h\<close> and \<open>lib/Core/AddressSpace.cpp\<close>.
  The map from memory objects to object states is the persistent tree, ordered by address
  (\<open>MemoryObjectLT\<close>). Forked states share object states, so the map holds pointers into a heap
  of object states; \<open>cowKey\<close> and \<open>copyOnWriteOwner\<close> decide when a write must copy.

  The solver is a parameter: \<open>s_getValue\<close>, \<open>s_mayBeTrue\<close> and \<open>s_mustBeTrue\<close> answer for the
  constraints of the state, \<open>None\<close> being a failed query. The loops over iterators take fuel,
  one more than the number of objects.
\<close>

section \<open>State\<close>

record os_heap =
  oh_map :: "nat \<Rightarrow> object_state option"
  oh_next :: nat

record address_space =
  cowKey :: nat
  objects :: "(memory_object, nat) immutable_map"

record solver_ops =
  s_getValue :: "expr list \<Rightarrow> expr \<Rightarrow> apint option"
  s_mayBeTrue :: "expr list \<Rightarrow> expr \<Rightarrow> bool option"
  s_mustBeTrue :: "expr list \<Rightarrow> expr \<Rightarrow> bool option"

definition heap_new :: "os_heap \<Rightarrow> object_state \<Rightarrow> nat \<times> os_heap" where
  "heap_new H os = (oh_next H, H\<lparr>oh_map := (oh_map H)(oh_next H \<mapsto> os), oh_next := oh_next H + 1\<rparr>)"

definition heap_set :: "os_heap \<Rightarrow> nat \<Rightarrow> object_state \<Rightarrow> os_heap" where
  "heap_set H p os = H\<lparr>oh_map := (oh_map H)(p \<mapsto> os)\<rparr>"

definition new_AddressSpace :: address_space where
  "new_AddressSpace = \<lparr>cowKey = 1, objects = Terminator\<rparr>"

text \<open>The copy constructor also advances the key of the space it copies.\<close>

definition copy_AddressSpace :: "address_space \<Rightarrow> address_space \<times> address_space" where
  "copy_AddressSpace b =
     (let b' = b\<lparr>cowKey := cowKey b + 1\<rparr> in (b', \<lparr>cowKey = cowKey b', objects = objects b'\<rparr>))"

section \<open>Binding\<close>

definition bindObject :: "os_heap \<Rightarrow> address_space \<Rightarrow> memory_object \<Rightarrow> nat \<Rightarrow> (os_heap \<times> address_space) option" where
  "bindObject H A mo p = do {
     os \<leftarrow> oh_map H p;
     if copyOnWriteOwner os \<noteq> 0 then None
     else Some (heap_set H p (os\<lparr>copyOnWriteOwner := cowKey A\<rparr>),
                A\<lparr>objects := imap_replace mo_address (mo, p) (objects A)\<rparr>) }"

definition unbindObject :: "address_space \<Rightarrow> memory_object \<Rightarrow> address_space" where
  "unbindObject A mo = A\<lparr>objects := imap_remove mo_address mo (objects A)\<rparr>"

definition findObject :: "address_space \<Rightarrow> memory_object \<Rightarrow> nat option" where
  "findObject A mo = map_option snd (imap_lookup mo_address mo (objects A))"

definition getWriteable :: "os_heap \<Rightarrow> address_space \<Rightarrow> memory_object \<Rightarrow> nat \<Rightarrow>
    (nat \<times> os_heap \<times> address_space) option" where
  "getWriteable H A mo p = do {
     os \<leftarrow> oh_map H p;
     if readOnly os then None
     else if cowKey A = copyOnWriteOwner os then Some (p, H, A)
     else do {
       n \<leftarrow> copy_ObjectState os;
       let (q, H') = heap_new H (n\<lparr>copyOnWriteOwner := cowKey A\<rparr>);
       Some (q, H', A\<lparr>objects := imap_replace mo_address (mo, q) (objects A)\<rparr>) } }"

section \<open>Resolution\<close>

definition hack :: "uint64_t \<Rightarrow> memory_object" where
  "hack address =
     \<lparr>mo_id = 0, mo_address = address, mo_size = 0, mo_name = [], isLocal = False, isGlobal = False,
      isFixed = True, fake_object = False, isUserSpecified = False\<rparr>"

definition resolveOne :: "expr_env \<Rightarrow> address_space \<Rightarrow> apint \<Rightarrow> (memory_object \<times> nat) option option" where
  "resolveOne X A addr = do {
     address \<leftarrow> getZExtValue X 64 addr;
     Some (case imap_lookup_previous mo_address (hack address) (objects A) of
         None \<Rightarrow> None
       | Some res \<Rightarrow>
           (let mo = fst res in
            if (mo_size mo = 0 \<and> address = mo_address mo) \<or>
               unat (address - mo_address mo) < mo_size mo
            then Some res else None)) }"

datatype resolution = SolverFailed | NotFound | Found "memory_object \<times> nat"

text \<open>
  The backward search; \<open>None\<close> inside says that it ended without a verdict and the forward search
  follows.
\<close>

fun resolve_back :: "expr_env \<Rightarrow> klee_context \<Rightarrow> solver_ops \<Rightarrow> expr list \<Rightarrow> expr \<Rightarrow> nat \<Rightarrow>
    (memory_object \<times> nat) iterator \<Rightarrow> (memory_object \<times> nat) iterator \<Rightarrow> resolution option option" where
  "resolve_back X C S cs address 0 begin oi = None"
| "resolve_back X C S cs address (Suc n) begin oi =
     (if it_stack oi = it_stack begin then Some None
      else do {
        let oi' = it_prev oi;
        cur \<leftarrow> ok_of (it_deref oi');
        let mo = fst cur;
        inBounds \<leftarrow> getBoundsCheckPointer X C mo address;
        case s_mayBeTrue S cs inBounds of
          None \<Rightarrow> Some (Some SolverFailed)
        | Some True \<Rightarrow> Some (Some (Found cur))
        | Some False \<Rightarrow> do {
            base \<leftarrow> getBaseExpr X C mo;
            ge \<leftarrow> Uge_create X address (ConstantExpr base);
            case s_mustBeTrue S cs ge of
              None \<Rightarrow> Some (Some SolverFailed)
            | Some True \<Rightarrow> Some None
            | Some False \<Rightarrow> resolve_back X C S cs address n begin oi' } })"

fun resolve_forward :: "expr_env \<Rightarrow> klee_context \<Rightarrow> solver_ops \<Rightarrow> expr list \<Rightarrow> expr \<Rightarrow> nat \<Rightarrow>
    (memory_object \<times> nat) iterator \<Rightarrow> resolution option" where
  "resolve_forward X C S cs address 0 oi = None"
| "resolve_forward X C S cs address (Suc n) oi =
     (if it_stack oi = [] then Some NotFound
      else do {
        cur \<leftarrow> ok_of (it_deref oi);
        let mo = fst cur;
        base \<leftarrow> getBaseExpr X C mo;
        lt \<leftarrow> Ult_create X address (ConstantExpr base);
        case s_mustBeTrue S cs lt of
          None \<Rightarrow> Some SolverFailed
        | Some True \<Rightarrow> Some NotFound
        | Some False \<Rightarrow> do {
            inBounds \<leftarrow> getBoundsCheckPointer X C mo address;
            case s_mayBeTrue S cs inBounds of
              None \<Rightarrow> Some SolverFailed
            | Some True \<Rightarrow> Some (Found cur)
            | Some False \<Rightarrow> do {
                oi' \<leftarrow> ok_of (it_next oi);
                resolve_forward X C S cs address n oi' } } })"

definition resolveOne_sym :: "expr_env \<Rightarrow> klee_context \<Rightarrow> solver_ops \<Rightarrow> expr list \<Rightarrow> address_space \<Rightarrow> expr \<Rightarrow>
    resolution option" where
  "resolveOne_sym X C S cs A address =
     (case address of
        ConstantExpr c \<Rightarrow> do {
          r \<leftarrow> resolveOne X A c;
          Some (case r of None \<Rightarrow> NotFound | Some res \<Rightarrow> Found res) }
      | _ \<Rightarrow>
          (case s_getValue S cs address of
             None \<Rightarrow> Some SolverFailed
           | Some cex \<Rightarrow> do {
               example \<leftarrow> getZExtValue X 64 cex;
               let res = imap_lookup_previous mo_address (hack example) (objects A);
               let direct = (case res of
                   None \<Rightarrow> None
                 | Some r \<Rightarrow> if unat (example - mo_address (fst r)) < mo_size (fst r) then Some r else None);
               case direct of
                 Some r \<Rightarrow> Some (Found r)
               | None \<Rightarrow> do {
                   oi \<leftarrow> ok_of (imap_upper_bound mo_address (hack example) (objects A));
                   b \<leftarrow> resolve_back X C S cs address (imap_size (objects A) + 1) (imap_begin (objects A)) oi;
                   case b of
                     Some r \<Rightarrow> Some r
                   | None \<Rightarrow> resolve_forward X C S cs address (imap_size (objects A) + 1) oi } }))"

text \<open>
  \<open>resolve\<close> collects all candidates. The result is whether the resolution is incomplete, with
  the list. \<open>timer k\<close> tells whether the timeout has passed at the \<open>k\<close>-th check (never, when no
  timeout is set); the loops thread the number of checks made. A loop step ends with \<open>Inl\<close> of
  the final answer or goes on with \<open>Inr\<close> of the list.
\<close>

definition resolve_push :: "solver_ops \<Rightarrow> expr list \<Rightarrow> nat \<Rightarrow> expr \<Rightarrow> memory_object \<times> nat \<Rightarrow>
    (memory_object \<times> nat) list \<Rightarrow>
    (bool \<times> (memory_object \<times> nat) list) + (memory_object \<times> nat) list" where
  "resolve_push S cs maxResolutions inBounds cur rl =
     (case s_mayBeTrue S cs inBounds of
        None \<Rightarrow> Inl (True, rl)
      | Some False \<Rightarrow> Inr rl
      | Some True \<Rightarrow>
          (let rl' = rl @ [cur] in
           if length rl' = 1 then
             (case s_mustBeTrue S cs inBounds of
                None \<Rightarrow> Inl (True, rl')
              | Some True \<Rightarrow> Inl (False, rl')
              | Some False \<Rightarrow> Inr rl')
           else if length rl' = maxResolutions then Inl (True, rl')
           else Inr rl'))"

fun resolve_list_back :: "expr_env \<Rightarrow> klee_context \<Rightarrow> solver_ops \<Rightarrow> expr list \<Rightarrow> expr \<Rightarrow> nat \<Rightarrow> (nat \<Rightarrow> bool) \<Rightarrow>
    nat \<Rightarrow> nat \<Rightarrow> (memory_object \<times> nat) iterator \<Rightarrow> (memory_object \<times> nat) iterator \<Rightarrow> (memory_object \<times> nat) list \<Rightarrow>
    ((bool \<times> (memory_object \<times> nat) list) + (nat \<times> (memory_object \<times> nat) list)) option" where
  "resolve_list_back X C S cs p maxResolutions timer k 0 begin oi rl = None"
| "resolve_list_back X C S cs p maxResolutions timer k (Suc n) begin oi rl =
     (if it_stack oi = it_stack begin then Some (Inr (k, rl))
      else do {
        let oi' = it_prev oi;
        cur \<leftarrow> ok_of (it_deref oi');
        let mo = fst cur;
        if timer k then Some (Inl (True, rl))
        else do {
          inBounds \<leftarrow> getBoundsCheckPointer X C mo p;
          case resolve_push S cs maxResolutions inBounds cur rl of
            Inl r \<Rightarrow> Some (Inl r)
          | Inr rl' \<Rightarrow> do {
              base \<leftarrow> getBaseExpr X C mo;
              ge \<leftarrow> Uge_create X p (ConstantExpr base);
              case s_mustBeTrue S cs ge of
                None \<Rightarrow> Some (Inl (True, rl'))
              | Some True \<Rightarrow> Some (Inr (k + 1, rl'))
              | Some False \<Rightarrow> resolve_list_back X C S cs p maxResolutions timer (k + 1) n begin oi' rl' } } })"

fun resolve_list_forward :: "expr_env \<Rightarrow> klee_context \<Rightarrow> solver_ops \<Rightarrow> expr list \<Rightarrow> expr \<Rightarrow> nat \<Rightarrow> (nat \<Rightarrow> bool) \<Rightarrow>
    nat \<Rightarrow> nat \<Rightarrow> (memory_object \<times> nat) iterator \<Rightarrow> (memory_object \<times> nat) list \<Rightarrow>
    (bool \<times> (memory_object \<times> nat) list) option" where
  "resolve_list_forward X C S cs p maxResolutions timer k 0 oi rl = None"
| "resolve_list_forward X C S cs p maxResolutions timer k (Suc n) oi rl =
     (if it_stack oi = [] then Some (False, rl)
      else do {
        cur \<leftarrow> ok_of (it_deref oi);
        let mo = fst cur;
        if timer k then Some (True, rl)
        else do {
          base \<leftarrow> getBaseExpr X C mo;
          lt \<leftarrow> Ult_create X p (ConstantExpr base);
          case s_mustBeTrue S cs lt of
            None \<Rightarrow> Some (True, rl)
          | Some True \<Rightarrow> Some (False, rl)
          | Some False \<Rightarrow> do {
              inBounds \<leftarrow> getBoundsCheckPointer X C mo p;
              case resolve_push S cs maxResolutions inBounds cur rl of
                Inl r \<Rightarrow> Some r
              | Inr rl' \<Rightarrow> do {
                  oi' \<leftarrow> ok_of (it_next oi);
                  resolve_list_forward X C S cs p maxResolutions timer (k + 1) n oi' rl' } } } })"

definition resolve :: "expr_env \<Rightarrow> klee_context \<Rightarrow> solver_ops \<Rightarrow> expr list \<Rightarrow> address_space \<Rightarrow> expr \<Rightarrow>
    nat \<Rightarrow> (nat \<Rightarrow> bool) \<Rightarrow> (bool \<times> (memory_object \<times> nat) list) option" where
  "resolve X C S cs A p maxResolutions timer =
     (case p of
        ConstantExpr c \<Rightarrow> do {
          r \<leftarrow> resolveOne X A c;
          Some (False, case r of None \<Rightarrow> [] | Some res \<Rightarrow> [res]) }
      | _ \<Rightarrow>
          (case s_getValue S cs p of
             None \<Rightarrow> Some (True, [])
           | Some cex \<Rightarrow> do {
               example \<leftarrow> getZExtValue X 64 cex;
               oi \<leftarrow> ok_of (imap_upper_bound mo_address (hack example) (objects A));
               let fuel = imap_size (objects A) + 1;
               b \<leftarrow> resolve_list_back X C S cs p maxResolutions timer 0 fuel (imap_begin (objects A)) oi [];
               case b of
                 Inl r \<Rightarrow> Some r
               | Inr (k, rl) \<Rightarrow> resolve_list_forward X C S cs p maxResolutions timer k fuel oi rl }))"

lemma hack_address [simp]: "mo_address (hack a) = a"
  by (simp add: hack_def)

section \<open>Concrete copies\<close>

text \<open>
  The process memory is a function from addresses to bytes. The loops visit the objects in
  address order, the order of \<open>inorder\<close>.
\<close>

definition memcpy_out :: "(uint64_t \<Rightarrow> uint8_t) \<Rightarrow> uint64_t \<Rightarrow> uint8_t list \<Rightarrow> nat \<Rightarrow> (uint64_t \<Rightarrow> uint8_t)" where
  "memcpy_out mem address bytes n =
     (\<lambda>a. if unat (a - address) < n then bytes ! unat (a - address) else mem a)"

definition mem_bytes :: "(uint64_t \<Rightarrow> uint8_t) \<Rightarrow> uint64_t \<Rightarrow> nat \<Rightarrow> uint8_t list" where
  "mem_bytes mem address n = map (\<lambda>i. mem (address + of_nat i)) [0..<n]"

fun copyOut_loop :: "os_heap \<Rightarrow> (memory_object \<times> nat) list \<Rightarrow> (uint64_t \<Rightarrow> uint8_t) \<Rightarrow> (uint64_t \<Rightarrow> uint8_t) option" where
  "copyOut_loop H [] mem = Some mem"
| "copyOut_loop H ((mo, p) # rest) mem =
     (if \<not> isUserSpecified mo then do {
        os \<leftarrow> oh_map H p;
        if \<not> readOnly os
        then copyOut_loop H rest (memcpy_out mem (mo_address mo) (concreteStore os) (mo_size mo))
        else copyOut_loop H rest mem }
      else copyOut_loop H rest mem)"

definition copyOutConcretes :: "os_heap \<Rightarrow> address_space \<Rightarrow> (uint64_t \<Rightarrow> uint8_t) \<Rightarrow> (uint64_t \<Rightarrow> uint8_t) option" where
  "copyOutConcretes H A mem = copyOut_loop H (inorder (objects A)) mem"

fun copyIn_loop :: "(uint64_t \<Rightarrow> uint8_t) \<Rightarrow> (memory_object \<times> nat) list \<Rightarrow> os_heap \<Rightarrow> address_space \<Rightarrow>
    (bool \<times> os_heap \<times> address_space) option" where
  "copyIn_loop mem [] H A = Some (True, H, A)"
| "copyIn_loop mem ((mo, p) # rest) H A =
     (if \<not> isUserSpecified mo then do {
        os \<leftarrow> oh_map H p;
        let bytes = mem_bytes mem (mo_address mo) (mo_size mo);
        if bytes \<noteq> take (mo_size mo) (concreteStore os) then
          (if readOnly os then Some (False, H, A)
           else do {
             (q, H', A') \<leftarrow> getWriteable H A mo p;
             wos \<leftarrow> oh_map H' q;
             copyIn_loop mem rest
               (heap_set H' q (wos\<lparr>concreteStore := bytes @ drop (mo_size mo) (concreteStore wos)\<rparr>)) A' })
        else copyIn_loop mem rest H A }
      else copyIn_loop mem rest H A)"

definition copyInConcretes :: "(uint64_t \<Rightarrow> uint8_t) \<Rightarrow> os_heap \<Rightarrow> address_space \<Rightarrow> (bool \<times> os_heap \<times> address_space) option" where
  "copyInConcretes mem H A = copyIn_loop mem (inorder (objects A)) H A"

end
