(* ===== verification/Resolve.thy ===== *)
theory Resolve
  imports AddressSpace ExprSound
begin

text \<open>
  Pointer resolution: \<open>AddressSpace::resolveOne\<close> and \<open>AddressSpace::resolve\<close> against what they
  are for, the set of objects an address can point into. The solver is a parameter; \<open>solver_ok\<close>
  says that its answers, when it gives any, are right for the constraints.
\<close>

section \<open>Layout of objects in memory\<close>

text \<open>An empty object is hit by its own address only.\<close>

definition covers :: "memory_object \<Rightarrow> uint64_t \<Rightarrow> bool" where
  "covers mo a \<longleftrightarrow> (if mo_size mo = 0 then a = mo_address mo else unat (a - mo_address mo) < mo_size mo)"

definition bindings :: "address_space \<Rightarrow> (memory_object \<times> nat) list" where
  "bindings A = inorder (objects A)"

text \<open>
  The objects of a space do not overlap, none wraps around the end of the address space, and sizes
  are unsigned ints.
\<close>

definition layout_ok :: "address_space \<Rightarrow> bool" where
  "layout_ok A \<longleftrightarrow> imap_inv mo_address (objects A) \<and>
     (\<forall>e \<in> set (bindings A). mo_size (fst e) < 2 ^ 32 \<and> unat (mo_address (fst e)) + mo_size (fst e) \<le> 2 ^ 64) \<and>
     (\<forall>e \<in> set (bindings A). \<forall>f \<in> set (bindings A). mo_address (fst e) < mo_address (fst f) \<longrightarrow>
        unat (mo_address (fst e)) + mo_size (fst e) \<le> unat (mo_address (fst f)))"

lemma covers_iff:
  assumes "unat (mo_address mo) + mo_size mo \<le> 2 ^ 64"
  shows "covers mo a \<longleftrightarrow> mo_address mo \<le> a \<and> (a = mo_address mo \<or> unat a < unat (mo_address mo) + mo_size mo)"
proof (cases "mo_address mo \<le> a")
  case True
  then have "unat (a - mo_address mo) = unat a - unat (mo_address mo)" "unat (mo_address mo) \<le> unat a"
    by (simp_all add: unat_sub word_le_nat_alt)
  with True show ?thesis by (auto simp: covers_def word_le_nat_alt word_unat_eq_iff)
next
  case False
  then have lt: "unat a < unat (mo_address mo)" by (simp add: word_le_nat_alt)
  have "unat (a - mo_address mo) = 2 ^ 64 + unat a - unat (mo_address mo)"
    using False by (simp add: unat_sub_if' word_le_nat_alt)
  then have "\<not> unat (a - mo_address mo) < mo_size mo" using assms lt by linarith
  with False show ?thesis by (auto simp: covers_def)
qed

lemma covers_disjoint:
  assumes "layout_ok A" "e \<in> set (bindings A)" "f \<in> set (bindings A)" "covers (fst e) a" "covers (fst f) a"
  shows "e = f"
proof -
  have w: "unat (mo_address (fst g)) + mo_size (fst g) \<le> 2 ^ 64" if "g \<in> set (bindings A)" for g
    using assms(1) that by (simp add: layout_ok_def)
  have le: "unat (mo_address (fst g)) \<le> unat a" "unat a \<le> unat (mo_address (fst g)) + mo_size (fst g)"
    "unat a = unat (mo_address (fst g)) + mo_size (fst g) \<Longrightarrow> a = mo_address (fst g)"
    if "g \<in> set (bindings A)" "covers (fst g) a" for g
    using covers_iff [OF w [OF that(1)]] that(2) by (auto simp: word_le_nat_alt)
  have "\<not> mo_address (fst g) < mo_address (fst h)" if "g \<in> set (bindings A)" "h \<in> set (bindings A)" "covers (fst g) a" "covers (fst h) a" for g h
  proof
    assume lt: "mo_address (fst g) < mo_address (fst h)"
    with assms(1) that have "unat (mo_address (fst g)) + mo_size (fst g) \<le> unat (mo_address (fst h))" by (simp add: layout_ok_def)
    with le [OF that(1,3)] le [OF that(2,4)] lt show False by (auto simp: word_less_nat_alt)
  qed
  from this [OF assms(2,3,4,5)] this [OF assms(3,2,5,4)] have "mo_address (fst e) = mo_address (fst f)" by simp
  moreover have "tree_inv (mo_address \<circ> fst) (objects A)" using assms(1) by (simp add: layout_ok_def imap_inv_def)
  ultimately show ?thesis using tree.key_inj [of "mo_address \<circ> fst" "objects A" e f] assms(2,3) by (simp add: bindings_def)
qed

lemma previous_covers:
  assumes "layout_ok A" "e \<in> set (bindings A)" "covers (fst e) a"
  shows "imap_lookup_previous mo_address (hack a) (objects A) = Some e"
proof -
  have inv: "tree_inv (mo_address \<circ> fst) (objects A)" using assms(1) by (simp add: layout_ok_def imap_inv_def)
  have w: "unat (mo_address (fst e)) + mo_size (fst e) \<le> 2 ^ 64" using assms(1,2) by (simp add: layout_ok_def)
  have e: "mo_address (fst e) \<le> a" "a = mo_address (fst e) \<or> unat a < unat (mo_address (fst e)) + mo_size (fst e)"
    using covers_iff [OF w] assms(3) by auto
  have "a < mo_address (fst f)" if f: "f \<in> set (bindings A)" "mo_address (fst e) < mo_address (fst f)" for f
  proof -
    have "unat (mo_address (fst e)) + mo_size (fst e) \<le> unat (mo_address (fst f))" using assms(1,2) f by (simp add: layout_ok_def)
    with e(2) f(2) show ?thesis by (auto simp: word_less_nat_alt)
  qed
  with e(1) assms(2) tree.previous_unique [OF inv, of e a] show ?thesis
    by (simp add: imap_lookup_previous_def bindings_def hack_def)
qed

section \<open>Constant addresses\<close>

lemma resolveOne_exact_aux:
  assumes "apint_lib X" "layout_ok A" "valid addr" "apw addr \<le> 64"
  shows "\<exists>r. resolveOne X A addr = Some r \<and>
    (\<forall>e. r = Some e \<longleftrightarrow> e \<in> set (bindings A) \<and> covers (fst e) (word_of_int (apv addr)))"
proof -
  define a :: uint64_t where "a = word_of_int (apv addr)"
  have z: "getZExtValue X 64 addr = Some a" using apint_lib.getZExtValue_valid [OF assms(1,3,4)] by (simp add: a_def)
  let ?hit = "\<lambda>mo. mo_size mo = 0 \<and> a = mo_address mo \<or> unat (a - mo_address mo) < mo_size mo"
  let ?prev = "imap_lookup_previous mo_address (hack a) (objects A)"
  have hit: "?hit mo \<longleftrightarrow> covers mo a" for mo by (auto simp: covers_def)
  have inv: "tree_inv (mo_address \<circ> fst) (objects A)" using assms(2) by (simp add: layout_ok_def imap_inv_def)
  have mem: "e \<in> set (bindings A)" if "?prev = Some e" for e
    using tree.previous_Some [OF inv] that by (simp add: imap_lookup_previous_def bindings_def)
  define r where "r = (case ?prev of None \<Rightarrow> None | Some e \<Rightarrow> if covers (fst e) a then Some e else None)"
  have "resolveOne X A addr = Some r"
    using z by (simp add: resolveOne_def r_def hit Let_def split: option.split)
  moreover have "r = Some e \<longleftrightarrow> e \<in> set (bindings A) \<and> covers (fst e) a" for e
    using mem previous_covers [OF assms(2), of e a] by (auto simp: r_def split: option.splits if_splits)
  ultimately show ?thesis unfolding a_def by blast
qed

text \<open>
  C9: \<open>AddressSpace::resolveOne\<close> of a constant address is exact: in a layout without overlaps it
  finds the object that contains the address, empty objects included, and it finds none only when no
  object contains it.
\<close>

theorem resolveOne_exact:
  assumes "apint_lib X" "layout_ok A" "valid addr" "apw addr \<le> 64"
  shows "\<exists>r. resolveOne X A addr = Some r \<and>
    (\<forall>e. r = Some e \<longleftrightarrow> e \<in> set (bindings A) \<and> covers (fst e) (word_of_int (apv addr)))"
  by (rule resolveOne_exact_aux [OF assms])

section \<open>The solver\<close>

definition models :: "expr list \<Rightarrow> assignment set" where
  "models cs = {\<rho>. \<forall>c \<in> set cs. eval \<rho> c = 1}"

definition solver_ok :: "solver_ops \<Rightarrow> expr list \<Rightarrow> bool" where
  "solver_ok S cs \<longleftrightarrow>
     (\<forall>e b. wt e \<longrightarrow> s_mayBeTrue S cs e = Some b \<longrightarrow> b = (\<exists>\<rho> \<in> models cs. eval \<rho> e = 1)) \<and>
     (\<forall>e b. wt e \<longrightarrow> s_mustBeTrue S cs e = Some b \<longrightarrow> b = (\<forall>\<rho> \<in> models cs. eval \<rho> e = 1)) \<and>
     (\<forall>e c. wt e \<longrightarrow> s_getValue S cs e = Some c \<longrightarrow>
        valid c \<and> apw c = getWidth e \<and> (\<exists>\<rho> \<in> models cs. eval \<rho> e = apv c))"

lemma take_bit_64 [simp]: "take_bit 64 (uint (v :: uint64_t)) = uint v" "take_bit 64 v = v"
proof -
  show u: "take_bit 64 (uint v) = uint v"
    using unsigned_less [where 'b = 64 and 'a = int and w = v] by (simp add: take_bit_int_eq_self)
  then show "take_bit 64 v = v" by (metis unsigned_take_bit_eq word_of_int_uint)
qed

text \<open>The address an expression denotes.\<close>

definition addr_of :: "assignment \<Rightarrow> expr \<Rightarrow> uint64_t" where
  "addr_of \<rho> p = word_of_int (eval \<rho> p)"

lemma uint_addr_of: "wt p \<Longrightarrow> getWidth p = 64 \<Longrightarrow> uint (addr_of \<rho> p) = eval \<rho> p"
  using eval_take_bit [of p 64 \<rho>] take_bit_nonnegative [of 64 "eval \<rho> p"] by (simp add: addr_of_def unsigned_of_int)

definition may_hit :: "expr list \<Rightarrow> expr \<Rightarrow> memory_object \<times> nat \<Rightarrow> bool" where
  "may_hit cs p e \<longleftrightarrow> (\<exists>\<rho> \<in> models cs. covers (fst e) (addr_of \<rho> p))"

definition must_hit :: "expr list \<Rightarrow> expr \<Rightarrow> memory_object \<times> nat \<Rightarrow> bool" where
  "must_hit cs p e \<longleftrightarrow> (\<forall>\<rho> \<in> models cs. covers (fst e) (addr_of \<rho> p))"

context apint_default
begin

lemma Constant_64: "Constant_create X v 64 = Some (Constant_alloc X v 64)"
  by (rule Constant_create_valid) simp_all

lemma base_wt: "wt (ConstantExpr (Constant_alloc X v 64))" "getWidth (ConstantExpr (Constant_alloc X v 64)) = 64"
  by simp_all

lemma Uge_base:
  assumes "wt p" "getWidth p = 64"
  shows "creates (Uge_create X p (ConstantExpr (Constant_alloc X v 64))) 1 (\<lambda>\<rho>. of_bool (v \<le> addr_of \<rho> p))"
proof -
  have "creates (Uge_create X p (ConstantExpr (Constant_alloc X v 64))) 1 (\<lambda>\<rho>. of_bool (eval \<rho> p \<ge> uint v))"
    using create_cmp_creates [OF assms(1) base_wt(1) assms(2) base_wt(2), of Uge v] by simp
  then show ?thesis by (rule creates_cong) (simp add: word_le_def uint_addr_of assms)
qed

lemma Ult_base:
  assumes "wt p" "getWidth p = 64"
  shows "creates (Ult_create X p (ConstantExpr (Constant_alloc X v 64))) 1 (\<lambda>\<rho>. of_bool (addr_of \<rho> p < v))"
proof -
  have "creates (Ult_create X p (ConstantExpr (Constant_alloc X v 64))) 1 (\<lambda>\<rho>. of_bool (eval \<rho> p < uint v))"
    using create_cmp_creates [OF assms(1) base_wt(1) assms(2) base_wt(2), of Ult v] by simp
  then show ?thesis by (rule creates_cong) (simp add: word_less_def uint_addr_of assms)
qed

lemma bounds_check:
  assumes "wt p" "getWidth p = 64" "PointerWidth C = 64" "mo_size mo < 2 ^ 32"
  shows "creates (getBoundsCheckPointer X C mo p) 1 (\<lambda>\<rho>. of_bool (covers mo (addr_of \<rho> p)))"
proof -
  let ?base = "ConstantExpr (Constant_alloc X (mo_address mo) 64)"
  have "creates (Sub_create X p ?base) 64 (\<lambda>\<rho>. take_bit 64 (eval \<rho> p - uint (mo_address mo)))"
    using AddSub_create_creates [THEN conjunct2, OF assms(1) base_wt(1) assms(2) base_wt(2), of "mo_address mo"] by (simp add: bin_sem_def)
  then obtain off where off: "Sub_create X p ?base = Some off" "wt off" "getWidth off = 64"
    "\<And>\<rho>. eval \<rho> off = take_bit 64 (eval \<rho> p - uint (mo_address mo))" by (auto elim!: createsE)
  have d: "eval \<rho> off = uint (addr_of \<rho> p - mo_address mo)" for \<rho>
    using off(4) uint_addr_of [OF assms(1,2), of \<rho>] by (simp add: uint_word_ariths(2) take_bit_eq_mod)
  then have a: "addr_of \<rho> off = addr_of \<rho> p - mo_address mo" for \<rho> by (simp add: addr_of_def)
  show ?thesis
  proof (cases "mo_size mo = 0")
    case True
    have "creates (Eq_create X off (ConstantExpr (Constant_alloc X 0 64))) 1 (\<lambda>\<rho>. of_bool (eval \<rho> off = 0))"
      using Eq_create_creates [OF off(2) base_wt(1) off(3) base_wt(2), of 0] by simp
    then have "creates (Eq_create X off (ConstantExpr (Constant_alloc X 0 64))) 1 (\<lambda>\<rho>. of_bool (covers mo (addr_of \<rho> p)))"
      by (rule creates_cong) (use True in \<open>simp add: d covers_def uint_0_iff\<close>)
    with True off(1) assms(3) show ?thesis
      by (simp add: getBoundsCheckPointer_def getOffsetExpr_def getBaseExpr_def getBoundsCheckOffset_def Constant_64)
  next
    case False
    have "unat (of_nat (mo_size mo) :: uint64_t) = mo_size mo" using assms(4) by (simp add: unat_of_nat)
    then have "(addr_of \<rho> off < of_nat (mo_size mo)) = covers mo (addr_of \<rho> p)" for \<rho>
      using False by (simp add: covers_def a word_less_nat_alt)
    with Ult_base [OF off(2,3), of "of_nat (mo_size mo)"] False off(1) assms(3) show ?thesis
      by (simp add: getBoundsCheckPointer_def getOffsetExpr_def getBaseExpr_def getBoundsCheckOffset_def getSizeExpr_def Constant_64)
  qed
qed

end

lemma solver_query:
  assumes "solver_ok S cs" "creates m 1 (\<lambda>\<rho>. of_bool (Q \<rho>))"
  obtains e where "m = Some e" "\<And>b. s_mayBeTrue S cs e = Some b \<Longrightarrow> b = (\<exists>\<rho> \<in> models cs. Q \<rho>)"
    "\<And>b. s_mustBeTrue S cs e = Some b \<Longrightarrow> b = (\<forall>\<rho> \<in> models cs. Q \<rho>)"
proof -
  from assms(2) obtain e where e: "m = Some e" "wt e" "\<And>\<rho>. eval \<rho> e = of_bool (Q \<rho>)" by (rule createsE) blast
  have Q: "eval \<rho> e = 1 \<longleftrightarrow> Q \<rho>" for \<rho> by (simp add: e(3))
  have "b = (\<exists>\<rho> \<in> models cs. Q \<rho>)" if "s_mayBeTrue S cs e = Some b" for b
    using assms(1) e(2) that unfolding solver_ok_def Q [symmetric] by blast
  moreover have "b = (\<forall>\<rho> \<in> models cs. Q \<rho>)" if "s_mustBeTrue S cs e = Some b" for b
    using assms(1) e(2) that unfolding solver_ok_def Q [symmetric] by blast
  ultimately show ?thesis using that [OF e(1)] by blast
qed

section \<open>Iterators over the bindings\<close>

lemma path_stack_rest:
  assumes "path_stack root (n # st)" "key_sorted kov (inorder root)"
  shows "\<exists>pre. inorder root = pre @ inorder n @ rest_above n st"
  using assms(1)
proof (induction st arbitrary: n)
  case (Cons q st)
  then obtain pre where pre: "inorder root = pre @ inorder q @ rest_above q st" by auto
  have q: "path_stack root (q # st)" "q \<noteq> Terminator" "n \<noteq> Terminator"
    using path_stack_tl [OF Cons.prems] path_stack_hd Cons.prems by blast+
  show ?case
  proof (cases "n = left q")
    case True
    with q(2) pre show ?thesis by (cases q) auto
  next
    case False
    with Cons.prems have "n = right q" by simp
    with False q(2) pre show ?thesis by (cases q) auto
  qed
qed simp

lemma path_stack_leftmost:
  assumes "path_stack root (n # st)" "key_sorted kov (inorder root)" "inorder n @ rest_above n st = inorder root"
  shows "push_left n st = push_left root []"
  using assms(1,3)
proof (induction st arbitrary: n)
  case (Cons q st)
  have q: "path_stack root (q # st)" "q \<noteq> Terminator"
    using path_stack_tl [OF Cons.prems(1)] path_stack_hd by blast+
  from path_stack_rest [OF q(1) assms(2)] obtain pre where pre: "inorder root = pre @ inorder q @ rest_above q st" by blast
  show ?case
  proof (cases "n = left q")
    case True
    then have "inorder n @ rest_above n (q # st) = inorder q @ rest_above q st" using q(2) by (cases q) simp_all
    with Cons.IH [OF q(1)] Cons.prems(2) have "push_left q st = push_left root []" by simp
    with True q(2) show ?thesis by (cases q) simp_all
  next
    case False
    with Cons.prems have n: "n = right q" "inorder n @ rest_above q st = inorder root" by simp_all
    from q(2) have "length (inorder (right q)) < length (inorder q)" by (cases q) simp_all
    moreover have "length (inorder n @ rest_above q st) = length (pre @ inorder q @ rest_above q st)" using n(2) pre by simp
    ultimately show ?thesis using n(1) by simp
  qed
qed simp

lemma at_begin_iff:
  assumes "it_inv kov it"
  shows "it_stack it = it_stack (it_new (it_root it) True) \<longleftrightarrow> it_rest (it_stack it) = inorder (it_root it)"
proof
  assume r: "it_rest (it_stack it) = inorder (it_root it)"
  have s: "key_sorted kov (inorder (it_root it))" "path_stack (it_root it) (it_stack it)" using assms by (simp_all add: it_inv_def tree_inv_def)
  show "it_stack it = it_stack (it_new (it_root it) True)"
  proof (cases "it_stack it")
    case Nil
    with r have "it_root it = Terminator" by (cases "it_root it") simp_all
    with Nil show ?thesis by (simp add: it_new_def)
  next
    case (Cons n st)
    with s(2) have p: "path_stack (it_root it) (n # st)" by simp
    from path_stack_rest [OF p s(1)] obtain pre where pre: "inorder (it_root it) = pre @ inorder n @ rest_above n st" by blast
    have n: "n \<noteq> Terminator" by (rule path_stack_hd [OF p])
    have "it_rest (n # st) = pre @ inorder n @ rest_above n st" using r Cons pre by simp
    then have "length (it_rest (n # st)) = length (pre @ inorder n @ rest_above n st)" by (rule arg_cong)
    then have "pre = []" "inorder (left n) = []" using n by (cases n; simp)+
    then have "left n = Terminator" by (cases "left n") simp_all
    with n have "push_left n st = n # st" by (cases n) simp_all
    with path_stack_leftmost [OF p s(1)] pre \<open>pre = []\<close> Cons show ?thesis by (simp add: it_new_def)
  qed
qed (simp add: begin_rest)

text \<open>The position of an iterator as a number of bindings before it.\<close>

definition it_at :: "address_space \<Rightarrow> (memory_object \<times> nat) iterator \<Rightarrow> nat \<Rightarrow> bool" where
  "it_at A it k \<longleftrightarrow> it_inv (mo_address \<circ> fst) it \<and> it_root it = objects A \<and> k \<le> length (bindings A) \<and>
     it_rest (it_stack it) = drop k (bindings A)"

lemma it_at_begin:
  assumes "it_at A it k"
  shows "it_stack it = it_stack (imap_begin (objects A)) \<longleftrightarrow> k = 0"
proof -
  have "it_stack it = it_stack (imap_begin (objects A)) \<longleftrightarrow> drop k (bindings A) = bindings A"
    using assms at_begin_iff [of "mo_address \<circ> fst" it] by (simp add: it_at_def imap_begin_def bindings_def)
  also have "\<dots> \<longleftrightarrow> k = 0" using assms by (auto simp: it_at_def dest: arg_cong [where f = length])
  finally show ?thesis .
qed

lemma it_at_end: "it_at A it k \<Longrightarrow> it_stack it = [] \<longleftrightarrow> k = length (bindings A)"
  by (auto simp: it_at_def simp flip: it_rest_Nil)

lemma it_rest_suffix:
  assumes "it_inv kov it"
  shows "\<exists>pre. inorder (it_root it) = pre @ it_rest (it_stack it)"
proof (cases "it_stack it")
  case (Cons n st)
  with assms have p: "path_stack (it_root it) (n # st)" "key_sorted kov (inorder (it_root it))" by (simp_all add: it_inv_def tree_inv_def)
  from path_stack_rest [OF this] obtain pre where "inorder (it_root it) = pre @ inorder n @ rest_above n st" by blast
  with path_stack_hd [OF p(1)] Cons show ?thesis by (cases n) auto
qed simp

lemma it_at_prev:
  assumes "it_at A it (Suc k)"
  shows "it_at A (it_prev it) k" "ok_of (it_deref (it_prev it)) = Some (bindings A ! k)"
proof -
  have inv: "it_inv (mo_address \<circ> fst) it" "it_root it = objects A" "k < length (bindings A)"
    "it_rest (it_stack it) = drop (Suc k) (bindings A)" using assms by (simp_all add: it_at_def)
  have "length (it_rest (it_stack it)) \<noteq> length (bindings A)" using inv(3,4) by simp
  then have "it_rest (it_stack it) \<noteq> bindings A" by metis
  with it_prev_rest [OF inv(1)] inv(2) obtain v where
    p: "it_inv (mo_address \<circ> fst) (it_prev it)" "it_root (it_prev it) = objects A" "it_rest (it_stack (it_prev it)) = v # drop (Suc k) (bindings A)"
    unfolding inv(4) bindings_def by auto
  from it_rest_suffix [OF p(1)] obtain pre where pre: "bindings A = pre @ v # drop (Suc k) (bindings A)"
    unfolding p(2,3) bindings_def by blast
  then have "length (bindings A) = length (pre @ v # drop (Suc k) (bindings A))" by (rule arg_cong)
  then have l: "length pre = k" using inv(3) by simp
  have d: "drop k (bindings A) = v # drop (Suc k) (bindings A)" using arg_cong [OF pre, of "drop k"] l by simp
  then have v: "bindings A ! k = v" using inv(3) by (metis hd_drop_conv_nth list.sel(1))
  show "it_at A (it_prev it) k" using p inv(3) by (simp add: it_at_def d)
  have "it_stack (it_prev it) \<noteq> []" using p(3) by (auto simp flip: it_rest_Nil)
  then show "ok_of (it_deref (it_prev it)) = Some (bindings A ! k)" using p(3) v by (simp add: it_deref_rest)
qed

lemma it_at_next:
  assumes "it_at A it k" "k < length (bindings A)"
  shows "ok_of (it_deref it) = Some (bindings A ! k)" "\<exists>it'. ok_of (it_next it) = Some it' \<and> it_at A it' (Suc k)"
proof -
  have inv: "it_inv (mo_address \<circ> fst) it" "it_root it = objects A" "it_rest (it_stack it) = drop k (bindings A)"
    using assms(1) by (simp_all add: it_at_def)
  have ne: "it_stack it \<noteq> []" using it_at_end [OF assms(1)] assms(2) by simp
  show "ok_of (it_deref it) = Some (bindings A ! k)" using ne assms(2) by (simp add: it_deref_rest inv(3) hd_drop_conv_nth)
  from it_next_rest [OF inv(1) ne] inv assms(2)
  show "\<exists>it'. ok_of (it_next it) = Some it' \<and> it_at A it' (Suc k)" by (auto simp: it_at_def drop_Suc tl_drop)
qed

section \<open>Symbolic addresses\<close>

definition query_ok :: "klee_context \<Rightarrow> solver_ops \<Rightarrow> expr list \<Rightarrow> address_space \<Rightarrow> expr \<Rightarrow> bool" where
  "query_ok C S cs A p \<longleftrightarrow> PointerWidth C = 64 \<and> layout_ok A \<and> solver_ok S cs \<and> wt p \<and> getWidth p = 64"

definition hits :: "expr list \<Rightarrow> expr \<Rightarrow> (memory_object \<times> nat) list \<Rightarrow> (memory_object \<times> nat) set" where
  "hits cs p es = {e \<in> set es. may_hit cs p e}"

text \<open>One object that contains the address under every model makes the list complete.\<close>

definition sole :: "expr list \<Rightarrow> address_space \<Rightarrow> expr \<Rightarrow> (memory_object \<times> nat) list \<Rightarrow> bool" where
  "sole cs A p rl \<longleftrightarrow> (\<exists>e \<in> set (bindings A). rl = [e] \<and> may_hit cs p e \<and> must_hit cs p e)"

lemma hits_simps [simp]:
  "hits cs p [] = {}" "hits cs p (e # es) = (if may_hit cs p e then insert e (hits cs p es) else hits cs p es)"
  "hits cs p (es @ fs) = hits cs p es \<union> hits cs p fs"
  by (auto simp: hits_def)

lemma bindings_sorted:
  assumes "layout_ok A" "i < j" "j < length (bindings A)"
  shows "mo_address (fst (bindings A ! i)) < mo_address (fst (bindings A ! j))"
proof -
  have "sorted_wrt (<) (map (mo_address \<circ> fst) (bindings A))"
    using assms(1) by (simp add: layout_ok_def imap_inv_def tree_inv_def key_sorted_def bindings_def)
  with assms(2,3) show ?thesis by (auto dest!: sorted_wrt_nth_less [of _ _ i j])
qed

lemma not_covers_below:
  assumes "layout_ok A" "i < k" "k < length (bindings A)" "mo_address (fst (bindings A ! k)) \<le> a"
  shows "\<not> covers (fst (bindings A ! i)) a"
proof -
  let ?e = "bindings A ! i" and ?f = "bindings A ! k"
  have m: "?e \<in> set (bindings A)" "?f \<in> set (bindings A)" using assms(2,3) by simp_all
  have lt: "mo_address (fst ?e) < mo_address (fst ?f)" by (rule bindings_sorted [OF assms(1-3)])
  have "unat (mo_address (fst ?e)) + mo_size (fst ?e) \<le> unat (mo_address (fst ?f))" "unat (mo_address (fst ?e)) + mo_size (fst ?e) \<le> 2 ^ 64"
    using assms(1) m lt unfolding layout_ok_def by blast+
  with covers_iff [of "fst ?e" a] assms(4) lt show ?thesis by (auto simp: word_le_nat_alt word_less_nat_alt)
qed

lemma not_covers_above:
  assumes "layout_ok A" "k \<le> i" "i < length (bindings A)" "a < mo_address (fst (bindings A ! k))"
  shows "\<not> covers (fst (bindings A ! i)) a"
proof -
  have "mo_address (fst (bindings A ! k)) \<le> mo_address (fst (bindings A ! i))"
    using bindings_sorted [OF assms(1) _ assms(3), of k] assms(2) by (cases "k = i") auto
  moreover have "unat (mo_address (fst (bindings A ! i))) + mo_size (fst (bindings A ! i)) \<le> 2 ^ 64"
    using assms(1,3) by (simp add: layout_ok_def)
  ultimately show ?thesis using covers_iff [of "fst (bindings A ! i)" a] assms(4) by auto
qed

lemma no_hits_below:
  assumes "layout_ok A" "k < length (bindings A)" "\<forall>\<rho> \<in> models cs. mo_address (fst (bindings A ! k)) \<le> addr_of \<rho> p"
  shows "hits cs p (take k (bindings A)) = {}"
proof -
  have "\<not> may_hit cs p (bindings A ! i)" if "i < k" for i
    using not_covers_below [OF assms(1) that assms(2)] assms(3) by (auto simp: may_hit_def)
  moreover have "\<exists>i < k. e = bindings A ! i" if "e \<in> set (take k (bindings A))" for e
    using that assms(2) by (metis in_set_conv_nth length_take min_less_iff_conj nth_take)
  ultimately show ?thesis unfolding hits_def by blast
qed

lemma no_hits_above:
  assumes "layout_ok A" "k < length (bindings A)" "\<forall>\<rho> \<in> models cs. addr_of \<rho> p < mo_address (fst (bindings A ! k))"
  shows "hits cs p (drop k (bindings A)) = {}"
proof -
  have "\<not> may_hit cs p (bindings A ! i)" if "k \<le> i" "i < length (bindings A)" for i
    using not_covers_above [OF assms(1) that] assms(3) by (auto simp: may_hit_def)
  moreover have "\<exists>i. k \<le> i \<and> i < length (bindings A) \<and> e = bindings A ! i" if "e \<in> set (drop k (bindings A))" for e
  proof -
    from that obtain i where "i < length (bindings A) - k" "e = drop k (bindings A) ! i" by (auto simp: in_set_conv_nth)
    then show ?thesis using assms(2) by (intro exI [of _ "k + i"]) simp
  qed
  ultimately show ?thesis unfolding hits_def by blast
qed

lemma resolve_push_spec:
  assumes "\<And>b. s_mayBeTrue S cs q = Some b \<Longrightarrow> b = may_hit cs p e" "\<And>b. s_mustBeTrue S cs q = Some b \<Longrightarrow> b = must_hit cs p e"
    and "e \<in> set (bindings A)"
  shows "case resolve_push S cs m q e rl of
      Inl (inc, rl') \<Rightarrow> set rl' \<subseteq> set rl \<union> hits cs p [e] \<and> (\<not> inc \<longrightarrow> sole cs A p rl')
    | Inr rl' \<Rightarrow> set rl' = set rl \<union> hits cs p [e]"
proof (cases "s_mayBeTrue S cs q")
  case None
  then show ?thesis by (simp add: resolve_push_def)
next
  case (Some b)
  with assms(1) have b: "b = may_hit cs p e" by simp
  show ?thesis
  proof (cases "s_mustBeTrue S cs q")
    case None
    with Some b show ?thesis by (auto simp: resolve_push_def Let_def)
  next
    case (Some c)
    with assms(2) have c: "c = must_hit cs p e" by simp
    show ?thesis
      using Some \<open>s_mayBeTrue S cs q = Some b\<close> b c assms(3) by (auto simp: resolve_push_def Let_def sole_def split: bool.split)
  qed
qed

context apint_default
begin

lemma bounds_query:
  assumes "query_ok C S cs A p" "e \<in> set (bindings A)"
  obtains q where "getBoundsCheckPointer X C (fst e) p = Some q"
    "\<And>b. s_mayBeTrue S cs q = Some b \<Longrightarrow> b = may_hit cs p e" "\<And>b. s_mustBeTrue S cs q = Some b \<Longrightarrow> b = must_hit cs p e"
proof -
  have s: "solver_ok S cs" "wt p" "getWidth p = 64" "PointerWidth C = 64" "mo_size (fst e) < 2 ^ 32"
    using assms by (auto simp: query_ok_def layout_ok_def)
  show ?thesis
    by (rule solver_query [OF s(1) bounds_check [OF s(2-5)]]) (rule that, auto simp: may_hit_def must_hit_def)
qed

lemma base_query:
  assumes "query_ok C S cs A p"
  obtains g where "getBaseExpr X C (fst e) = Some (Constant_alloc X (mo_address (fst e)) 64)"
    "Uge_create X p (ConstantExpr (Constant_alloc X (mo_address (fst e)) 64)) = Some g"
    "\<And>b. s_mustBeTrue S cs g = Some b \<Longrightarrow> b = (\<forall>\<rho> \<in> models cs. mo_address (fst e) \<le> addr_of \<rho> p)"
proof -
  have s: "solver_ok S cs" "wt p" "getWidth p = 64" "PointerWidth C = 64" using assms by (auto simp: query_ok_def)
  show ?thesis
    by (rule solver_query [OF s(1) Uge_base [OF s(2,3), of "mo_address (fst e)"]]) (rule that, auto simp: getBaseExpr_def Constant_64 s(4))
qed

lemma end_query:
  assumes "query_ok C S cs A p"
  obtains g where "getBaseExpr X C (fst e) = Some (Constant_alloc X (mo_address (fst e)) 64)"
    "Ult_create X p (ConstantExpr (Constant_alloc X (mo_address (fst e)) 64)) = Some g"
    "\<And>b. s_mustBeTrue S cs g = Some b \<Longrightarrow> b = (\<forall>\<rho> \<in> models cs. addr_of \<rho> p < mo_address (fst e))"
proof -
  have s: "solver_ok S cs" "wt p" "getWidth p = 64" "PointerWidth C = 64" using assms by (auto simp: query_ok_def)
  show ?thesis
    by (rule solver_query [OF s(1) Ult_base [OF s(2,3), of "mo_address (fst e)"]]) (rule that, auto simp: getBaseExpr_def Constant_64 s(4))
qed

end

lemma take_Suc_hits: "k < length es \<Longrightarrow> hits cs p (take (Suc k) es) = hits cs p [es ! k] \<union> hits cs p (take k es)"
  by (simp only: take_Suc_conv_app_nth hits_simps(3)) (rule Un_commute)

lemma drop_hits: "k < length es \<Longrightarrow> hits cs p (drop k es) = hits cs p [es ! k] \<union> hits cs p (drop (Suc k) es)"
  unfolding Cons_nth_drop_Suc [symmetric] by simp

lemma hits_sub: "hits cs p (take k es) \<subseteq> hits cs p es" "hits cs p (drop k es) \<subseteq> hits cs p es"
  "k < length es \<Longrightarrow> hits cs p [es ! k] \<subseteq> hits cs p es"
  by (auto simp: hits_def dest: in_set_takeD in_set_dropD)

context apint_default
begin

lemma resolve_list_back_spec:
  assumes "query_ok C S cs A p" "it_at A oi k" "k < n"
  shows "\<exists>r. resolve_list_back X C S cs p m timer t n (imap_begin (objects A)) oi rl = Some r \<and>
    (case r of
       Inl (inc, rl') \<Rightarrow> set rl' \<subseteq> set rl \<union> hits cs p (bindings A) \<and> (\<not> inc \<longrightarrow> sole cs A p rl')
     | Inr (t', rl') \<Rightarrow> set rl' = set rl \<union> hits cs p (take k (bindings A)))"
  using assms(2,3)
proof (induction k arbitrary: oi t n rl)
  case 0
  then obtain n' where "n = Suc n'" by (cases n) auto
  with 0 it_at_begin [OF 0(1)] show ?case by simp
next
  case (Suc k)
  then obtain n' where n: "n = Suc n'" "k < n'" by (cases n) auto
  let ?e = "bindings A ! k"
  have k: "k < length (bindings A)" using Suc.prems(1) by (simp add: it_at_def)
  note prev = it_at_prev [OF Suc.prems(1)]
  have nb: "it_stack oi \<noteq> it_stack (imap_begin (objects A))" using it_at_begin [OF Suc.prems(1)] by simp
  have lay: "layout_ok A" using assms(1) by (simp add: query_ok_def)
  obtain q where q: "getBoundsCheckPointer X C (fst ?e) p = Some q" "\<And>b. s_mayBeTrue S cs q = Some b \<Longrightarrow> b = may_hit cs p ?e"
    "\<And>b. s_mustBeTrue S cs q = Some b \<Longrightarrow> b = must_hit cs p ?e"
    using bounds_query [OF assms(1), of ?e] k by auto
  obtain g where g: "getBaseExpr X C (fst ?e) = Some (Constant_alloc X (mo_address (fst ?e)) 64)"
    "Uge_create X p (ConstantExpr (Constant_alloc X (mo_address (fst ?e)) 64)) = Some g"
    "\<And>b. s_mustBeTrue S cs g = Some b \<Longrightarrow> b = (\<forall>\<rho> \<in> models cs. mo_address (fst ?e) \<le> addr_of \<rho> p)"
    by (rule base_query [OF assms(1), of ?e]) blast
  have push: "case resolve_push S cs m q ?e rl of
      Inl (inc, rl') \<Rightarrow> set rl' \<subseteq> set rl \<union> hits cs p [?e] \<and> (\<not> inc \<longrightarrow> sole cs A p rl')
    | Inr rl' \<Rightarrow> set rl' = set rl \<union> hits cs p [?e]"
    by (rule resolve_push_spec) (use q(2,3) k in simp_all)
  show ?case
  proof (cases "timer t")
    case True
    with n nb prev show ?thesis by (simp add: Let_def)
  next
    case tm: False
    show ?thesis
    proof (cases "resolve_push S cs m q ?e rl")
      case (Inl r)
      with push have "set (snd r) \<subseteq> set rl \<union> hits cs p [?e]" "\<not> fst r \<longrightarrow> sole cs A p (snd r)" by (auto split: prod.splits)
      with hits_sub(3) [OF k, of cs p] Inl n nb prev tm q(1) show ?thesis by (auto simp: Let_def split: prod.split)
    next
      case (Inr rl1)
      with push have s1: "set rl1 = set rl \<union> hits cs p [?e]" by simp
      have step: "resolve_list_back X C S cs p m timer t n (imap_begin (objects A)) oi rl =
        (case s_mustBeTrue S cs g of
           None \<Rightarrow> Some (Inl (True, rl1))
         | Some True \<Rightarrow> Some (Inr (t + 1, rl1))
         | Some False \<Rightarrow> resolve_list_back X C S cs p m timer (t + 1) n' (imap_begin (objects A)) (it_prev oi) rl1)"
        using Inr n nb prev tm q(1) g(1,2) by (simp add: Let_def)
      show ?thesis
      proof (cases "s_mustBeTrue S cs g")
        case None
        with step s1 hits_sub(3) [OF k, of cs p] show ?thesis by auto
      next
        case (Some b)
        show ?thesis
        proof (cases b)
          case True
          with Some g(3) have "\<forall>\<rho> \<in> models cs. mo_address (fst ?e) \<le> addr_of \<rho> p" by simp
          with no_hits_below [OF lay k] have "hits cs p (take k (bindings A)) = {}" by blast
          with step Some True s1 k show ?thesis by (simp add: take_Suc_hits)
        next
          case False
          from Suc.IH [OF prev(1) n(2), of "t + 1" rl1] obtain r where
            r: "resolve_list_back X C S cs p m timer (t + 1) n' (imap_begin (objects A)) (it_prev oi) rl1 = Some r"
              "case r of Inl (inc, rl') \<Rightarrow> set rl' \<subseteq> set rl1 \<union> hits cs p (bindings A) \<and> (\<not> inc \<longrightarrow> sole cs A p rl')
               | Inr (t', rl') \<Rightarrow> set rl' = set rl1 \<union> hits cs p (take k (bindings A))" by blast
          have "case r of Inl (inc, rl') \<Rightarrow> set rl' \<subseteq> set rl \<union> hits cs p (bindings A) \<and> (\<not> inc \<longrightarrow> sole cs A p rl')
               | Inr (t', rl') \<Rightarrow> set rl' = set rl \<union> hits cs p (take (Suc k) (bindings A))"
            using r(2) s1 hits_sub(3) [OF k, of cs p] take_Suc_hits [OF k, of cs p] by (auto split: sum.splits prod.splits)
          with step Some False r(1) show ?thesis by simp
        qed
      qed
    qed
  qed
qed

lemma resolve_list_forward_spec:
  assumes "query_ok C S cs A p" "it_at A oi k" "length (bindings A) - k < n"
  shows "\<exists>inc rl'. resolve_list_forward X C S cs p m timer t n oi rl = Some (inc, rl') \<and>
    set rl' \<subseteq> set rl \<union> hits cs p (bindings A) \<and>
    (\<not> inc \<longrightarrow> set rl' = set rl \<union> hits cs p (drop k (bindings A)) \<or> sole cs A p rl')"
  using assms(2,3)
proof (induction "length (bindings A) - k" arbitrary: k oi t n rl)
  case 0
  then have "k = length (bindings A)" by (simp add: it_at_def)
  moreover obtain n' where "n = Suc n'" using 0 by (cases n) auto
  ultimately show ?case using it_at_end [OF 0(2)] by auto
next
  case (Suc d)
  then obtain n' where n: "n = Suc n'" "length (bindings A) - Suc k < n'" by (cases n) auto
  let ?e = "bindings A ! k"
  have k: "k < length (bindings A)" using Suc(2) by simp
  note deref = it_at_next(1) [OF Suc.prems(1) k]
  from it_at_next(2) [OF Suc.prems(1) k] obtain oi' where nxt: "ok_of (it_next oi) = Some oi'" "it_at A oi' (Suc k)" by blast
  have ne: "it_stack oi \<noteq> []" using it_at_end [OF Suc.prems(1)] k by simp
  have lay: "layout_ok A" using assms(1) by (simp add: query_ok_def)
  obtain q where q: "getBoundsCheckPointer X C (fst ?e) p = Some q" "\<And>b. s_mayBeTrue S cs q = Some b \<Longrightarrow> b = may_hit cs p ?e"
    "\<And>b. s_mustBeTrue S cs q = Some b \<Longrightarrow> b = must_hit cs p ?e"
    using bounds_query [OF assms(1), of ?e] k by auto
  obtain g where g: "getBaseExpr X C (fst ?e) = Some (Constant_alloc X (mo_address (fst ?e)) 64)"
    "Ult_create X p (ConstantExpr (Constant_alloc X (mo_address (fst ?e)) 64)) = Some g"
    "\<And>b. s_mustBeTrue S cs g = Some b \<Longrightarrow> b = (\<forall>\<rho> \<in> models cs. addr_of \<rho> p < mo_address (fst ?e))"
    by (rule end_query [OF assms(1), of ?e]) blast
  have push: "case resolve_push S cs m q ?e rl of
      Inl (inc, rl') \<Rightarrow> set rl' \<subseteq> set rl \<union> hits cs p [?e] \<and> (\<not> inc \<longrightarrow> sole cs A p rl')
    | Inr rl' \<Rightarrow> set rl' = set rl \<union> hits cs p [?e]"
    by (rule resolve_push_spec) (use q(2,3) k in simp_all)
  show ?case
  proof (cases "timer t \<or> s_mustBeTrue S cs g = None")
    case True
    with n ne deref g(1,2) show ?thesis by (auto simp: Let_def)
  next
    case False
    then obtain b where b: "s_mustBeTrue S cs g = Some b" by blast
    have step: "resolve_list_forward X C S cs p m timer t n oi rl = (if b then Some (False, rl)
      else case resolve_push S cs m q ?e rl of
          Inl r \<Rightarrow> Some r
        | Inr rl' \<Rightarrow> resolve_list_forward X C S cs p m timer (t + 1) n' oi' rl')"
      using False b n ne deref g(1,2) q(1) nxt(1) by (simp add: Let_def split: sum.split)
    show ?thesis
    proof (cases b)
      case True
      with b g(3) have "\<forall>\<rho> \<in> models cs. addr_of \<rho> p < mo_address (fst ?e)" by simp
      with no_hits_above [OF lay k] have "hits cs p (drop k (bindings A)) = {}" by blast
      with step True show ?thesis by auto
    next
      case nb: False
      show ?thesis
      proof (cases "resolve_push S cs m q ?e rl")
        case (Inl r)
        with push have "set (snd r) \<subseteq> set rl \<union> hits cs p [?e]" "\<not> fst r \<longrightarrow> sole cs A p (snd r)" by (auto split: prod.splits)
        with hits_sub(3) [OF k, of cs p] Inl step nb show ?thesis by (cases r) auto
      next
        case (Inr rl1)
        with push have s1: "set rl1 = set rl \<union> hits cs p [?e]" by simp
        have "d = length (bindings A) - Suc k" using Suc(2) by simp
        from Suc.hyps(1) [OF this nxt(2) n(2), of "t + 1" rl1] obtain inc rl' where
          r: "resolve_list_forward X C S cs p m timer (t + 1) n' oi' rl1 = Some (inc, rl')"
            "set rl' \<subseteq> set rl1 \<union> hits cs p (bindings A)"
            "\<not> inc \<longrightarrow> set rl' = set rl1 \<union> hits cs p (drop (Suc k) (bindings A)) \<or> sole cs A p rl'" by blast
        have "set rl' \<subseteq> set rl \<union> hits cs p (bindings A)" using r(2) s1 hits_sub(3) [OF k, of cs p] by blast
        moreover have "\<not> inc \<longrightarrow> set rl' = set rl \<union> hits cs p (drop k (bindings A)) \<or> sole cs A p rl'"
          using r(3) s1 drop_hits [OF k, of cs p] by (simp only: Un_assoc)
        ultimately show ?thesis using step nb Inr r(1) by simp
      qed
    qed
  qed
qed

end

context apint_default
begin

lemma resolve_back_spec:
  assumes "query_ok C S cs A p" "it_at A oi k" "k < n"
  shows "\<exists>r. resolve_back X C S cs p n (imap_begin (objects A)) oi = Some r \<and>
    (case r of
       None \<Rightarrow> hits cs p (take k (bindings A)) = {}
     | Some SolverFailed \<Rightarrow> True
     | Some NotFound \<Rightarrow> False
     | Some (Found e) \<Rightarrow> e \<in> hits cs p (bindings A))"
  using assms(2,3)
proof (induction k arbitrary: oi n)
  case 0
  then obtain n' where "n = Suc n'" by (cases n) auto
  with 0 it_at_begin [OF 0(1)] show ?case by simp
next
  case (Suc k)
  then obtain n' where n: "n = Suc n'" "k < n'" by (cases n) auto
  let ?e = "bindings A ! k"
  have k: "k < length (bindings A)" using Suc.prems(1) by (simp add: it_at_def)
  note prev = it_at_prev [OF Suc.prems(1)]
  have nb: "it_stack oi \<noteq> it_stack (imap_begin (objects A))" using it_at_begin [OF Suc.prems(1)] by simp
  have lay: "layout_ok A" using assms(1) by (simp add: query_ok_def)
  obtain q where q: "getBoundsCheckPointer X C (fst ?e) p = Some q" "\<And>b. s_mayBeTrue S cs q = Some b \<Longrightarrow> b = may_hit cs p ?e"
    "\<And>b. s_mustBeTrue S cs q = Some b \<Longrightarrow> b = must_hit cs p ?e"
    using bounds_query [OF assms(1), of ?e] k by auto
  obtain g where g: "getBaseExpr X C (fst ?e) = Some (Constant_alloc X (mo_address (fst ?e)) 64)"
    "Uge_create X p (ConstantExpr (Constant_alloc X (mo_address (fst ?e)) 64)) = Some g"
    "\<And>b. s_mustBeTrue S cs g = Some b \<Longrightarrow> b = (\<forall>\<rho> \<in> models cs. mo_address (fst ?e) \<le> addr_of \<rho> p)"
    by (rule base_query [OF assms(1), of ?e]) blast
  have step: "resolve_back X C S cs p n (imap_begin (objects A)) oi =
      (case s_mayBeTrue S cs q of
         None \<Rightarrow> Some (Some SolverFailed)
       | Some True \<Rightarrow> Some (Some (Found ?e))
       | Some False \<Rightarrow>
          (case s_mustBeTrue S cs g of
             None \<Rightarrow> Some (Some SolverFailed)
           | Some True \<Rightarrow> Some None
           | Some False \<Rightarrow> resolve_back X C S cs p n' (imap_begin (objects A)) (it_prev oi)))"
    using n nb prev q(1) g(1,2) by (simp add: Let_def split: option.split bool.split)
  consider "s_mayBeTrue S cs q = None" | "s_mayBeTrue S cs q = Some True" | "s_mayBeTrue S cs q = Some False" by (cases "s_mayBeTrue S cs q") auto
  then show ?case
  proof cases
    case 1
    with step show ?thesis by simp
  next
    case 2
    with q(2) have "?e \<in> hits cs p (bindings A)" using k by (simp add: hits_def)
    with 2 step show ?thesis by simp
  next
    case 3
    with q(2) [of False] have miss: "hits cs p [?e] = {}" by simp
    consider "s_mustBeTrue S cs g = None" | "s_mustBeTrue S cs g = Some True" | "s_mustBeTrue S cs g = Some False" by (cases "s_mustBeTrue S cs g") auto
    then show ?thesis
    proof cases
      case 1
      with 3 step show ?thesis by simp
    next
      case 2
      with g(3) have "\<forall>\<rho> \<in> models cs. mo_address (fst ?e) \<le> addr_of \<rho> p" by simp
      with no_hits_below [OF lay k] have "hits cs p (take k (bindings A)) = {}" by blast
      with 2 3 step miss k show ?thesis by (simp add: take_Suc_hits)
    next
      case 4: 3
      from Suc.IH [OF prev(1) n(2)] obtain r where "resolve_back X C S cs p n' (imap_begin (objects A)) (it_prev oi) = Some r"
        "case r of None \<Rightarrow> hits cs p (take k (bindings A)) = {} | Some SolverFailed \<Rightarrow> True | Some NotFound \<Rightarrow> False
          | Some (Found e) \<Rightarrow> e \<in> hits cs p (bindings A)" by blast
      with 4 3 step miss k show ?thesis by (auto simp: take_Suc_hits split: option.splits resolution.splits)
    qed
  qed
qed

lemma resolve_forward_spec:
  assumes "query_ok C S cs A p" "it_at A oi k" "length (bindings A) - k < n"
  shows "\<exists>r. resolve_forward X C S cs p n oi = Some r \<and>
    (case r of
       SolverFailed \<Rightarrow> True
     | NotFound \<Rightarrow> hits cs p (drop k (bindings A)) = {}
     | Found e \<Rightarrow> e \<in> hits cs p (bindings A))"
  using assms(2,3)
proof (induction "length (bindings A) - k" arbitrary: k oi n)
  case 0
  then have "k = length (bindings A)" by (simp add: it_at_def)
  moreover obtain n' where "n = Suc n'" using 0 by (cases n) auto
  ultimately show ?case using it_at_end [OF 0(2)] by auto
next
  case (Suc d)
  then obtain n' where n: "n = Suc n'" "length (bindings A) - Suc k < n'" by (cases n) auto
  let ?e = "bindings A ! k"
  have k: "k < length (bindings A)" using Suc(2) by simp
  note deref = it_at_next(1) [OF Suc.prems(1) k]
  from it_at_next(2) [OF Suc.prems(1) k] obtain oi' where nxt: "ok_of (it_next oi) = Some oi'" "it_at A oi' (Suc k)" by blast
  have ne: "it_stack oi \<noteq> []" using it_at_end [OF Suc.prems(1)] k by simp
  have lay: "layout_ok A" using assms(1) by (simp add: query_ok_def)
  obtain q where q: "getBoundsCheckPointer X C (fst ?e) p = Some q" "\<And>b. s_mayBeTrue S cs q = Some b \<Longrightarrow> b = may_hit cs p ?e"
    "\<And>b. s_mustBeTrue S cs q = Some b \<Longrightarrow> b = must_hit cs p ?e"
    using bounds_query [OF assms(1), of ?e] k by auto
  obtain g where g: "getBaseExpr X C (fst ?e) = Some (Constant_alloc X (mo_address (fst ?e)) 64)"
    "Ult_create X p (ConstantExpr (Constant_alloc X (mo_address (fst ?e)) 64)) = Some g"
    "\<And>b. s_mustBeTrue S cs g = Some b \<Longrightarrow> b = (\<forall>\<rho> \<in> models cs. addr_of \<rho> p < mo_address (fst ?e))"
    by (rule end_query [OF assms(1), of ?e]) blast
  have step: "resolve_forward X C S cs p n oi =
      (case s_mustBeTrue S cs g of
         None \<Rightarrow> Some SolverFailed
       | Some True \<Rightarrow> Some NotFound
       | Some False \<Rightarrow>
          (case s_mayBeTrue S cs q of
             None \<Rightarrow> Some SolverFailed
           | Some True \<Rightarrow> Some (Found ?e)
           | Some False \<Rightarrow> resolve_forward X C S cs p n' oi'))"
    using n ne deref q(1) g(1,2) nxt(1) by (simp add: Let_def split: option.split bool.split)
  consider "s_mustBeTrue S cs g = None" | "s_mustBeTrue S cs g = Some True" | "s_mustBeTrue S cs g = Some False" by (cases "s_mustBeTrue S cs g") auto
  then show ?case
  proof cases
    case 1
    with step show ?thesis by simp
  next
    case 2
    with g(3) have "\<forall>\<rho> \<in> models cs. addr_of \<rho> p < mo_address (fst ?e)" by simp
    with no_hits_above [OF lay k] have "hits cs p (drop k (bindings A)) = {}" by blast
    with 2 step show ?thesis by simp
  next
    case 3
    consider "s_mayBeTrue S cs q = None" | "s_mayBeTrue S cs q = Some True" | "s_mayBeTrue S cs q = Some False" by (cases "s_mayBeTrue S cs q") auto
    then show ?thesis
    proof cases
      case 1
      with 3 step show ?thesis by simp
    next
      case 2
      with q(2) have "?e \<in> hits cs p (bindings A)" using k by (simp add: hits_def)
      with 2 3 step show ?thesis by simp
    next
      case 4: 3
      with q(2) [of False] have miss: "hits cs p [?e] = {}" by simp
      have "d = length (bindings A) - Suc k" using Suc(2) by simp
      from Suc.hyps(1) [OF this nxt(2) n(2)] obtain r where "resolve_forward X C S cs p n' oi' = Some r"
        "case r of SolverFailed \<Rightarrow> True | NotFound \<Rightarrow> hits cs p (drop (Suc k) (bindings A)) = {} | Found e \<Rightarrow> e \<in> hits cs p (bindings A)" by blast
      with 4 3 step drop_hits [OF k, of cs p] miss show ?thesis by (auto split: resolution.splits)
    qed
  qed
qed

lemma upper_bound_at:
  assumes "layout_ok A"
  obtains oi k where "ok_of (imap_upper_bound mo_address (hack a) (objects A)) = Some oi" "it_at A oi k"
proof -
  have inv: "tree_inv (mo_address \<circ> fst) (objects A)" using assms by (simp add: layout_ok_def imap_inv_def)
  from upper_bound_rest [OF inv, of a] obtain it where
    it: "upper_bound (mo_address \<circ> fst) a (objects A) = Inr it" "it_root it = objects A" "it_inv (mo_address \<circ> fst) it"
      "it_rest (it_stack it) = dropWhile (\<lambda>v. (mo_address \<circ> fst) v \<le> a) (bindings A)" unfolding bindings_def by blast
  have "it_at A it (length (takeWhile (\<lambda>v. (mo_address \<circ> fst) v \<le> a) (bindings A)))"
    using it length_takeWhile_le by (simp add: it_at_def dropWhile_eq_drop)
  with it(1) that show ?thesis by (auto simp: imap_upper_bound_def hack_def)
qed

end

lemma sole_hits:
  assumes "layout_ok A" "sole cs A p rl"
  shows "set rl = hits cs p (bindings A)"
proof -
  from assms(2) obtain e where e: "e \<in> set (bindings A)" "rl = [e]" "may_hit cs p e" "must_hit cs p e" by (auto simp: sole_def)
  have "f = e" if "f \<in> set (bindings A)" "may_hit cs p f" for f
  proof -
    from that(2) obtain \<rho> where "\<rho> \<in> models cs" "covers (fst f) (addr_of \<rho> p)" by (auto simp: may_hit_def)
    with e(4) covers_disjoint [OF assms(1) that(1) e(1)] show ?thesis by (simp add: must_hit_def)
  qed
  with e(1-3) have "hits cs p (bindings A) = {e}" unfolding hits_def by blast
  with e(2) show ?thesis by simp
qed

text \<open>
  C5: Resolving a symbolic address. \<open>AddressSpace::resolve\<close> always ends with an answer; every object
  it lists is one the address can point into under some model of the path constraints; and when it
  does not report the list as incomplete (a solver failure, the timeout or the limit on the number of
  resolutions), the list holds all of them, although the search stops early in both directions.
\<close>

theorem resolve_complete:
  assumes "apint_lib X" "\<not> ConstArrayOpt X" "query_ok C S cs A p" "models cs \<noteq> {}"
  shows "\<exists>inc rl. resolve X C S cs A p m timer = Some (inc, rl) \<and> set rl \<subseteq> hits cs p (bindings A) \<and>
    (\<not> inc \<longrightarrow> set rl = hits cs p (bindings A))"
proof (cases "\<exists>c. p = ConstantExpr c")
  case True
  then obtain c where c: "p = ConstantExpr c" by blast
  have "layout_ok A" "valid c" "apw c \<le> 64" using assms(3) c by (simp_all add: query_ok_def)
  from resolveOne_exact_aux [OF assms(1) this] obtain r where
    r: "resolveOne X A c = Some r" "\<And>e. r = Some e \<longleftrightarrow> e \<in> set (bindings A) \<and> covers (fst e) (word_of_int (apv c))" by blast
  have "may_hit cs p e \<longleftrightarrow> covers (fst e) (word_of_int (apv c))" for e
    using assms(4) c by (auto simp: may_hit_def addr_of_def)
  with r(2) have "e \<in> hits cs p (bindings A) \<longleftrightarrow> r = Some e" for e by (simp add: hits_def)
  then have "(case r of None \<Rightarrow> {} | Some e \<Rightarrow> {e}) = hits cs p (bindings A)" by (cases r) auto
  moreover have "resolve X C S cs A p m timer = Some (False, case r of None \<Rightarrow> [] | Some e \<Rightarrow> [e])"
    using c r(1) by (simp add: resolve_def)
  ultimately show ?thesis by (cases r) auto
next
  case nc: False
  note X = apint_defaultI [OF assms(1,2)]
  have q: "layout_ok A" "solver_ok S cs" "wt p" "getWidth p = 64" using assms(3) by (simp_all add: query_ok_def)
  show ?thesis
  proof (cases "s_getValue S cs p")
    case None
    with nc have "resolve X C S cs A p m timer = Some (True, [])" by (simp add: resolve_def case_not_const)
    then show ?thesis by auto
  next
    case (Some cex)
    with q have "valid cex" "apw cex = 64" by (auto simp: solver_ok_def)
    with apint_lib.getZExtValue_valid [OF assms(1)] obtain example where z: "getZExtValue X 64 cex = Some example" by simp
    obtain oi k where oi: "ok_of (imap_upper_bound mo_address (hack example) (objects A)) = Some oi" "it_at A oi k"
      by (rule apint_default.upper_bound_at [OF X q(1)])
    define N where "N = imap_size (objects A) + 1"
    have n: "k < N" "length (bindings A) - k < N" using oi(2) by (auto simp: N_def it_at_def imap_size_def node_size_inorder bindings_def)
    from apint_default.resolve_list_back_spec [OF X assms(3) oi(2) n(1), of m timer 0 "[]"] obtain b where
      b: "resolve_list_back X C S cs p m timer 0 N (imap_begin (objects A)) oi [] = Some b"
        "case b of Inl (inc, rl) \<Rightarrow> set rl \<subseteq> set [] \<union> hits cs p (bindings A) \<and> (\<not> inc \<longrightarrow> sole cs A p rl)
         | Inr (t, rl) \<Rightarrow> set rl = set [] \<union> hits cs p (take k (bindings A))" by blast
    have all: "hits cs p (take k (bindings A)) \<union> hits cs p (drop k (bindings A)) = hits cs p (bindings A)"
      by (simp flip: hits_simps(3))
    have step: "resolve X C S cs A p m timer = (case b of Inl r \<Rightarrow> Some r
        | Inr (t, rl) \<Rightarrow> resolve_list_forward X C S cs p m timer t N oi rl)"
      unfolding resolve_def Let_def N_def [symmetric] using nc Some z oi(1) b(1) by (simp add: case_not_const)
    show ?thesis
    proof (cases b)
      case (Inl r)
      with b(2) step sole_hits [OF q(1)] show ?thesis by (cases r) auto
    next
      case (Inr r)
      then obtain t rl where r: "b = Inr (t, rl)" by (cases r) auto
      with b(2) have rl: "set rl = hits cs p (take k (bindings A))" by simp
      from apint_default.resolve_list_forward_spec [OF X assms(3) oi(2) n(2), of m timer t rl] obtain inc rl' where
        "resolve_list_forward X C S cs p m timer t N oi rl = Some (inc, rl')" "set rl' \<subseteq> set rl \<union> hits cs p (bindings A)"
        "\<not> inc \<longrightarrow> set rl' = set rl \<union> hits cs p (drop k (bindings A)) \<or> sole cs A p rl'" by blast
      with step r rl all sole_hits [OF q(1), of cs p rl'] show ?thesis by auto
    qed
  qed
qed

text \<open>
  C10: \<open>AddressSpace::resolveOne\<close> of a symbolic address always ends; an object it finds is one the
  address can point into, and it answers that there is none only when there is none.
\<close>

theorem resolveOne_sym_correct:
  assumes "apint_lib X" "\<not> ConstArrayOpt X" "query_ok C S cs A p" "models cs \<noteq> {}"
  shows "\<exists>r. resolveOne_sym X C S cs A p = Some r \<and>
    (case r of
       SolverFailed \<Rightarrow> True
     | NotFound \<Rightarrow> hits cs p (bindings A) = {}
     | Found e \<Rightarrow> e \<in> hits cs p (bindings A))"
proof (cases "\<exists>c. p = ConstantExpr c")
  case True
  then obtain c where c: "p = ConstantExpr c" by blast
  have "layout_ok A" "valid c" "apw c \<le> 64" using assms(3) c by (simp_all add: query_ok_def)
  from resolveOne_exact_aux [OF assms(1) this] obtain r where
    r: "resolveOne X A c = Some r" "\<And>e. r = Some e \<longleftrightarrow> e \<in> set (bindings A) \<and> covers (fst e) (word_of_int (apv c))" by blast
  have "may_hit cs p e \<longleftrightarrow> covers (fst e) (word_of_int (apv c))" for e
    using assms(4) c by (auto simp: may_hit_def addr_of_def)
  with r(2) have "e \<in> hits cs p (bindings A) \<longleftrightarrow> r = Some e" for e by (simp add: hits_def)
  with c r(1) show ?thesis by (cases r) (auto simp: resolveOne_sym_def)
next
  case nc: False
  note X = apint_defaultI [OF assms(1,2)]
  have q: "layout_ok A" "solver_ok S cs" "wt p" "getWidth p = 64" using assms(3) by (simp_all add: query_ok_def)
  show ?thesis
  proof (cases "s_getValue S cs p")
    case None
    with nc show ?thesis by (simp add: resolveOne_sym_def case_not_const)
  next
    case (Some cex)
    with q have "valid cex" "apw cex = 64" and ex: "\<exists>\<rho> \<in> models cs. eval \<rho> p = apv cex" by (auto simp: solver_ok_def)
    with apint_lib.getZExtValue_valid [OF assms(1)] have z: "getZExtValue X 64 cex = Some (word_of_int (apv cex))" by simp
    let ?a = "word_of_int (apv cex) :: uint64_t" and ?n = "imap_size (objects A) + 1"
    obtain oi k where oi: "ok_of (imap_upper_bound mo_address (hack ?a) (objects A)) = Some oi" "it_at A oi k"
      by (rule apint_default.upper_bound_at [OF X q(1)])
    have n: "k < ?n" "length (bindings A) - k < ?n" using oi(2) by (auto simp: it_at_def imap_size_def node_size_inorder bindings_def)
    from apint_default.resolve_back_spec [OF X assms(3) oi(2) n(1)] obtain b where
      b: "resolve_back X C S cs p ?n (imap_begin (objects A)) oi = Some b"
        "case b of None \<Rightarrow> hits cs p (take k (bindings A)) = {} | Some SolverFailed \<Rightarrow> True | Some NotFound \<Rightarrow> False
          | Some (Found e) \<Rightarrow> e \<in> hits cs p (bindings A)" by blast
    from apint_default.resolve_forward_spec [OF X assms(3) oi(2) n(2)] obtain f where
      f: "resolve_forward X C S cs p ?n oi = Some f"
        "case f of SolverFailed \<Rightarrow> True | NotFound \<Rightarrow> hits cs p (drop k (bindings A)) = {} | Found e \<Rightarrow> e \<in> hits cs p (bindings A)" by blast
    have all: "hits cs p (take k (bindings A)) \<union> hits cs p (drop k (bindings A)) = hits cs p (bindings A)"
      by (simp flip: hits_simps(3))
    let ?prev = "imap_lookup_previous mo_address (hack ?a) (objects A)"
    define direct where "direct = (case ?prev of None \<Rightarrow> None
      | Some r \<Rightarrow> if unat (?a - mo_address (fst r)) < mo_size (fst r) then Some r else None)"
    have step: "resolveOne_sym X C S cs A p = (case direct of Some r \<Rightarrow> Some (Found r)
        | None \<Rightarrow> (case b of Some r \<Rightarrow> Some r | None \<Rightarrow> Some f))"
      using nc Some z oi(1) b(1) f(1) by (simp add: resolveOne_sym_def case_not_const Let_def direct_def split: option.split)
    have inv: "tree_inv (mo_address \<circ> fst) (objects A)" using q(1) by (simp add: layout_ok_def imap_inv_def)
    have d: "e \<in> hits cs p (bindings A)" if "direct = Some e" for e
    proof -
      from that have e: "?prev = Some e" "unat (?a - mo_address (fst e)) < mo_size (fst e)"
        by (auto simp: direct_def split: option.splits if_splits)
      have "e \<in> set (bindings A)"
        using tree.previous_Some [OF inv] e(1) by (simp add: imap_lookup_previous_def bindings_def)
      moreover have "covers (fst e) ?a" using e(2) by (simp add: covers_def)
      moreover obtain \<rho> where "\<rho> \<in> models cs" "addr_of \<rho> p = ?a" using ex by (auto simp: addr_of_def)
      ultimately show ?thesis unfolding hits_def may_hit_def by (auto intro!: bexI [of _ \<rho>])
    qed
    show ?thesis
    proof (cases direct)
      case (Some e)
      with step d show ?thesis by simp
    next
      case None
      with step b(2) f(2) all show ?thesis by (auto split: option.splits resolution.splits)
    qed
  qed
qed

section \<open>A concrete instance\<close>

text \<open>A space with two objects, and a solver that decides the queries without symbolic reads.\<close>

definition space0 :: address_space where
  "space0 = \<lparr>cowKey = 1, objects = imap_replace mo_address ((hack 64)\<lparr>mo_size := 8\<rparr>, 1)
     (imap_replace mo_address ((hack 16)\<lparr>mo_size := 4\<rparr>, 0) Terminator)\<rparr>"

fun read_free :: "expr \<Rightarrow> bool" where
  "read_free (ConstantExpr c) = True"
| "read_free (NotOptimizedExpr e) = read_free e"
| "read_free (ReadExpr root us i) = False"
| "read_free (SelectExpr c t f) = (read_free c \<and> read_free t \<and> read_free f)"
| "read_free (ConcatExpr l r) = (read_free l \<and> read_free r)"
| "read_free (ExtractExpr e off w) = read_free e"
| "read_free (NotExpr e) = read_free e"
| "read_free (CastExpr k e w) = read_free e"
| "read_free (BinaryExpr k l r) = (read_free l \<and> read_free r)"
| "read_free (CmpExpr k l r) = (read_free l \<and> read_free r)"

definition ground_eval :: "expr \<Rightarrow> int" where
  "ground_eval e = eval (\<lambda>_ _. 0) e"

definition solver0 :: solver_ops where
  "solver0 = \<lparr>s_getValue = (\<lambda>cs e. Some (APInt (getWidth e) (ground_eval e))),
     s_mayBeTrue = (\<lambda>cs e. if read_free e then Some (ground_eval e = 1) else None),
     s_mustBeTrue = (\<lambda>cs e. if read_free e then Some (ground_eval e = 1) else None)\<rparr>"

lemma read_free_eval: "read_free e \<Longrightarrow> eval \<rho> e = ground_eval e"
  unfolding ground_eval_def by (induction e) simp_all

lemma models_Nil [simp]: "models [] = UNIV"
  by (simp add: models_def)

lemma solver0_ok: "solver_ok solver0 []"
proof -
  have "valid (APInt (getWidth e) (ground_eval e))" if "wt e" for e
    using eval_take_bit [OF that refl, of "\<lambda>_ _. 0"] wt_width [OF that] by (simp add: valid_def ground_eval_def)
  then show ?thesis by (auto simp: solver_ok_def solver0_def read_free_eval) (auto simp: ground_eval_def)
qed

lemma space0_bindings: "bindings space0 = [((hack 16)\<lparr>mo_size := 4\<rparr>, 0), ((hack 64)\<lparr>mo_size := 8\<rparr>, 1)]"
  by (simp add: bindings_def space0_def imap_replace_def balance_def new_Node_def)

lemma space0_layout: "layout_ok space0"
proof -
  have "imap_inv mo_address (objects space0)" by (simp add: space0_def)
  then show ?thesis by (simp add: layout_ok_def space0_bindings)
qed

definition pointer0 :: expr where
  "pointer0 = NotOptimizedExpr (ConstantExpr (APInt 64 18))"

lemma query0_ok: "PointerWidth C = 64 \<Longrightarrow> query_ok C solver0 [] space0 pointer0"
  by (simp add: query_ok_def space0_layout solver0_ok pointer0_def valid_def take_bit_eq_mod)

lemma hits0: "hits [] pointer0 (bindings space0) = {((hack 16)\<lparr>mo_size := 4\<rparr>, 0)}"
  by (simp add: space0_bindings may_hit_def addr_of_def pointer0_def covers_def)

theorem resolveOne_exact_witness:
  "resolveOne llvm_env space0 (APInt 64 18) = Some (Some ((hack 16)\<lparr>mo_size := 4\<rparr>, 0))"
proof -
  from resolveOne_exact [OF llvm.apint_lib_axioms space0_layout, of "APInt 64 18"] obtain r where
    "resolveOne llvm_env space0 (APInt 64 18) = Some r"
    "\<forall>e. r = Some e \<longleftrightarrow> e \<in> set (bindings space0) \<and> covers (fst e) (word_of_int (apv (APInt 64 18)))"
    by (auto simp: valid_def take_bit_eq_mod)
  then show ?thesis by (simp add: space0_bindings covers_def)
qed

theorem resolve_complete_witness:
  "\<exists>inc rl. resolve llvm_env \<lparr>IsLittleEndian = True, PointerWidth = 64, UseConstantArrays = True\<rparr> solver0 [] space0 pointer0 0 (\<lambda>_. False)
     = Some (inc, rl) \<and> set rl \<subseteq> {((hack 16)\<lparr>mo_size := 4\<rparr>, 0)} \<and> (\<not> inc \<longrightarrow> set rl = {((hack 16)\<lparr>mo_size := 4\<rparr>, 0)})"
  using resolve_complete [OF llvm.apint_lib_axioms llvm_default.no_const_array_opt query0_ok,
      of "\<lparr>IsLittleEndian = True, PointerWidth = 64, UseConstantArrays = True\<rparr>" 0 "\<lambda>_. False"]
  unfolding hits0 by simp

theorem resolveOne_sym_correct_witness:
  "\<exists>r. resolveOne_sym llvm_env \<lparr>IsLittleEndian = True, PointerWidth = 64, UseConstantArrays = True\<rparr> solver0 [] space0 pointer0
     = Some r \<and> r \<noteq> NotFound"
proof -
  from resolveOne_sym_correct [OF llvm.apint_lib_axioms llvm_default.no_const_array_opt query0_ok,
      of "\<lparr>IsLittleEndian = True, PointerWidth = 64, UseConstantArrays = True\<rparr>"]
  obtain r where r: "resolveOne_sym llvm_env \<lparr>IsLittleEndian = True, PointerWidth = 64, UseConstantArrays = True\<rparr> solver0 [] space0 pointer0 = Some r"
    "case r of SolverFailed \<Rightarrow> True | NotFound \<Rightarrow> hits [] pointer0 (bindings space0) = {} | Found e \<Rightarrow> e \<in> hits [] pointer0 (bindings space0)"
    by auto
  have "r \<noteq> NotFound" using r(2) unfolding hits0 by auto
  with r(1) show ?thesis by blast
qed

end
