(* ===== verification/CopyOnWrite.thy ===== *)
theory CopyOnWrite
  imports AddressSpace
begin

text \<open>
  Forked states share object states until one of them writes. \<open>cow_step\<close> runs the operations of
  \<open>lib/Core/AddressSpace.cpp\<close> on a family of address spaces over one heap; \<open>spec_step\<close> is the
  same operation on a family of independent maps from addresses to contents. The copy-on-write keys
  make the first implement the second.
\<close>

section \<open>Operations on a family of address spaces\<close>

type_synonym cow_state = "os_heap \<times> address_space list"

datatype cow_op =
    Bind nat memory_object object_state
  | Unbind nat memory_object
  | Fork nat
  | Write nat memory_object "object_state \<Rightarrow> object_state"

definition contents :: "object_state \<Rightarrow> object_state" where
  "contents os = os\<lparr>copyOnWriteOwner := 0\<rparr>"

text \<open>
  A write looks the object up, asks for a writeable object state and updates it in place; the
  owner is no part of what a write may change.
\<close>

fun cow_step :: "cow_op \<Rightarrow> cow_state \<Rightarrow> cow_state option" where
  "cow_step (Bind i mo os) (H, As) =
     (if i < length As then
        (let (p, H1) = heap_new H (contents os) in do {
           (H2, A) \<leftarrow> bindObject H1 (As ! i) mo p;
           Some (H2, As[i := A]) })
      else None)"
| "cow_step (Unbind i mo) (H, As) =
     (if i < length As then Some (H, As[i := unbindObject (As ! i) mo]) else None)"
| "cow_step (Fork i) (H, As) =
     (if i < length As then
        (let (b, c) = copy_AddressSpace (As ! i) in Some (H, As[i := b] @ [c]))
      else None)"
| "cow_step (Write i mo f) (H, As) =
     (if i < length As then do {
        p \<leftarrow> findObject (As ! i) mo;
        (q, H', A) \<leftarrow> getWriteable H (As ! i) mo p;
        wos \<leftarrow> oh_map H' q;
        Some (heap_set H' q ((f (contents wos))\<lparr>copyOnWriteOwner := copyOnWriteOwner wos\<rparr>), As[i := A]) }
      else None)"

fun cow_run :: "cow_op list \<Rightarrow> cow_state \<Rightarrow> cow_state option" where
  "cow_run [] s = Some s"
| "cow_run (c # cs) s = do { s' \<leftarrow> cow_step c s; cow_run cs s' }"

definition cow_init :: cow_state where
  "cow_init = (\<lparr>oh_map = Map.empty, oh_next = 0\<rparr>, [new_AddressSpace])"

section \<open>Independent memories\<close>

type_synonym memory = "uint64_t \<rightharpoonup> object_state"

fun spec_step :: "cow_op \<Rightarrow> memory list \<Rightarrow> memory list option" where
  "spec_step (Bind i mo os) Ms =
     (if i < length Ms then Some (Ms[i := (Ms ! i)(mo_address mo \<mapsto> contents os)]) else None)"
| "spec_step (Unbind i mo) Ms =
     (if i < length Ms then Some (Ms[i := (Ms ! i)(mo_address mo := None)]) else None)"
| "spec_step (Fork i) Ms = (if i < length Ms then Some (Ms @ [Ms ! i]) else None)"
| "spec_step (Write i mo f) Ms =
     (if i < length Ms then
        (case (Ms ! i) (mo_address mo) of
           None \<Rightarrow> None
         | Some os \<Rightarrow> if readOnly os then None else Some (Ms[i := (Ms ! i)(mo_address mo \<mapsto> contents (f os))]))
      else None)"

fun spec_run :: "cow_op list \<Rightarrow> memory list \<Rightarrow> memory list option" where
  "spec_run [] Ms = Some Ms"
| "spec_run (c # cs) Ms = do { Ms' \<leftarrow> spec_step c Ms; spec_run cs Ms' }"

section \<open>The abstraction\<close>

definition view :: "address_space \<Rightarrow> uint64_t \<Rightarrow> nat option" where
  "view A a = map_option snd (imap_lookup mo_address (hack a) (objects A))"

definition memory_of :: "os_heap \<Rightarrow> address_space \<Rightarrow> memory" where
  "memory_of H A a = (case view A a of None \<Rightarrow> None | Some p \<Rightarrow> map_option contents (oh_map H p))"

definition abs_cow :: "cow_state \<Rightarrow> memory list" where
  "abs_cow s = map (memory_of (fst s)) (snd s)"

text \<open>
  The invariant: every bound pointer is allocated and owned by a key that is not ahead of the
  space's, no space binds a pointer twice, and a pointer two spaces share is owned by neither.
\<close>

definition space_ok :: "os_heap \<Rightarrow> address_space \<Rightarrow> bool" where
  "space_ok H A \<longleftrightarrow> imap_inv mo_address (objects A) \<and> 1 \<le> cowKey A \<and> inj_on (view A) (dom (view A)) \<and>
     (\<forall>a p. view A a = Some p \<longrightarrow> p < oh_next H \<and>
        (\<exists>os. oh_map H p = Some os \<and> 1 \<le> copyOnWriteOwner os \<and> copyOnWriteOwner os \<le> cowKey A))"

definition shared_ok :: "os_heap \<Rightarrow> address_space \<Rightarrow> address_space \<Rightarrow> bool" where
  "shared_ok H A B \<longleftrightarrow> (\<forall>a b p os. view A a = Some p \<longrightarrow> view B b = Some p \<longrightarrow> oh_map H p = Some os \<longrightarrow>
     copyOnWriteOwner os < cowKey A \<and> copyOnWriteOwner os < cowKey B)"

definition cow_inv :: "cow_state \<Rightarrow> bool" where
  "cow_inv s \<longleftrightarrow> (\<forall>i < length (snd s). space_ok (fst s) (snd s ! i)) \<and>
     (\<forall>i < length (snd s). \<forall>j < length (snd s). i \<noteq> j \<longrightarrow> shared_ok (fst s) (snd s ! i) (snd s ! j))"

lemma findObject_view: "findObject A mo = view A (mo_address mo)"
  by (simp add: findObject_def view_def imap_lookup_def)

lemma view_replace:
  "imap_inv mo_address (objects A) \<Longrightarrow>
   view (A\<lparr>objects := imap_replace mo_address (mo, q) (objects A)\<rparr>) = (view A)(mo_address mo \<mapsto> q)"
  by (rule ext) (simp add: view_def imap_lookup_replace)

lemma view_unbind:
  "imap_inv mo_address (objects A) \<Longrightarrow> view (unbindObject A mo) = (view A)(mo_address mo := None)"
  by (rule ext) (simp add: view_def unbindObject_def imap_lookup_remove)

lemma view_objects: "objects A = objects B \<Longrightarrow> view A = view B"
  by (rule ext) (simp add: view_def)

lemma contents_simps [simp]: "contents (contents os) = contents os" "copyOnWriteOwner (contents os) = 0"
  "contents (os\<lparr>copyOnWriteOwner := k\<rparr>) = contents os" "readOnly (contents os) = readOnly os"
  by (simp_all add: contents_def)

section \<open>Each operation implements its specification\<close>

definition simulates :: "cow_op \<Rightarrow> cow_state \<Rightarrow> bool" where
  "simulates c s \<longleftrightarrow> (case cow_step c s of
       None \<Rightarrow> spec_step c (abs_cow s) = None
     | Some s' \<Rightarrow> spec_step c (abs_cow s) = Some (abs_cow s') \<and> cow_inv s')"

text \<open>A fresh pointer owned by the space it is installed in.\<close>

lemma install_fresh:
  assumes inv: "cow_inv (H, As)" and i: "i < length As" and q: "q = oh_next H"
    and H': "H' = H\<lparr>oh_map := (oh_map H)(q \<mapsto> os), oh_next := q + 1\<rparr>" and os: "copyOnWriteOwner os = cowKey (As ! i)"
    and A: "imap_inv mo_address (objects A)" "cowKey A = cowKey (As ! i)" "view A = (view (As ! i))(a \<mapsto> q)"
  shows "cow_inv (H', As[i := A])" "abs_cow (H', As[i := A]) = (abs_cow (H, As))[i := (memory_of H (As ! i))(a \<mapsto> contents os)]"
proof -
  have old: "space_ok H (As ! j)" if "j < length As" for j using inv that by (simp add: cow_inv_def)
  have lt: "p < q" if "j < length As" "view (As ! j) b = Some p" for j b p
    using old [OF that(1)] that(2) by (simp add: space_ok_def q)
  have nq: "view (As ! j) b \<noteq> Some q" if "j < length As" for j b using lt [OF that, of b q] by blast
  have m: "oh_map H' p = oh_map H p" if "p < q" for p using that by (simp add: H')
  have "memory_of H' (As ! j) = memory_of H (As ! j)" if "j < length As" for j
    using lt [OF that] m by (auto simp: memory_of_def fun_eq_iff split: option.split)
  moreover have "memory_of H' A = (memory_of H (As ! i))(a \<mapsto> contents os)"
    using lt [OF i] m by (auto simp: memory_of_def fun_eq_iff A(3) H' split: option.split)
  ultimately show "abs_cow (H', As[i := A]) = (abs_cow (H, As))[i := (memory_of H (As ! i))(a \<mapsto> contents os)]"
    using i by (intro nth_equalityI) (auto simp: abs_cow_def nth_list_update)
  have keep: "space_ok H' (As ! j)" if "j < length As" for j
    using old [OF that] lt [OF that] m by (force simp: space_ok_def H' q)
  have new: "space_ok H' A"
  proof -
    have "inj_on (view A) (dom (view A))"
      using old [OF i] nq [OF i] by (auto simp: space_ok_def inj_on_def A(3) dom_def)
    moreover have "1 \<le> cowKey (As ! i)" using old [OF i] by (simp add: space_ok_def)
    ultimately show ?thesis using keep [OF i] A os by (auto simp: space_ok_def H' q)
  qed
  have sh: "shared_ok H' (As ! j) (As ! k)" if "j < length As" "k < length As" "j \<noteq> k" for j k
    using inv that lt [OF that(1)] m by (auto simp: cow_inv_def shared_ok_def)
  have shA: "shared_ok H' A (As ! k)" "shared_ok H' (As ! k) A" if "k < length As" "i \<noteq> k" for k
    using sh [OF i that] sh [OF that(1) i] that(2) nq [OF that(1)] A by (auto simp: shared_ok_def split: if_splits)
  show "cow_inv (H', As[i := A])"
    using keep new sh shA i by (auto simp: cow_inv_def nth_list_update)
qed

lemma length_abs [simp]: "length (abs_cow (H, As)) = length As"
  by (simp add: abs_cow_def)

lemma abs_nth: "i < length As \<Longrightarrow> abs_cow (H, As) ! i = memory_of H (As ! i)"
  by (simp add: abs_cow_def)

lemma Bind_simulates:
  assumes "cow_inv (H, As)"
  shows "simulates (Bind i mo os) (H, As)"
proof (cases "i < length As")
  case True
  define q where "q = oh_next H"
  define os' where "os' = (contents os)\<lparr>copyOnWriteOwner := cowKey (As ! i)\<rparr>"
  define H' where "H' = H\<lparr>oh_map := (oh_map H)(q \<mapsto> os'), oh_next := q + 1\<rparr>"
  define A where "A = (As ! i)\<lparr>objects := imap_replace mo_address (mo, q) (objects (As ! i))\<rparr>"
  have ok: "imap_inv mo_address (objects (As ! i))" using assms True by (simp add: cow_inv_def space_ok_def)
  have step: "cow_step (Bind i mo os) (H, As) = Some (H', As[i := A])"
    using True by (simp add: heap_new_def bindObject_def heap_set_def A_def H'_def os'_def q_def)
  have A: "imap_inv mo_address (objects A)" "cowKey A = cowKey (As ! i)" "view A = (view (As ! i))(mo_address mo \<mapsto> q)"
    using ok by (simp_all add: A_def view_replace)
  have o: "copyOnWriteOwner os' = cowKey (As ! i)" "contents os' = contents os" by (simp_all add: os'_def)
  from install_fresh [OF assms True q_def H'_def o(1) A] step True show ?thesis
    by (simp add: simulates_def abs_nth o(2))
qed (simp add: simulates_def)

text \<open>Changing one space to bind no more than before, with a key that does not go back.\<close>

lemma shrink_space:
  assumes inv: "cow_inv (H, As)" and i: "i < length As" and A: "imap_inv mo_address (objects A)" "cowKey (As ! i) \<le> cowKey A"
    "view A \<subseteq>\<^sub>m view (As ! i)"
  shows "cow_inv (H, As[i := A])"
proof -
  have v: "view (As ! i) a = Some p" if "view A a = Some p" for a p using A(3) that by (force simp: map_le_def)
  have old: "space_ok H (As ! i)" using inv i by (simp add: cow_inv_def)
  have "inj_on (view A) (dom (view A))"
    using old v by (auto simp: space_ok_def inj_on_def dom_def)
  then have "space_ok H A" using old v A(1,2) by (force simp: space_ok_def)
  moreover have "shared_ok H A (As ! k) \<and> shared_ok H (As ! k) A" if "k < length As" "i \<noteq> k" for k
  proof -
    have "shared_ok H (As ! i) (As ! k)" using inv i that by (simp add: cow_inv_def)
    then show ?thesis using v A(2) by (fastforce simp: shared_ok_def)
  qed
  ultimately show ?thesis using inv i by (auto simp: cow_inv_def nth_list_update)
qed

lemma Unbind_simulates:
  assumes "cow_inv (H, As)"
  shows "simulates (Unbind i mo) (H, As)"
proof (cases "i < length As")
  case True
  let ?A = "unbindObject (As ! i) mo"
  have ok: "imap_inv mo_address (objects (As ! i))" using assms True by (simp add: cow_inv_def space_ok_def)
  have v: "view ?A = (view (As ! i))(mo_address mo := None)" by (rule view_unbind [OF ok])
  have "view ?A \<subseteq>\<^sub>m view (As ! i)" by (simp add: v map_le_def)
  moreover have "imap_inv mo_address (objects ?A)" "cowKey ?A = cowKey (As ! i)" using ok by (simp_all add: unbindObject_def)
  ultimately have "cow_inv (H, As[i := ?A])" by (intro shrink_space [OF assms True]) simp_all
  moreover have "memory_of H ?A = (memory_of H (As ! i))(mo_address mo := None)"
    by (rule ext) (simp add: memory_of_def v)
  ultimately show ?thesis using True by (simp add: simulates_def abs_cow_def map_update)
qed (simp add: simulates_def)

lemma view_cowKey [simp]: "view (A\<lparr>cowKey := k\<rparr>) = view A"
  by (rule view_objects) simp

lemma memory_of_cowKey [simp]: "memory_of H (A\<lparr>cowKey := k\<rparr>) = memory_of H A"
  by (rule ext) (simp add: memory_of_def)

lemma Fork_simulates:
  assumes "cow_inv (H, As)"
  shows "simulates (Fork i) (H, As)"
proof (cases "i < length As")
  case True
  let ?b = "(As ! i)\<lparr>cowKey := cowKey (As ! i) + 1\<rparr>"
  let ?Bs = "As[i := ?b]"
  have old: "space_ok H (As ! i)" using assms True by (simp add: cow_inv_def)
  have v: "view ?b = view (As ! i)" by (rule view_objects) simp
  have inv: "cow_inv (H, ?Bs)"
    by (rule shrink_space [OF assms True]) (use old in \<open>simp_all only: v, simp_all add: space_ok_def\<close>)
  have step: "cow_step (Fork i) (H, As) = Some (H, ?Bs @ [?b])"
    using True by (simp add: copy_AddressSpace_def Let_def)
  have b: "space_ok H ?b" using inv True by (auto simp: cow_inv_def)
  have self: "shared_ok H ?b ?b" using old by (fastforce simp: shared_ok_def space_ok_def less_Suc_eq_le)
  have other: "shared_ok H (?Bs ! k) ?b \<and> shared_ok H ?b (?Bs ! k)" if "k < length As" for k
  proof (cases "k = i")
    case False
    then have "shared_ok H (?Bs ! k) (?Bs ! i)" "shared_ok H (?Bs ! i) (?Bs ! k)" using inv True that
      unfolding cow_inv_def fst_conv snd_conv length_list_update by blast+
    with True show ?thesis by simp
  qed (use self True in simp)
  have "cow_inv (H, ?Bs @ [?b])"
    using inv b other by (auto simp: cow_inv_def nth_append less_Suc_eq)
  moreover have "abs_cow (H, ?Bs @ [?b]) = abs_cow (H, As) @ [memory_of H (As ! i)]"
    using True by (simp add: abs_cow_def map_update list_update_same_conv)
  ultimately show ?thesis unfolding simulates_def step using True by (simp add: abs_nth)
qed (simp add: simulates_def)

text \<open>An object state the space owns is reached from nowhere else, so it can be written in place.\<close>

lemma write_in_place:
  assumes inv: "cow_inv (H, As)" and i: "i < length As" and p: "view (As ! i) a = Some p" "oh_map H p = Some os"
    and own: "copyOnWriteOwner os = cowKey (As ! i)" and n: "copyOnWriteOwner n = copyOnWriteOwner os"
  shows "cow_inv (heap_set H p n, As)" "abs_cow (heap_set H p n, As) = (abs_cow (H, As))[i := (memory_of H (As ! i))(a \<mapsto> contents n)]"
proof -
  let ?H = "heap_set H p n"
  have only: "j = i \<and> b = a" if "j < length As" "view (As ! j) b = Some p" for j b
  proof (cases "j = i")
    case True
    with inv i p(1) that show ?thesis by (auto simp: cow_inv_def space_ok_def inj_on_def dom_def)
  next
    case False
    then have "shared_ok H (As ! i) (As ! j)" using inv i that(1) by (simp add: cow_inv_def)
    with p that(2) own show ?thesis by (fastforce simp: shared_ok_def)
  qed
  have m: "oh_map ?H r = (if r = p then Some n else oh_map H r)" "oh_next ?H = oh_next H" for r by (simp_all add: heap_set_def)
  have "(\<exists>o'. oh_map ?H r = Some o' \<and> 1 \<le> copyOnWriteOwner o' \<and> copyOnWriteOwner o' \<le> k) =
      (\<exists>o'. oh_map H r = Some o' \<and> 1 \<le> copyOnWriteOwner o' \<and> copyOnWriteOwner o' \<le> k)" for r k
    using p(2) n by (simp add: m)
  then have "space_ok ?H A = space_ok H A" for A unfolding space_ok_def m(2) by simp
  moreover have "shared_ok ?H A B = shared_ok H A B" for A B
  proof -
    have o: "map_option copyOnWriteOwner (oh_map ?H r) = map_option copyOnWriteOwner (oh_map H r)" for r using p(2) n by (simp add: m)
    have e: "shared_ok K A B \<longleftrightarrow> (\<forall>a b r k. view A a = Some r \<longrightarrow> view B b = Some r \<longrightarrow>
        map_option copyOnWriteOwner (oh_map K r) = Some k \<longrightarrow> k < cowKey A \<and> k < cowKey B)" for K
      unfolding shared_ok_def by (intro iff_allI) (auto simp: map_option_case split: option.splits)
    show ?thesis unfolding e o ..
  qed
  ultimately show "cow_inv (?H, As)" using inv by (simp add: cow_inv_def)
  have "memory_of ?H (As ! j) = (if j = i then (memory_of H (As ! i))(a \<mapsto> contents n) else memory_of H (As ! j))" if "j < length As" for j
  proof
    fix b
    have "view (As ! j) b = Some p \<longleftrightarrow> j = i \<and> b = a" using only [OF that] p(1) by blast
    then show "memory_of ?H (As ! j) b = (if j = i then (memory_of H (As ! i))(a \<mapsto> contents n) else memory_of H (As ! j)) b"
      by (cases "view (As ! j) b") (auto simp: memory_of_def m)
  qed
  then show "abs_cow (?H, As) = (abs_cow (H, As))[i := (memory_of H (As ! i))(a \<mapsto> contents n)]"
    using i by (intro nth_equalityI) (auto simp: abs_cow_def nth_list_update)
qed

lemma Write_simulates:
  assumes inv: "cow_inv (H, As)"
  shows "simulates (Write i mo f) (H, As)"
proof (cases "i < length As \<and> view (As ! i) (mo_address mo) \<noteq> None")
  case False
  then show ?thesis by (auto simp: simulates_def findObject_view abs_nth memory_of_def)
next
  case True
  then obtain p where i: "i < length As" and p: "view (As ! i) (mo_address mo) = Some p" by blast
  have ok: "space_ok H (As ! i)" using inv i by (simp add: cow_inv_def)
  then obtain os where os: "oh_map H p = Some os" using p by (auto simp: space_ok_def)
  have spec: "spec_step (Write i mo f) (abs_cow (H, As)) = (if readOnly os then None
      else Some ((abs_cow (H, As))[i := (memory_of H (As ! i))(mo_address mo \<mapsto> contents (f (contents os)))]))"
    using i p os by (simp add: abs_nth memory_of_def)
  consider "readOnly os" | "\<not> readOnly os" "cowKey (As ! i) = copyOnWriteOwner os" | "\<not> readOnly os" "cowKey (As ! i) \<noteq> copyOnWriteOwner os"
    by blast
  then show ?thesis
  proof cases
    case 1
    with spec i p os show ?thesis by (simp add: simulates_def findObject_view getWriteable_def)
  next
    case 2
    define n where "n = (f (contents os))\<lparr>copyOnWriteOwner := copyOnWriteOwner os\<rparr>"
    have "cow_step (Write i mo f) (H, As) = Some (heap_set H p n, As)"
      using 2 i p os by (simp add: findObject_view getWriteable_def n_def)
    moreover have "copyOnWriteOwner n = copyOnWriteOwner os" "contents n = contents (f (contents os))" by (simp_all add: n_def)
    ultimately show ?thesis
      using write_in_place [OF inv i p os 2(2) [symmetric], of n] spec 2(1) by (simp add: simulates_def)
  next
    case 3
    define q where "q = oh_next H"
    define n where "n = (f (contents os))\<lparr>copyOnWriteOwner := cowKey (As ! i)\<rparr>"
    define H' where "H' = H\<lparr>oh_map := (oh_map H)(q \<mapsto> n), oh_next := q + 1\<rparr>"
    define A where "A = (As ! i)\<lparr>objects := imap_replace mo_address (mo, q) (objects (As ! i))\<rparr>"
    have c: "contents (os\<lparr>readOnly := False\<rparr>) = contents os" using 3(1) by (simp add: contents_def)
    have "cow_step (Write i mo f) (H, As) = Some (H', As[i := A])"
      using 3 i p os c by (simp add: findObject_view getWriteable_def copy_ObjectState_def heap_new_def heap_set_def
          H'_def A_def n_def q_def)
    moreover have A: "imap_inv mo_address (objects A)" "cowKey A = cowKey (As ! i)" "view A = (view (As ! i))(mo_address mo \<mapsto> q)"
      using ok by (simp_all add: A_def view_replace space_ok_def)
    moreover have n: "copyOnWriteOwner n = cowKey (As ! i)" "contents n = contents (f (contents os))" by (simp_all add: n_def)
    ultimately show ?thesis
      using install_fresh [OF inv i q_def H'_def n(1) A] spec 3(1) by (simp add: simulates_def)
  qed
qed

lemma cow_step_simulates: "cow_inv s \<Longrightarrow> simulates c s"
  by (cases s; cases c) (simp_all add: Bind_simulates Unbind_simulates Fork_simulates Write_simulates)

lemma cow_run_simulates:
  "cow_inv s \<Longrightarrow> map_option abs_cow (cow_run cs s) = spec_run cs (abs_cow s) \<and> (\<forall>s'. cow_run cs s = Some s' \<longrightarrow> cow_inv s')"
proof (induction cs arbitrary: s)
  case (Cons c cs)
  from cow_step_simulates [OF Cons.prems, of c] Cons.IH show ?case
    by (cases "cow_step c s") (auto simp: simulates_def)
qed simp

lemma cow_init_facts: "cow_inv cow_init" "abs_cow cow_init = [Map.empty]"
proof -
  have "view new_AddressSpace = Map.empty" by (rule ext) (simp add: view_def new_AddressSpace_def imap_lookup_def)
  moreover have "imap_inv mo_address (objects new_AddressSpace)" "cowKey new_AddressSpace = 1" by (simp_all add: new_AddressSpace_def)
  ultimately show "cow_inv cow_init" "abs_cow cow_init = [Map.empty]"
    by (simp_all add: cow_init_def cow_inv_def space_ok_def abs_cow_def) (simp add: memory_of_def fun_eq_iff)
qed



definition object1 :: object_state where
  "object1 = \<lparr>copyOnWriteOwner = 0, os_object = hack 8, concreteStore = [1], concreteMask = None, flushMask = None,
     knownSymbolics = None, upd_root = None, upd_list = [], os_size = 1, readOnly = False\<rparr>"


end
