(* ===== verification/ConcreteCopy.thy ===== *)
theory ConcreteCopy
  imports Resolve CopyOnWrite
begin

text \<open>
  Calls of external code: \<open>AddressSpace::copyOutConcretes\<close> writes the concrete bytes of all objects
  into the memory of the process and \<open>copyInConcretes\<close> reads them back.
\<close>

definition in_range :: "memory_object \<Rightarrow> uint64_t \<Rightarrow> bool" where
  "in_range mo a \<longleftrightarrow> unat (a - mo_address mo) < mo_size mo"

text \<open>The objects that are copied out.\<close>

definition copied :: "os_heap \<Rightarrow> memory_object \<times> nat \<Rightarrow> bool" where
  "copied H e \<longleftrightarrow> \<not> isUserSpecified (fst e) \<and> (\<exists>os. oh_map H (snd e) = Some os \<and> \<not> readOnly os)"

definition store_at :: "os_heap \<Rightarrow> memory_object \<times> nat \<Rightarrow> uint64_t \<Rightarrow> uint8_t" where
  "store_at H e a = concreteStore (the (oh_map H (snd e))) ! unat (a - mo_address (fst e))"

text \<open>Every binding has an object state with as many concrete bytes as the object.\<close>

definition stores_ok :: "os_heap \<Rightarrow> (memory_object \<times> nat) list \<Rightarrow> bool" where
  "stores_ok H es \<longleftrightarrow> (\<forall>e \<in> set es. \<exists>os. oh_map H (snd e) = Some os \<and> length (concreteStore os) = mo_size (fst e))"

lemma copyOut_loop_spec:
  assumes "stores_ok H es" "\<And>e f a. e \<in> set es \<Longrightarrow> f \<in> set es \<Longrightarrow> in_range (fst e) a \<Longrightarrow> in_range (fst f) a \<Longrightarrow> e = f"
  shows "\<exists>mem'. copyOut_loop H es mem = Some mem' \<and>
    (\<forall>a. (\<forall>e \<in> set es. copied H e \<longrightarrow> in_range (fst e) a \<longrightarrow> mem' a = store_at H e a) \<and>
         ((\<nexists>e. e \<in> set es \<and> copied H e \<and> in_range (fst e) a) \<longrightarrow> mem' a = mem a))"
  using assms
proof (induction es arbitrary: mem)
  case (Cons e es)
  obtain mo p where e: "e = (mo, p)" by (cases e)
  from Cons.prems(1) obtain os where os: "oh_map H p = Some os" by (auto simp: stores_ok_def e)
  define mem1 where "mem1 = (if copied H e then memcpy_out mem (mo_address mo) (concreteStore os) (mo_size mo) else mem)"
  have step: "copyOut_loop H (e # es) mem = copyOut_loop H es mem1" by (simp add: e mem1_def copied_def os)
  have m1: "mem1 a = (if copied H e \<and> in_range mo a then store_at H e a else mem a)" for a
    by (simp add: mem1_def memcpy_out_def in_range_def store_at_def e os)
  have "stores_ok H es" using Cons.prems(1) by (simp add: stores_ok_def)
  moreover have "\<And>e f a. e \<in> set es \<Longrightarrow> f \<in> set es \<Longrightarrow> in_range (fst e) a \<Longrightarrow> in_range (fst f) a \<Longrightarrow> e = f"
    using Cons.prems(2) by (meson list.set_intros(2))
  ultimately obtain mem' where m: "copyOut_loop H es mem1 = Some mem'"
    "\<And>a f. f \<in> set es \<Longrightarrow> copied H f \<Longrightarrow> in_range (fst f) a \<Longrightarrow> mem' a = store_at H f a"
    "\<And>a. (\<nexists>f. f \<in> set es \<and> copied H f \<and> in_range (fst f) a) \<Longrightarrow> mem' a = mem1 a"
    using Cons.IH [of mem1] by blast
  have "mem' a = store_at H e a" if "copied H e" "in_range mo a" for a
  proof (cases "\<exists>f. f \<in> set es \<and> copied H f \<and> in_range (fst f) a")
    case True
    then obtain f where f: "f \<in> set es" "copied H f" "in_range (fst f) a" by blast
    with Cons.prems(2) [of e f a] that have "f = e" by (simp add: e)
    with m(2) [OF f] show ?thesis by simp
  next
    case False
    with m(3) [of a] m1 [of a] that show ?thesis by simp
  qed
  moreover have "mem' a = mem a" if "\<nexists>f. f \<in> set (e # es) \<and> copied H f \<and> in_range (fst f) a" for a
  proof -
    from that have "\<nexists>f. f \<in> set es \<and> copied H f \<and> in_range (fst f) a" "\<not> (copied H e \<and> in_range mo a)" by (auto simp: e)
    with m(3) [of a] m1 [of a] show ?thesis by auto
  qed
  ultimately show ?case using step m(1,2) by (simp add: e)
qed simp

lemma mem_bytes_store:
  assumes "mo_size mo < 2 ^ 32" "length bs = mo_size mo"
    and "\<And>a. in_range mo a \<Longrightarrow> mem a = bs ! unat (a - mo_address mo)"
  shows "mem_bytes mem (mo_address mo) (mo_size mo) = bs"
proof (rule nth_equalityI)
  fix i assume "i < length (mem_bytes mem (mo_address mo) (mo_size mo))"
  then have i: "i < mo_size mo" by (simp add: mem_bytes_def)
  have u: "unat (mo_address mo + of_nat i - mo_address mo) = i" using i assms(1) by (simp add: unat_of_nat)
  with assms(3) [of "mo_address mo + of_nat i"] i show "mem_bytes mem (mo_address mo) (mo_size mo) ! i = bs ! i"
    by (simp add: mem_bytes_def in_range_def)
qed (simp add: mem_bytes_def assms(2))

lemma copyIn_loop_same:
  assumes "\<forall>e \<in> set es. isUserSpecified (fst e) \<or> (\<exists>os. oh_map H (snd e) = Some os \<and>
      mem_bytes mem (mo_address (fst e)) (mo_size (fst e)) = take (mo_size (fst e)) (concreteStore os))"
  shows "copyIn_loop mem es H A = Some (True, H, A)"
  using assms
proof (induction es)
  case (Cons e es)
  obtain mo p where "e = (mo, p)" by (cases e)
  with Cons show ?case by auto
qed simp

text \<open>
  C12: An external call that changes nothing is invisible. When the process memory agrees with the
  read-only objects, copying all objects out and back in ends with success and leaves the heap and
  the address space as they were; in particular no object is copied for writing.
\<close>

theorem copyOut_copyIn_identity:
  assumes "layout_ok A" "stores_ok H (bindings A)"
    and "\<forall>e \<in> set (bindings A). \<not> copied H e \<longrightarrow> \<not> isUserSpecified (fst e) \<longrightarrow>
      (\<forall>a. in_range (fst e) a \<longrightarrow> mem a = store_at H e a)"
  shows "\<exists>mem'. copyOutConcretes H A mem = Some mem' \<and> copyInConcretes mem' H A = Some (True, H, A)"
proof -
  have range: "covers (fst e) a" if "in_range (fst e) a" for e :: "memory_object \<times> nat" and a
    using that by (simp add: in_range_def covers_def)
  have dis: "e = f" if "e \<in> set (bindings A)" "f \<in> set (bindings A)" "in_range (fst e) a" "in_range (fst f) a" for e f a
    using covers_disjoint [OF assms(1) that(1,2)] range [OF that(3)] range [OF that(4)] by blast
  have "\<exists>mem'. copyOut_loop H (bindings A) mem = Some mem' \<and>
    (\<forall>a. (\<forall>e \<in> set (bindings A). copied H e \<longrightarrow> in_range (fst e) a \<longrightarrow> mem' a = store_at H e a) \<and>
         ((\<nexists>e. e \<in> set (bindings A) \<and> copied H e \<and> in_range (fst e) a) \<longrightarrow> mem' a = mem a))"
    by (rule copyOut_loop_spec [OF assms(2)]) (rule dis)
  then obtain mem' where
    m: "copyOut_loop H (bindings A) mem = Some mem'"
      "\<And>a e. e \<in> set (bindings A) \<Longrightarrow> copied H e \<Longrightarrow> in_range (fst e) a \<Longrightarrow> mem' a = store_at H e a"
      "\<And>a. (\<nexists>e. e \<in> set (bindings A) \<and> copied H e \<and> in_range (fst e) a) \<Longrightarrow> mem' a = mem a" by blast
  have val: "mem' a = store_at H e a" if e: "e \<in> set (bindings A)" "\<not> isUserSpecified (fst e)" "in_range (fst e) a" for e a
  proof (cases "copied H e")
    case True
    with m(2) e show ?thesis by blast
  next
    case False
    then have "\<nexists>f. f \<in> set (bindings A) \<and> copied H f \<and> in_range (fst f) a" using dis [OF e(1) _ e(3)] by blast
    with m(3) [of a] assms(3) e False show ?thesis by simp
  qed
  have "copyIn_loop mem' (bindings A) H A = Some (True, H, A)"
  proof (rule copyIn_loop_same, intro ballI)
    fix e assume e: "e \<in> set (bindings A)"
    then obtain os where os: "oh_map H (snd e) = Some os" "length (concreteStore os) = mo_size (fst e)"
      using assms(2) by (auto simp: stores_ok_def)
    have "mo_size (fst e) < 2 ^ 32" using assms(1) e by (simp add: layout_ok_def)
    with val [OF e] os mem_bytes_store [of "fst e" "concreteStore os" mem']
    show "isUserSpecified (fst e) \<or> (\<exists>os. oh_map H (snd e) = Some os \<and>
      mem_bytes mem' (mo_address (fst e)) (mo_size (fst e)) = take (mo_size (fst e)) (concreteStore os))"
      by (auto simp: store_at_def)
  qed
  with m(1) show ?thesis by (auto simp: copyOutConcretes_def copyInConcretes_def bindings_def)
qed

definition heap0 :: os_heap where
  "heap0 = \<lparr>oh_map = [0 \<mapsto> object1\<lparr>concreteStore := [1, 2, 3, 4]\<rparr>, 1 \<mapsto> object1\<lparr>concreteStore := replicate 8 7\<rparr>], oh_next = 2\<rparr>"

theorem copyOut_copyIn_identity_witness:
  "\<exists>mem'. copyOutConcretes heap0 space0 (\<lambda>_. 0) = Some mem' \<and> copyInConcretes mem' heap0 space0 = Some (True, heap0, space0)"
  by (rule copyOut_copyIn_identity [OF space0_layout])
    (simp_all add: stores_ok_def copied_def space0_bindings heap0_def object1_def hack_def)

end
