(* ===== verification/Checker.thy ===== *)
theory Checker
  imports AddressSpace ExprCompare
begin

text \<open>
  The base of all checkers: \<open>include/klee/Checker.h\<close>, \<open>lib/Core/Checker.cpp\<close>, and the
  allocation records of \<open>BasicCheckers\<close> (\<open>ThreadInfo\<close>, \<open>AllocInfo\<close>).

  A handler is a function from the checker's state to a result mask and the new state, or to a
  fault. The executor is a parameter, a record of what the checkers ask it: the called function
  of a call site, the value of an operand, the solver, and the reads of host memory that the
  handlers of external calls make (\<open>(char*)args[2]\<close>, \<open>rfp->_fileno\<close>). \<open>args\<close> is \<open>None\<close> for
  \<open>NULL\<close>; otherwise slot 0 holds the return value and slot \<open>2 + i\<close> the argument \<open>i\<close>.
  Messages on \<open>stderr\<close> are not modelled. Reads of simulated memory only fill caches of the object
  state and leave its bytes as they are, so they are not returned as state changes.
\<close>

section \<open>Instructions, threads and states\<close>

record kinst =
  ki_id :: nat
  ki_line :: nat
  ki_assemblyLine :: nat
  ki_file :: string
  ki_block :: string
  ki_function :: string

record stack_frame =
  sf_caller :: "kinst option"
  sf_function :: string
  sf_args :: "(string \<times> expr) list"

record thread_state =
  thr_stack :: "stack_frame list"
  thr_id :: nat
  thr_pc :: kinst
  thr_prevPC :: kinst

record exec_state =
  es_addressSpace :: address_space
  es_heap :: os_heap
  es_arrays :: nat
  es_constraints :: "expr list"
  es_lastThread :: "thread_state option"

record executor =
  ex_env :: expr_env
  ex_context :: klee_context
  ex_solver :: solver_ops
  ex_getTargetFunction :: "exec_state \<Rightarrow> kinst \<Rightarrow> string option"
  ex_eval :: "thread_state \<Rightarrow> kinst \<Rightarrow> nat \<Rightarrow> expr"
  ex_cstring :: "uint64_t \<Rightarrow> string"
  ex_fileno :: "uint64_t \<Rightarrow> int"
  ex_printExpr :: "expr \<Rightarrow> string"

section \<open>Results\<close>

type_synonym Result = uint64_t

definition OK :: Result where "OK = 0x0"
definition ERROR :: Result where "ERROR = 0x1"
definition IMPORTANT :: Result where "IMPORTANT = 0x2"
definition NEED_RET :: Result where "NEED_RET = 0x4"
definition NEED_ARG0 :: Result where "NEED_ARG0 = 0x8"
definition NEED_ARG1 :: Result where "NEED_ARG1 = 0x10"
definition NEED_ARG2 :: Result where "NEED_ARG2 = 0x20"
definition NEED_ARG3 :: Result where "NEED_ARG3 = 0x40"
definition NEED_ARG4 :: Result where "NEED_ARG4 = 0x80"
definition NEED_OTHER_ARGS :: Result where
  "NEED_OTHER_ARGS = 0xFFFFFFFFFFFFFFFF - (push_bit 8 1 - 1)"
definition NEED_ALL_ARGS :: Result where
  "NEED_ALL_ARGS = 0xFFFFFFFFFFFFFFFF - ERROR - IMPORTANT"

definition NEED_ARG_BEGIN :: nat where "NEED_ARG_BEGIN = 3"
definition NEED_ARG_END :: nat where "NEED_ARG_END = 62"

definition is_error :: "Result \<Rightarrow> bool" where
  "is_error r = (r AND ERROR \<noteq> 0)"

definition is_important :: "Result \<Rightarrow> bool" where
  "is_important r = (r AND IMPORTANT \<noteq> 0)"

lemmas result_defs = OK_def ERROR_def IMPORTANT_def NEED_RET_def NEED_ARG0_def NEED_ARG1_def
  NEED_ARG2_def NEED_ARG3_def NEED_ARG4_def

section \<open>Reading arguments\<close>

definition getIntFromExp :: "executor \<Rightarrow> expr \<Rightarrow> uint64_t result" where
  "getIntFromExp E e =
     (case e of
        ConstantExpr c \<Rightarrow> of_option AssertionFailed (getZExtValue (ex_env E) 64 c)
      | _ \<Rightarrow> Inr (- 1))"

fun read_string :: "executor \<Rightarrow> object_state \<Rightarrow> nat \<Rightarrow> nat list \<Rightarrow> string \<Rightarrow> string result" where
  "read_string E os ctr [] str = Inr str"
| "read_string E os ctr (i # is) str =
     bind_result (of_option AssertionFailed (read (ex_env E) (ex_context E) os ctr i 8)) (\<lambda>(data, os', ctr').
       case data of
         ConstantExpr c \<Rightarrow>
           bind_result (of_option AssertionFailed (getZExtValue (ex_env E) 64 c)) (\<lambda>val.
             if val \<noteq> 0 then read_string E os' ctr' is (str @ [char_of (unat val)])
             else Inr str)
       | _ \<Rightarrow> Inr [])"

definition getStrFromCharPtr :: "executor \<Rightarrow> exec_state \<Rightarrow> expr \<Rightarrow> string result" where
  "getStrFromCharPtr E s charptr =
     bind_result (of_option AssertionFailed
       (resolveOne_sym (ex_env E) (ex_context E) (ex_solver E) (es_constraints s) (es_addressSpace s) charptr))
     (\<lambda>r. case r of
        Found (mo, p) \<Rightarrow>
          bind_result
            (case charptr of
               ConstantExpr c \<Rightarrow>
                 bind_result (of_option AssertionFailed (getZExtValue (ex_env E) 64 c)) (\<lambda>v.
                   Inr (unat (ucast (v - mo_address mo) :: uint32_t)))
             | _ \<Rightarrow>
                 (case s_getValue (ex_solver E) (es_constraints s) charptr of
                    Some c \<Rightarrow>
                      bind_result (of_option AssertionFailed (getZExtValue (ex_env E) 64 c)) (\<lambda>v.
                        Inr (unat (ucast (v - mo_address mo) :: uint32_t)))
                  | None \<Rightarrow> Inr 0))
            (\<lambda>offset.
              bind_result (of_option UseAfterFree (oh_map (es_heap s) p)) (\<lambda>os.
                read_string E os (es_arrays s) [offset..<mo_size mo] []))
      | _ \<Rightarrow> Inr [])"

definition getTargetFunctionFromCaller :: "executor \<Rightarrow> exec_state \<Rightarrow> kinst \<Rightarrow> string option" where
  "getTargetFunctionFromCaller E s caller = ex_getTargetFunction E s caller"

definition getCallingArgument :: "executor \<Rightarrow> thread_state \<Rightarrow> kinst \<Rightarrow> nat \<Rightarrow> expr" where
  "getCallingArgument E thr caller number = ex_eval E thr caller number"

definition getPtrFromPPtr :: "executor \<Rightarrow> exec_state \<Rightarrow> expr \<Rightarrow> uint64_t result" where
  "getPtrFromPPtr E s pptr =
     (case pptr of
        ConstantExpr c \<Rightarrow>
          bind_result (of_option AssertionFailed (resolveOne (ex_env E) (es_addressSpace s) c)) (\<lambda>r.
            case r of
              None \<Rightarrow> Inr (- 1)
            | Some (mo, p) \<Rightarrow>
                bind_result (of_option UseAfterFree (oh_map (es_heap s) p)) (\<lambda>os.
                bind_result (of_option AssertionFailed
                  (read (ex_env E) (ex_context E) os (es_arrays s) 0 (mo_size mo * 8))) (\<lambda>(e, _, _).
                  case e of
                    ConstantExpr d \<Rightarrow> of_option AssertionFailed (getZExtValue (ex_env E) 64 d)
                  | _ \<Rightarrow> Inr (- 1))))
      | _ \<Rightarrow> Inr (- 1))"

text \<open>
  The test the file checkers share: a constant pointer into the object \<open>_stdio_streams\<close> is one
  of the standard streams.
\<close>

definition is_stdio_stream :: "executor \<Rightarrow> exec_state \<Rightarrow> expr \<Rightarrow> bool result" where
  "is_stdio_stream E s e =
     (case e of
        ConstantExpr c \<Rightarrow>
          bind_result (of_option AssertionFailed (resolveOne (ex_env E) (es_addressSpace s) c)) (\<lambda>r.
            Inr (case r of None \<Rightarrow> False | Some (mo, _) \<Rightarrow> mo_name mo = ''_stdio_streams''))
      | _ \<Rightarrow> Inr False)"

section \<open>Allocation records\<close>

record alloc_info =
  ai_inst :: "kinst option"
  ai_threads :: "thread_state list"

definition new_AllocInfo :: "kinst option \<Rightarrow> alloc_info" where
  "new_AllocInfo inst = \<lparr>ai_inst = inst, ai_threads = []\<rparr>"

definition addThread :: "alloc_info \<Rightarrow> thread_state \<Rightarrow> alloc_info" where
  "addThread ai thr = ai\<lparr>ai_threads := ai_threads ai @ [thr]\<rparr>"

definition alloc_here :: "kinst \<Rightarrow> thread_state \<Rightarrow> alloc_info" where
  "alloc_here inst thr = addThread (new_AllocInfo (Some inst)) thr"

definition setw8 :: "string \<Rightarrow> string" where
  "setw8 s = replicate (8 - length s) (CHR '' '') @ s"

text \<open>One argument of a frame, preceded by a comma unless it is the first.\<close>

definition show_arg :: "executor \<Rightarrow> string \<times> expr \<Rightarrow> string" where
  "show_arg E a = fst a @ (if is_constant (snd a) then ''='' @ ex_printExpr E (snd a) else [])"

fun show_args :: "executor \<Rightarrow> (string \<times> expr) list \<Rightarrow> string" where
  "show_args E [] = []"
| "show_args E [a] = show_arg E a"
| "show_args E (a # as) = show_arg E a @ '', '' @ show_args E as"

text \<open>The frames from the innermost on; the list is the stack reversed, \<open>target\<close> the local variable.\<close>

fun callStack_loop :: "executor \<Rightarrow> bool \<Rightarrow> kinst option \<Rightarrow> stack_frame list \<Rightarrow> string result" where
  "callStack_loop E need_args target [] = Inr []"
| "callStack_loop E need_args target (sf # sfs) =
     bind_result (of_option NullDereference target) (\<lambda>t.
     bind_result (callStack_loop E need_args (sf_caller sf) sfs) (\<lambda>rest.
       Inr ([CHR 0x09, CHR ''#''] @ utostr (length sfs) @ ''. '' @ setw8 (utostr (ki_assemblyLine t)) @
            '' in '' @ sf_function sf @ '' + '' @ ki_block t @ '' ('' @
            (if need_args then show_args E (sf_args sf) else []) @ '')'' @
            (if ki_file t \<noteq> [] then '' at '' @ ki_file t @ '':'' @ utostr (ki_line t) else []) @
            [CHR 0x0A] @ rest)))"

definition callStack :: "executor \<Rightarrow> thread_state \<Rightarrow> bool \<Rightarrow> string result" where
  "callStack E thr need_args =
     bind_result (callStack_loop E need_args (Some (thr_prevPC thr)) (rev (thr_stack thr))) (\<lambda>frames.
       Inr (''Thread '' @ utostr (thr_id thr) @ '':'' @ [CHR 0x0A] @ frames))"

fun callStacks :: "executor \<Rightarrow> bool \<Rightarrow> thread_state list \<Rightarrow> string result" where
  "callStacks E need_args [] = Inr []"
| "callStacks E need_args (thr # thrs) =
     bind_result (callStack E thr need_args) (\<lambda>s.
     bind_result (callStacks E need_args thrs) (\<lambda>rest. Inr (s @ rest)))"

definition toString :: "executor \<Rightarrow> alloc_info \<Rightarrow> bool \<Rightarrow> string result" where
  "toString E ai need_args =
     bind_result (of_option NullDereference (ai_inst ai)) (\<lambda>inst.
     bind_result (callStacks E need_args (ai_threads ai)) (\<lambda>stacks.
       Inr (ki_file inst @ '':'' @ utostr (ki_line inst) @ '' (assembly '' @ utostr (ki_assemblyLine inst) @
            '') BasicBlock: '' @ ki_block inst @ '' Function: '' @ ki_function inst @ [CHR 0x0A] @ stacks)))"

text \<open>\<open>char\<close> is signed: a byte above 127 is sign-extended before it is added.\<close>

fun hash_loop :: "uint64_t \<Rightarrow> string \<Rightarrow> uint64_t" where
  "hash_loop h [] = h"
| "hash_loop h (c # cs) =
     (if c = CHR 0x00 then h else hash_loop (h * 131 + scast (of_char c :: uint8_t)) cs)"

definition hash :: "string \<Rightarrow> uint64_t" where
  "hash str = hash_loop 0 str"

text \<open>The multimap of past reports is the list of its pairs.\<close>

type_synonym reports = "(uint64_t \<times> string) list"

definition isReported :: "reports \<Rightarrow> string \<Rightarrow> uint64_t \<Rightarrow> string \<Rightarrow> bool \<times> reports" where
  "isReported record place_info place_hash case_info =
     (let case_hash = place_hash + hash case_info;
          global_info = place_info @ case_info
      in if list_ex (\<lambda>(h, info). h = case_hash \<and> info = global_info) record then (True, record)
         else (False, record @ [(case_hash, global_info)]))"

definition gatherPlaceInfo :: "executor \<Rightarrow> exec_state option \<Rightarrow> (string \<times> uint64_t) result" where
  "gatherPlaceInfo E s =
     bind_result
       (case s of
          None \<Rightarrow> Inr []
        | Some st \<Rightarrow>
            (case es_lastThread st of None \<Rightarrow> Inr [] | Some thr \<Rightarrow> callStack E thr False))
       (\<lambda>place_info. Inr (place_info, hash place_info))"

text \<open>
  The loop all reports share: for each resource still held, unless its place was reported
  before, set the error flag.
\<close>

fun report_loop :: "executor \<Rightarrow> string \<Rightarrow> uint64_t \<Rightarrow> alloc_info option list \<Rightarrow> reports \<Rightarrow> bool \<Rightarrow>
    (bool \<times> reports) result" where
  "report_loop E place_info place_hash [] reported error = Inr (error, reported)"
| "report_loop E place_info place_hash (ai # ais) reported error =
     bind_result (of_option NullDereference ai) (\<lambda>a.
     bind_result (toString E a False) (\<lambda>case_info.
       (let (seen, reported') = isReported reported place_info place_hash case_info in
        report_loop E place_info place_hash ais reported' (if seen then error else True))))"

definition report_result :: "bool \<Rightarrow> Result" where
  "report_result error = (if error then ERROR else OK)"

section \<open>Well-formed stacks\<close>

text \<open>Every frame but the outermost, which is at index 0, knows the instruction that called it.\<close>

definition thread_ok :: "thread_state \<Rightarrow> bool" where
  "thread_ok thr \<longleftrightarrow> (\<forall>sf \<in> set (tl (thr_stack thr)). sf_caller sf \<noteq> None)"

definition alloc_ok :: "alloc_info \<Rightarrow> bool" where
  "alloc_ok ai \<longleftrightarrow> ai_inst ai \<noteq> None \<and> (\<forall>thr \<in> set (ai_threads ai). thread_ok thr)"

definition state_ok :: "exec_state option \<Rightarrow> bool" where
  "state_ok s \<longleftrightarrow> (\<forall>st thr. s = Some st \<longrightarrow> es_lastThread st = Some thr \<longrightarrow> thread_ok thr)"

text \<open>What a report shows of an allocation, and of the end of the path.\<close>

definition alloc_string :: "executor \<Rightarrow> alloc_info \<Rightarrow> string" where
  "alloc_string E ai = (case toString E ai False of Inr s \<Rightarrow> s | Inl _ \<Rightarrow> [])"

definition report_key :: "string \<Rightarrow> string \<Rightarrow> uint64_t \<times> string" where
  "report_key place_info case_info = (hash place_info + hash case_info, place_info @ case_info)"

lemma callStack_loop_total:
  "(sfs \<noteq> [] \<Longrightarrow> target \<noteq> None) \<Longrightarrow> \<forall>sf \<in> set (butlast sfs). sf_caller sf \<noteq> None \<Longrightarrow>
   \<exists>s. callStack_loop E need_args target sfs = Inr s"
proof (induction sfs arbitrary: target)
  case (Cons sf sfs)
  then obtain t where t: "target = Some t" by auto
  have "\<exists>s. callStack_loop E need_args (sf_caller sf) sfs = Inr s"
    using Cons by (intro Cons.IH) (auto split: if_splits)
  with t show ?case by auto
qed simp

lemma callStack_total: "thread_ok thr \<Longrightarrow> \<exists>s. callStack E thr need_args = Inr s"
proof -
  assume "thread_ok thr"
  then have "\<forall>sf \<in> set (butlast (rev (thr_stack thr))). sf_caller sf \<noteq> None"
    by (simp add: thread_ok_def butlast_rev)
  from callStack_loop_total [OF _ this, of "Some (thr_prevPC thr)" E need_args]
  show ?thesis by (auto simp: callStack_def)
qed

lemma callStacks_total:
  "\<forall>thr \<in> set thrs. thread_ok thr \<Longrightarrow> \<exists>s. callStacks E need_args thrs = Inr s"
proof (induction thrs)
  case (Cons thr thrs)
  then obtain s s' where "callStack E thr need_args = Inr s" "callStacks E need_args thrs = Inr s'"
    using callStack_total by (metis list.set_intros)
  then show ?case by simp
qed simp

lemma toString_total: "alloc_ok ai \<Longrightarrow> \<exists>s. toString E ai need_args = Inr s"
  using callStacks_total [of "ai_threads ai" E need_args] by (auto simp: alloc_ok_def toString_def)

lemma toString_alloc_string: "alloc_ok ai \<Longrightarrow> toString E ai False = Inr (alloc_string E ai)"
  using toString_total [of ai E False] by (auto simp: alloc_string_def)

lemma gatherPlaceInfo_total:
  "state_ok s \<Longrightarrow> \<exists>p. gatherPlaceInfo E s = Inr (p, hash p)"
proof (cases "\<exists>st thr. s = Some st \<and> es_lastThread st = Some thr")
  case True
  then obtain st thr where s: "s = Some st" "es_lastThread st = Some thr" by blast
  assume "state_ok s"
  with s callStack_total [of thr E False] show ?thesis
    by (auto simp: gatherPlaceInfo_def state_ok_def)
qed (auto simp: gatherPlaceInfo_def split: option.splits)

section \<open>Reports\<close>

lemma isReported_spec:
  "isReported reported place (hash place) info =
     (report_key place info \<in> set reported,
      if report_key place info \<in> set reported then reported else reported @ [report_key place info])"
  by (auto simp: isReported_def report_key_def Let_def list_ex_iff)

lemma report_loop_spec:
  assumes "\<forall>ai \<in> set ais. alloc_ok ai"
  shows "\<exists>reported'. report_loop E place (hash place) (map Some ais) reported error =
      Inr (error \<or> (\<exists>ai \<in> set ais. report_key place (alloc_string E ai) \<notin> set reported), reported') \<and>
    set reported' = set reported \<union> (\<lambda>ai. report_key place (alloc_string E ai)) ` set ais"
  using assms
proof (induction ais arbitrary: reported error)
  case (Cons ai ais)
  let ?k = "report_key place (alloc_string E ai)"
  let ?rep = "if ?k \<in> set reported then reported else reported @ [?k]"
  let ?err = "if ?k \<in> set reported then error else True"
  from Cons.prems have "toString E ai False = Inr (alloc_string E ai)"
    by (simp add: toString_alloc_string)
  then have step: "report_loop E place (hash place) (map Some (ai # ais)) reported error =
      report_loop E place (hash place) (map Some ais) ?rep ?err"
    by (simp add: isReported_spec)
  from Cons.IH [of ?rep ?err] Cons.prems obtain reported' where
    "report_loop E place (hash place) (map Some ais) ?rep ?err =
       Inr (?err \<or> (\<exists>ai \<in> set ais. report_key place (alloc_string E ai) \<notin> set ?rep), reported')"
    "set reported' = set ?rep \<union> (\<lambda>ai. report_key place (alloc_string E ai)) ` set ais" by auto
  with step show ?case
    by (cases "?k \<in> set reported") auto
qed simp

lemma ran_image_the: "ran m = (\<lambda>k. the (m k)) ` dom m"
  by (auto simp: ran_def dom_def image_iff) (metis option.sel)

lemma is_error_odd: "is_error r \<longleftrightarrow> odd r"
  by (simp add: is_error_def ERROR_def and_one_eq odd_iff_mod_2_eq_one)

lemma is_error_simps [simp]:
  "is_error (a OR b) \<longleftrightarrow> is_error a \<or> is_error b"
  "is_error ERROR" "\<not> is_error OK" "\<not> is_error IMPORTANT" "\<not> is_error NEED_RET"
  "\<not> is_error NEED_ARG0" "\<not> is_error NEED_ARG1" "\<not> is_error NEED_ARG2"
  "\<not> is_error NEED_ARG3" "\<not> is_error NEED_ARG4"
  by (simp add: is_error_odd even_or_iff) (simp_all add: is_error_def result_defs)

lemma is_error_report_result [simp]: "is_error (report_result e) = e"
  by (simp add: report_result_def is_error_def result_defs)

end
