(* ===== verification/AssertCheckers.thy ===== *)
theory AssertCheckers
  imports Checker
begin

text \<open>
  \<open>AssertCounter\<close> and \<open>AssertChecker\<close> of \<open>lib/Core/BasicCheckers.cpp\<close>: a conditional branch is
  an assertion when the first real instruction of one of its successors calls
  \<open>__assert_fail\<close>. The verdict on an instruction is kept in two static sets, shared by all
  copies of the checker, which are passed beside the checker's own state. A basic block is the
  list of its instructions, of which only calls (with the callee's name) matter.
\<close>

section \<open>Recognising assertions\<close>

datatype instr = Call string | OtherInst

record branch_inst =
  bi_succ0 :: "instr list"
  bi_succ1 :: "instr list"

record assert_sets =
  asserts :: "nat set"
  nonAsserts :: "nat set"

text \<open>The \<open>while (iter)\<close> loop over the instructions of a successor.\<close>

fun block_is_assert :: "instr list \<Rightarrow> bool" where
  "block_is_assert [] = False"
| "block_is_assert (OtherInst # is) = False"
| "block_is_assert (Call callee # is) =
     (if callee = ''__assert_fail'' then True
      else if callee \<noteq> ''llvm.debug.value'' \<and> callee \<noteq> ''llvm.debug.declare'' then False
      else block_is_assert is)"

definition scan_successors :: "branch_inst \<Rightarrow> bool" where
  "scan_successors bi = (block_is_assert (bi_succ0 bi) \<or> block_is_assert (bi_succ1 bi))"

definition classify :: "assert_sets \<Rightarrow> branch_inst \<Rightarrow> kinst \<Rightarrow> bool \<times> assert_sets" where
  "classify G bi inst =
     (if ki_id inst \<in> asserts G then (True, G)
      else if ki_id inst \<in> nonAsserts G then (False, G)
      else (let isAssert = scan_successors bi in
        (isAssert,
         if isAssert then G\<lparr>asserts := insert (ki_id inst) (asserts G)\<rparr>
         else G\<lparr>nonAsserts := insert (ki_id inst) (nonAsserts G)\<rparr>)))"

section \<open>AssertCounter\<close>

record assert_counter =
  constBranch :: int
  symBranch :: int
  assertCount :: int
  symAssert :: int
  realFork :: int
  assertFork :: int
  branchCount :: int

definition new_AssertCounter :: assert_counter where
  "new_AssertCounter = \<lparr>constBranch = 0, symBranch = 0, assertCount = 0, symAssert = 0,
     realFork = 0, assertFork = 0, branchCount = 0\<rparr>"

definition AssertCounter_mayBeEvent :: "string \<Rightarrow> bool" where
  "AssertCounter_mayBeEvent funcname = (funcname = ''__assert_fail'')"

text \<open>\<open>forked\<close> is \<open>trueBranch && falseBranch\<close>.\<close>

definition AssertCounter_onBranch :: "assert_sets \<Rightarrow> assert_counter \<Rightarrow> branch_inst \<Rightarrow> kinst \<Rightarrow> expr \<Rightarrow> bool \<Rightarrow>
    Result \<times> assert_sets \<times> assert_counter" where
  "AssertCounter_onBranch G s bi inst cond forked =
     (let s1 = s\<lparr>branchCount := branchCount s + 1\<rparr>;
          (isAssert, G') = classify G bi inst;
          isConst = is_constant cond;
          s2 = (if isConst then s1\<lparr>constBranch := constBranch s1 + 1\<rparr>
                else s1\<lparr>symBranch := symBranch s1 + 1\<rparr>);
          s3 = (if isAssert then s2\<lparr>assertCount := assertCount s2 + 1\<rparr> else s2);
          s4 = (if isAssert \<and> \<not> isConst then s3\<lparr>symAssert := symAssert s3 + 1\<rparr> else s3);
          s5 = (if forked then s4\<lparr>realFork := realFork s4 + 1\<rparr> else s4);
          s6 = (if forked \<and> isAssert then s5\<lparr>assertFork := assertFork s5 + 1\<rparr> else s5)
      in (if isAssert then IMPORTANT else OK, G', s6))"

text \<open>The figures written to \<open>assert_info.txt\<close>, in the order of the lines.\<close>

definition AssertCounter_report :: "assert_counter \<Rightarrow> Result \<times> (string \<times> int) list" where
  "AssertCounter_report s =
     (OK, [(''Branch'', branchCount s), (''Symbolic Branch'', symBranch s),
           (''Normal Branch'', constBranch s), (''Asserts'', assertCount s),
           (''Symbolic Asserts'', symAssert s), (''Forks'', realFork s),
           (''Assert Forks'', assertFork s)])"

section \<open>AssertChecker\<close>

definition AssertChecker_mayBeEvent :: "string \<Rightarrow> bool" where
  "AssertChecker_mayBeEvent funcname = (funcname = ''__assert_fail'')"

definition AssertChecker_onBranch :: "assert_sets \<Rightarrow> branch_inst \<Rightarrow> kinst \<Rightarrow> expr \<Rightarrow> Result \<times> assert_sets" where
  "AssertChecker_onBranch G bi inst cond =
     (let (isAssert, G') = classify G bi inst;
          isConst = is_constant cond
      in (if isAssert \<and> \<not> isConst then IMPORTANT else OK, G'))"

definition AssertChecker_report :: Result where
  "AssertChecker_report = OK"

section \<open>Invariants\<close>

text \<open>
  The cache is right for the program \<open>prog\<close>, which gives each branch instruction its successors:
  an instruction in \<open>asserts\<close> (in \<open>nonAsserts\<close>) has (has not) an assertion among its successors.
\<close>

definition sets_sound :: "(nat \<Rightarrow> branch_inst) \<Rightarrow> assert_sets \<Rightarrow> bool" where
  "sets_sound prog G \<longleftrightarrow>
     (\<forall>i \<in> asserts G. scan_successors (prog i)) \<and> (\<forall>i \<in> nonAsserts G. \<not> scan_successors (prog i))"

record branch_event =
  be_inst :: kinst
  be_cond :: expr
  be_forked :: bool

fun run_branches :: "(nat \<Rightarrow> branch_inst) \<Rightarrow> branch_event list \<Rightarrow> assert_sets \<times> assert_counter \<Rightarrow> assert_sets \<times> assert_counter" where
  "run_branches prog [] (G, s) = (G, s)"
| "run_branches prog (e # es) (G, s) =
     (let (r, G', s') = AssertCounter_onBranch G s (prog (ki_id (be_inst e))) (be_inst e) (be_cond e) (be_forked e)
      in run_branches prog es (G', s'))"

lemma classify_sound:
  assumes "sets_sound prog G" "prog (ki_id inst) = bi"
  shows "fst (classify G bi inst) = scan_successors bi \<and> sets_sound prog (snd (classify G bi inst))"
  using assms by (auto simp: classify_def sets_sound_def Let_def)

lemma classify_cached:
  "classify (snd (classify G bi inst)) bi' inst = (fst (classify G bi inst), snd (classify G bi inst))"
  by (auto simp: classify_def Let_def)

definition is_assert :: "(nat \<Rightarrow> branch_inst) \<Rightarrow> branch_event \<Rightarrow> bool" where
  "is_assert prog e = scan_successors (prog (ki_id (be_inst e)))"

definition num :: "('a \<Rightarrow> bool) \<Rightarrow> 'a list \<Rightarrow> int" where
  "num P xs = int (length (filter P xs))"

lemma num_simps [simp]:
  "num P [] = 0"
  "num P (x # xs) = (if P x then 1 else 0) + num P xs"
  by (simp_all add: num_def)

lemma run_branches_counts:
  "sets_sound prog G \<Longrightarrow>
   snd (run_branches prog es (G, s)) =
     \<lparr>constBranch = constBranch s + num (\<lambda>e. is_constant (be_cond e)) es,
      symBranch = symBranch s + num (\<lambda>e. \<not> is_constant (be_cond e)) es,
      assertCount = assertCount s + num (is_assert prog) es,
      symAssert = symAssert s + num (\<lambda>e. is_assert prog e \<and> \<not> is_constant (be_cond e)) es,
      realFork = realFork s + num be_forked es,
      assertFork = assertFork s + num (\<lambda>e. is_assert prog e \<and> be_forked e) es,
      branchCount = branchCount s + int (length es)\<rparr>"
proof (induction es arbitrary: G s)
  case (Cons e es)
  let ?bi = "prog (ki_id (be_inst e))"
  obtain b G' where c: "classify G ?bi (be_inst e) = (b, G')" by fastforce
  with classify_sound [OF Cons.prems, of "be_inst e"]
  have "b = is_assert prog e" "sets_sound prog G'" by (simp_all add: is_assert_def)
  with c Cons.IH [of G'] show ?case
    by (simp add: AssertCounter_onBranch_def Let_def)
qed simp


end
