(* ===== verification/OpenCloseChecker.thy ===== *)
theory OpenCloseChecker
  imports Checker
begin

text \<open>
  \<open>OpenCloseChecker\<close> of \<open>lib/Core/BasicCheckers.cpp\<close>: streams opened by \<open>fopen\<close>,
  \<open>fopen64\<close> or \<open>fdopen\<close> must be closed. Streams of external calls are held by value, streams
  returned inside the interpreted program as expressions. The set of expressions is the list
  of its elements in the order of \<open>Expr::compare\<close>, each with the address of its node, the key of
  \<open>open_fds_exp_allocinfo\<close>. The static multimap \<open>reported\<close> is passed to \<open>report\<close>.
\<close>

section \<open>The checker\<close>

record openclose_checker =
  oc_open_fds :: "uint64_t set"
  oc_allocinfo :: "uint64_t \<rightharpoonup> alloc_info"
  oc_open_fds_exp :: "(expr \<times> nat) list"
  oc_exp_allocinfo :: "nat \<rightharpoonup> alloc_info"
  oc_dismiss_error :: bool

definition new_OpenCloseChecker :: openclose_checker where
  "new_OpenCloseChecker = \<lparr>oc_open_fds = {}, oc_allocinfo = Map.empty, oc_open_fds_exp = [],
     oc_exp_allocinfo = Map.empty, oc_dismiss_error = False\<rparr>"

fun set_insert :: "expr_env \<Rightarrow> expr \<times> nat \<Rightarrow> (expr \<times> nat) list \<Rightarrow> (expr \<times> nat) list" where
  "set_insert X e [] = [e]"
| "set_insert X e (d # ds) =
     (if expr_less X (fst e) (fst d) then e # d # ds
      else if expr_less X (fst d) (fst e) then d # set_insert X e ds
      else d # ds)"

definition OpenClose_mayBeEvent :: "string \<Rightarrow> bool" where
  "OpenClose_mayBeEvent funcname =
     (if funcname = ''fopen'' \<or> funcname = ''fdopen'' \<or> funcname = ''fopen64'' \<or> funcname = ''fclose''
      then True else False)"

definition OpenClose_wantConcrete :: "string \<Rightarrow> bool" where
  "OpenClose_wantConcrete funcname = OpenClose_mayBeEvent funcname"

text \<open>The search for an open stream that must be the closed one; \<open>None\<close> is a solver failure.\<close>

fun find_match :: "executor \<Rightarrow> exec_state \<Rightarrow> expr \<Rightarrow> (expr \<times> nat) list \<Rightarrow> (expr \<times> nat) option option result" where
  "find_match E s close_fd [] = Inr (Some None)"
| "find_match E s close_fd (d # ds) =
     bind_result (of_option AssertionFailed (Eq_create (ex_env E) close_fd (fst d))) (\<lambda>m.
       case s_mustBeTrue (ex_solver E) (es_constraints s) m of
         None \<Rightarrow> Inr None
       | Some True \<Rightarrow> Inr (Some (Some d))
       | Some False \<Rightarrow> find_match E s close_fd ds)"

text \<open>
  After \<open>open_fds_exp.erase(match_fd)\<close> the code reads \<open>match_fd->get()\<close> through the iterator it
  has just invalidated.
\<close>

definition close_symbolic :: "executor \<Rightarrow> openclose_checker \<Rightarrow> exec_state \<Rightarrow> expr \<Rightarrow> (Result \<times> openclose_checker) result" where
  "close_symbolic E c s close_fd =
     (let need_args = NEED_ARG0 in
      bind_result (find_match E s close_fd (oc_open_fds_exp c)) (\<lambda>found.
        case found of
          None \<Rightarrow> Inr (ERROR OR need_args, c)
        | Some (Some match_fd) \<Rightarrow> Inl UseAfterFree
        | Some None \<Rightarrow>
            (if oc_dismiss_error c then Inr (OK, c)
             else bind_result (is_stdio_stream E s close_fd) (\<lambda>stdio.
               if stdio then Inr (OK, c) else Inr (ERROR OR need_args, c)))))"

definition OpenClose_onCall :: "executor \<Rightarrow> openclose_checker \<Rightarrow> exec_state \<Rightarrow> thread_state \<Rightarrow> kinst \<Rightarrow> string \<Rightarrow>
    expr list \<Rightarrow> uint64_t list option \<Rightarrow> (Result \<times> openclose_checker) result" where
  "OpenClose_onCall E c s thr target funcname arguments args =
     (if (funcname = ''fopen'' \<or> funcname = ''fopen64'' \<or> funcname = ''fdopen'') \<and> args \<noteq> None then
        bind_result (vec_at (the args) 0) (\<lambda>fd.
          Inr (IMPORTANT OR NEED_RET,
               if fd \<noteq> 0 then
                 c\<lparr>oc_open_fds := insert fd (oc_open_fds c),
                   oc_allocinfo := map_insert fd (alloc_here target thr) (oc_allocinfo c)\<rparr>
               else c))
      else if funcname = ''fclose'' then
        (case args of
           Some a \<Rightarrow>
             bind_result (vec_at a 2) (\<lambda>fd.
               if fd \<notin> oc_open_fds c then Inr (ERROR OR NEED_ARG0, c)
               else Inr (IMPORTANT OR NEED_ARG0,
                      c\<lparr>oc_open_fds := oc_open_fds c - {fd}, oc_allocinfo := (oc_allocinfo c)(fd := None)\<rparr>))
         | None \<Rightarrow>
             bind_result (vec_at arguments 0) (\<lambda>close_fd. close_symbolic E c s close_fd))
      else if funcname = ''close_stdout'' \<and> args = None then
        Inr (OK, c\<lparr>oc_dismiss_error := True\<rparr>)
      else Inr (OK, c))"

text \<open>\<open>result\<close> comes with the address of its node.\<close>

definition OpenClose_onRet :: "executor \<Rightarrow> openclose_checker \<Rightarrow> exec_state \<Rightarrow> thread_state \<Rightarrow> kinst \<Rightarrow>
    expr \<times> nat \<Rightarrow> (Result \<times> openclose_checker) result" where
  "OpenClose_onRet E c s thr caller res =
     (case getTargetFunctionFromCaller E s caller of
        None \<Rightarrow> Inr (OK, c)
      | Some funcname \<Rightarrow>
          (if funcname = ''fopen'' \<or> funcname = ''fopen64'' \<or> funcname = ''fdopen'' then
             (case fst res of
                ConstantExpr ce \<Rightarrow>
                  bind_result (of_option AssertionFailed (getZExtValue (ex_env E) 64 ce)) (\<lambda>v.
                    Inr (IMPORTANT OR NEED_RET,
                         if v \<noteq> 0 then
                           c\<lparr>oc_open_fds_exp := set_insert (ex_env E) res (oc_open_fds_exp c),
                             oc_exp_allocinfo := map_insert (snd res) (alloc_here caller thr) (oc_exp_allocinfo c)\<rparr>
                         else c))
              | _ \<Rightarrow> Inr (IMPORTANT OR NEED_RET, c))
           else if funcname = ''close_stdout'' then Inr (OK, c\<lparr>oc_dismiss_error := False\<rparr>)
           else Inr (OK, c)))"

definition OpenClose_report :: "executor \<Rightarrow> openclose_checker \<Rightarrow> reports \<Rightarrow> exec_state option \<Rightarrow> (Result \<times> reports) result" where
  "OpenClose_report E c reported st =
     bind_result (gatherPlaceInfo E st) (\<lambda>(place_info, place_hash).
     bind_result (report_loop E place_info place_hash
         (map (oc_allocinfo c) (sorted_list_of_set (oc_open_fds c))) reported False) (\<lambda>(error, reported').
     bind_result (report_loop E place_info place_hash
         (map (\<lambda>d. oc_exp_allocinfo c (snd d)) (oc_open_fds_exp c)) reported' error) (\<lambda>(error', reported'').
       Inr (report_result error', reported''))))"

section \<open>External streams\<close>

text \<open>The calls of a path that go to external code: an open with its result, a close.\<close>

datatype stream_event = SOpen string uint64_t | SClose uint64_t

definition open_name :: "string \<Rightarrow> bool" where
  "open_name f \<longleftrightarrow> f = ''fopen'' \<or> f = ''fopen64'' \<or> f = ''fdopen''"

fun stream_step :: "executor \<Rightarrow> exec_state \<Rightarrow> thread_state \<Rightarrow> kinst \<Rightarrow> stream_event \<Rightarrow> openclose_checker \<Rightarrow>
    (Result \<times> openclose_checker) result" where
  "stream_step E s thr ki (SOpen f fd) c = OpenClose_onCall E c s thr ki f [] (Some [fd, 0])"
| "stream_step E s thr ki (SClose fd) c = OpenClose_onCall E c s thr ki ''fclose'' [] (Some [0, 0, fd])"

fun run_streams :: "executor \<Rightarrow> exec_state \<Rightarrow> (stream_event \<times> thread_state \<times> kinst) list \<Rightarrow> openclose_checker \<Rightarrow>
    (Result list \<times> openclose_checker) result" where
  "run_streams E s [] c = Inr ([], c)"
| "run_streams E s ((ev, thr, ki) # evs) c =
     bind_result (stream_step E s thr ki ev c) (\<lambda>(r, c').
     bind_result (run_streams E s evs c') (\<lambda>(rs, c''). Inr (r # rs, c'')))"

text \<open>The specification: the set of streams that are open.\<close>

fun spec_stream :: "stream_event \<Rightarrow> uint64_t set \<Rightarrow> bool \<times> uint64_t set" where
  "spec_stream (SOpen f fd) S = (False, if fd = 0 then S else insert fd S)"
| "spec_stream (SClose fd) S = (fd \<notin> S, S - {fd})"

fun spec_streams :: "(stream_event \<times> thread_state \<times> kinst) list \<Rightarrow> uint64_t set \<Rightarrow> bool list \<times> uint64_t set" where
  "spec_streams [] S = ([], S)"
| "spec_streams ((ev, _, _) # evs) S =
     (let (e, S') = spec_stream ev S; (es, S'') = spec_streams evs S' in (e # es, S''))"

definition oc_inv :: "openclose_checker \<Rightarrow> bool" where
  "oc_inv c \<longleftrightarrow> dom (oc_allocinfo c) = oc_open_fds c \<and> finite (oc_open_fds c) \<and> 0 \<notin> oc_open_fds c \<and>
     (\<forall>ai \<in> ran (oc_allocinfo c). alloc_ok ai) \<and> oc_open_fds_exp c = []"

lemma alloc_here_ok: "thread_ok thr \<Longrightarrow> alloc_ok (alloc_here ki thr)"
  by (simp add: alloc_here_def alloc_ok_def addThread_def new_AllocInfo_def)

lemma stream_step_spec:
  assumes "oc_inv c" "thread_ok thr" "case ev of SOpen f fd \<Rightarrow> open_name f | SClose fd \<Rightarrow> True"
  shows "\<exists>r c'. stream_step E s thr ki ev c = Inr (r, c') \<and> oc_inv c' \<and>
    spec_stream ev (oc_open_fds c) = (is_error r, oc_open_fds c')"
proof (cases ev)
  case (SOpen f fd)
  with assms alloc_here_ok [OF assms(2), of ki] show ?thesis
    by (auto simp: OpenClose_onCall_def open_name_def oc_inv_def dest!: map_insert_simps(2))
next
  case (SClose fd)
  with assms show ?thesis
    by (auto simp: OpenClose_onCall_def oc_inv_def ran_def)
qed

lemma run_streams_spec:
  assumes "oc_inv c" "\<forall>(ev, thr, ki) \<in> set evs. thread_ok thr \<and> (\<forall>f fd. ev = SOpen f fd \<longrightarrow> open_name f)"
  shows "\<exists>rs c'. run_streams E s evs c = Inr (rs, c') \<and> oc_inv c' \<and>
    spec_streams evs (oc_open_fds c) = (map is_error rs, oc_open_fds c')"
  using assms
proof (induction evs arbitrary: c)
  case (Cons e evs)
  obtain ev thr ki where e: "e = (ev, thr, ki)" using prod_cases3 by blast
  with Cons.prems have "thread_ok thr" "case ev of SOpen f fd \<Rightarrow> open_name f | SClose fd \<Rightarrow> True"
    by (auto split: stream_event.splits)
  from stream_step_spec [OF Cons.prems(1) this, of E s ki] obtain r c' where
    step: "stream_step E s thr ki ev c = Inr (r, c')" "oc_inv c'"
      "spec_stream ev (oc_open_fds c) = (is_error r, oc_open_fds c')" by blast
  from Cons.IH [OF step(2)] Cons.prems(2) obtain rs c'' where
    "run_streams E s evs c' = Inr (rs, c'')" "oc_inv c''"
    "spec_streams evs (oc_open_fds c') = (map is_error rs, oc_open_fds c'')" by auto
  with e step show ?case by simp
qed simp

lemma oc_report:
  assumes "oc_inv c" "state_ok st"
  shows "\<exists>place reported'. gatherPlaceInfo E st = Inr (place, hash place) \<and>
    OpenClose_report E c reported st =
      Inr (report_result (\<exists>ai \<in> ran (oc_allocinfo c). report_key place (alloc_string E ai) \<notin> set reported), reported') \<and>
    set reported' = set reported \<union> (\<lambda>ai. report_key place (alloc_string E ai)) ` ran (oc_allocinfo c)"
proof -
  let ?fds = "sorted_list_of_set (oc_open_fds c)"
  from gatherPlaceInfo_total [OF assms(2)] obtain place where
    g: "gatherPlaceInfo E st = Inr (place, hash place)" by blast
  from assms(1) have d: "dom (oc_allocinfo c) = set ?fds" by (simp add: oc_inv_def)
  define ais where "ais = map (\<lambda>fd. the (oc_allocinfo c fd)) ?fds"
  have m: "map (oc_allocinfo c) ?fds = map Some ais"
    using d by (auto simp: ais_def domD)
  have r: "set ais = ran (oc_allocinfo c)"
    by (simp add: ais_def ran_image_the d)
  with assms(1) have "\<forall>ai \<in> set ais. alloc_ok ai" by (simp add: oc_inv_def)
  from report_loop_spec [OF this, of E place reported False] obtain reported' where
    "report_loop E place (hash place) (map Some ais) reported False =
       Inr (\<exists>ai \<in> set ais. report_key place (alloc_string E ai) \<notin> set reported, reported')"
    "set reported' = set reported \<union> (\<lambda>ai. report_key place (alloc_string E ai)) ` set ais" by auto
  then have "OpenClose_report E c reported st =
      Inr (report_result (\<exists>ai \<in> ran (oc_allocinfo c). report_key place (alloc_string E ai) \<notin> set reported), reported')"
    "set reported' = set reported \<union> (\<lambda>ai. report_key place (alloc_string E ai)) ` ran (oc_allocinfo c)"
    using assms(1) g m r by (simp_all add: OpenClose_report_def oc_inv_def)
  with g show ?thesis by blast
qed

lemma oc_inv_new: "oc_inv new_OpenCloseChecker" "oc_open_fds new_OpenCloseChecker = {}"
  by (simp_all add: oc_inv_def new_OpenCloseChecker_def)

text \<open>
  C28: for streams opened and closed by external calls, on any path: the checker never faults, its
  set of open streams is exactly the streams opened (with a non-null result) and not closed, and
  a close is an error exactly when the stream is not open.
\<close>

theorem OpenClose_tracks_open_streams:
  assumes "\<forall>(ev, thr, ki) \<in> set evs. thread_ok thr \<and> (\<forall>f fd. ev = SOpen f fd \<longrightarrow> open_name f)"
  shows "\<exists>rs c. run_streams E s evs new_OpenCloseChecker = Inr (rs, c) \<and>
    spec_streams evs {} = (map is_error rs, oc_open_fds c) \<and> dom (oc_allocinfo c) = oc_open_fds c"
  using run_streams_spec [OF oc_inv_new(1) assms, of E s] by (auto simp: oc_inv_new oc_inv_def)

theorem OpenClose_tracks_open_streams_witness:
  "\<forall>E s ki. \<exists>rs c. run_streams E s
      [(SOpen ''fopen'' 5, \<lparr>thr_stack = [], thr_id = 0, thr_pc = ki, thr_prevPC = ki\<rparr>, ki)]
      new_OpenCloseChecker = Inr (rs, c) \<and> oc_open_fds c = {5}"
proof (intro allI)
  fix E s ki
  let ?evs = "[(SOpen ''fopen'' 5, \<lparr>thr_stack = [], thr_id = 0, thr_pc = ki, thr_prevPC = ki\<rparr>, ki)]"
  have "\<forall>(ev, thr, ki) \<in> set ?evs. thread_ok thr \<and> (\<forall>f fd. ev = SOpen f fd \<longrightarrow> open_name f)"
    by (simp add: thread_ok_def open_name_def)
  from OpenClose_tracks_open_streams [OF this, of E s]
  show "\<exists>rs c. run_streams E s ?evs new_OpenCloseChecker = Inr (rs, c) \<and> oc_open_fds c = {5}"
    by fastforce
qed



text \<open>
  Closing a stream of the interpreted program that the checker has recorded reads the erased
  set element: after the erase of the matching element the code uses its iterator again.
\<close>

theorem OpenClose_symbolic_close_dangling:
  assumes "find_match E s fd (oc_open_fds_exp c) = Inr (Some (Some d))"
  shows "OpenClose_onCall E c s thr ki ''fclose'' [fd] None = Inl UseAfterFree"
  using assms by (simp add: OpenClose_onCall_def close_symbolic_def)

theorem OpenClose_symbolic_close_dangling_witness:
  "\<forall>(E :: executor) s thr ki a. OpenClose_onCall (E\<lparr>ex_solver := (ex_solver E)\<lparr>s_mustBeTrue := \<lambda>_ _. Some True\<rparr>\<rparr>)
     (new_OpenCloseChecker\<lparr>oc_open_fds_exp := [(NotOptimizedExpr (ConstantExpr a), 1)]\<rparr>)
     s thr ki ''fclose'' [NotOptimizedExpr (ConstantExpr a)] None = Inl UseAfterFree"
proof (intro allI)
  fix E :: executor and s thr ki a
  let ?E = "E\<lparr>ex_solver := (ex_solver E)\<lparr>s_mustBeTrue := \<lambda>_ _. Some True\<rparr>\<rparr>"
  let ?c = "new_OpenCloseChecker\<lparr>oc_open_fds_exp := [(NotOptimizedExpr (ConstantExpr a), 1)]\<rparr>"
  have "find_match ?E s (NotOptimizedExpr (ConstantExpr a)) (oc_open_fds_exp ?c) =
      Inr (Some (Some (NotOptimizedExpr (ConstantExpr a), 1)))"
    by (simp add: Eq_create_def)
  from OpenClose_symbolic_close_dangling [OF this]
  show "OpenClose_onCall ?E ?c s thr ki ''fclose'' [NotOptimizedExpr (ConstantExpr a)] None = Inl UseAfterFree" .
qed

end
