(* ===== verification/LockChecker.thy ===== *)
theory LockChecker
  imports Checker
begin

text \<open>
  \<open>LockChecker\<close> of \<open>lib/Core/BasicCheckers.cpp\<close>: it watches the four \<open>pthread_mutex\<close> calls on
  their concrete argument and reports mutexes used out of order or left behind. The
  specification is one small automaton per mutex.
\<close>

section \<open>The checker\<close>

record lock_checker =
  init_locks :: "uint64_t set"
  locked_locks :: "uint64_t set"

definition new_LockChecker :: lock_checker where
  "new_LockChecker = \<lparr>init_locks = {}, locked_locks = {}\<rparr>"

definition LockChecker_mayBeEvent :: "string \<Rightarrow> bool" where
  "LockChecker_mayBeEvent funcname =
     (if funcname = ''pthread_mutex_init'' \<or> funcname = ''pthread_mutex_lock'' \<or>
         funcname = ''pthread_mutex_unlock'' \<or> funcname = ''pthread_mutex_destroy''
      then True else False)"

definition LockChecker_wantConcrete :: "string \<Rightarrow> bool" where
  "LockChecker_wantConcrete funcname =
     (if funcname = ''pthread_mutex_init'' \<or> funcname = ''pthread_mutex_lock'' \<or>
         funcname = ''pthread_mutex_unlock'' \<or> funcname = ''pthread_mutex_destroy''
      then True else False)"

definition mutex_init :: "lock_checker \<Rightarrow> uint64_t \<Rightarrow> Result \<times> lock_checker" where
  "mutex_init s mutex =
     (let need_args = NEED_ARG0 in
      if mutex \<in> init_locks s then (ERROR OR need_args, s)
      else (IMPORTANT OR need_args, s\<lparr>init_locks := insert mutex (init_locks s)\<rparr>))"

definition mutex_lock :: "lock_checker \<Rightarrow> uint64_t \<Rightarrow> Result \<times> lock_checker" where
  "mutex_lock s mutex =
     (let need_args = NEED_ARG0 in
      if mutex \<notin> init_locks s then (ERROR OR need_args, s)
      else if mutex \<in> locked_locks s then (ERROR OR need_args, s)
      else (IMPORTANT OR need_args, s\<lparr>locked_locks := insert mutex (locked_locks s)\<rparr>))"

definition mutex_unlock :: "lock_checker \<Rightarrow> uint64_t \<Rightarrow> Result \<times> lock_checker" where
  "mutex_unlock s mutex =
     (let need_args = NEED_ARG0 in
      if mutex \<notin> init_locks s then (ERROR OR need_args, s)
      else if mutex \<notin> locked_locks s then (ERROR OR need_args, s)
      else (IMPORTANT OR need_args, s\<lparr>locked_locks := locked_locks s - {mutex}\<rparr>))"

definition mutex_destroy :: "lock_checker \<Rightarrow> uint64_t \<Rightarrow> Result \<times> lock_checker" where
  "mutex_destroy s mutex =
     (let need_args = NEED_ARG0 in
      if mutex \<in> locked_locks s then (ERROR OR need_args, s)
      else if mutex \<notin> init_locks s then (ERROR OR need_args, s)
      else (IMPORTANT OR need_args, s\<lparr>init_locks := init_locks s - {mutex}\<rparr>))"

definition LockChecker_onCall :: "lock_checker \<Rightarrow> string \<Rightarrow> uint64_t list option \<Rightarrow> (Result \<times> lock_checker) result" where
  "LockChecker_onCall s funcname args =
     (case args of
        None \<Rightarrow> Inr (OK, s)
      | Some a \<Rightarrow>
          (if funcname = ''pthread_mutex_init'' then bind_result (vec_at a 2) (\<lambda>mutex. Inr (mutex_init s mutex))
           else if funcname = ''pthread_mutex_lock'' then bind_result (vec_at a 2) (\<lambda>mutex. Inr (mutex_lock s mutex))
           else if funcname = ''pthread_mutex_unlock'' then bind_result (vec_at a 2) (\<lambda>mutex. Inr (mutex_unlock s mutex))
           else if funcname = ''pthread_mutex_destroy'' then bind_result (vec_at a 2) (\<lambda>mutex. Inr (mutex_destroy s mutex))
           else Inr (OK, s)))"

definition LockChecker_report :: "lock_checker \<Rightarrow> Result" where
  "LockChecker_report s =
     (let error = False;
          error1 = (if init_locks s \<noteq> {} then True else error);
          error2 = (if locked_locks s \<noteq> {} then True else error1)
      in if error2 then ERROR else OK)"

section \<open>Specification: one automaton per mutex\<close>

datatype mutex_state = Uninit | Unlocked | Locked

datatype mutex_op = MInit | MLock | MUnlock | MDestroy

fun mutex_step :: "mutex_op \<Rightarrow> mutex_state \<Rightarrow> mutex_state option" where
  "mutex_step MInit Uninit = Some Unlocked"
| "mutex_step MLock Unlocked = Some Locked"
| "mutex_step MUnlock Locked = Some Unlocked"
| "mutex_step MDestroy Unlocked = Some Uninit"
| "mutex_step _ _ = None"

fun mutex_func :: "mutex_op \<Rightarrow> string" where
  "mutex_func MInit = ''pthread_mutex_init''"
| "mutex_func MLock = ''pthread_mutex_lock''"
| "mutex_func MUnlock = ''pthread_mutex_unlock''"
| "mutex_func MDestroy = ''pthread_mutex_destroy''"

definition abs_mutex :: "lock_checker \<Rightarrow> uint64_t \<Rightarrow> mutex_state" where
  "abs_mutex s m = (if m \<in> locked_locks s then Locked else if m \<in> init_locks s then Unlocked else Uninit)"

definition lock_inv :: "lock_checker \<Rightarrow> bool" where
  "lock_inv s \<longleftrightarrow> locked_locks s \<subseteq> init_locks s \<and> finite (init_locks s)"

text \<open>A run of concrete calls; the second component collects the results.\<close>

fun run_locks :: "(mutex_op \<times> uint64_t) list \<Rightarrow> lock_checker \<Rightarrow> (Result list \<times> lock_checker) result" where
  "run_locks [] s = Inr ([], s)"
| "run_locks ((op, m) # evs) s =
     bind_result (LockChecker_onCall s (mutex_func op) (Some [0, 0, m])) (\<lambda>(r, s').
     bind_result (run_locks evs s') (\<lambda>(rs, s''). Inr (r # rs, s'')))"

fun spec_locks :: "(mutex_op \<times> uint64_t) list \<Rightarrow> (uint64_t \<Rightarrow> mutex_state) \<Rightarrow> bool list \<times> (uint64_t \<Rightarrow> mutex_state)" where
  "spec_locks [] \<sigma> = ([], \<sigma>)"
| "spec_locks ((op, m) # evs) \<sigma> =
     (case mutex_step op (\<sigma> m) of
        None \<Rightarrow> (let (es, \<sigma>') = spec_locks evs \<sigma> in (True # es, \<sigma>'))
      | Some q \<Rightarrow> (let (es, \<sigma>') = spec_locks evs (\<sigma>(m := q)) in (False # es, \<sigma>')))"

lemma lock_step:
  assumes "lock_inv s"
  shows "\<exists>r s'. LockChecker_onCall s (mutex_func op) (Some [0, 0, m]) = Inr (r, s') \<and> lock_inv s' \<and>
    (case mutex_step op (abs_mutex s m) of
       None \<Rightarrow> is_error r \<and> s' = s
     | Some q \<Rightarrow> \<not> is_error r \<and> abs_mutex s' = (abs_mutex s)(m := q))"
  using assms
  by (cases op)
    (auto simp: LockChecker_onCall_def mutex_init_def mutex_lock_def mutex_unlock_def
      mutex_destroy_def abs_mutex_def lock_inv_def fun_eq_iff)

lemma run_locks_refines:
  "lock_inv s \<Longrightarrow> \<exists>rs s'. run_locks evs s = Inr (rs, s') \<and> lock_inv s' \<and>
     spec_locks evs (abs_mutex s) = (map is_error rs, abs_mutex s')"
proof (induction evs arbitrary: s)
  case (Cons ev evs)
  obtain op m where ev: "ev = (op, m)" by fastforce
  from lock_step [OF Cons.prems, of op m] obtain r s' where
    step: "LockChecker_onCall s (mutex_func op) (Some [0, 0, m]) = Inr (r, s')" "lock_inv s'"
      "case mutex_step op (abs_mutex s m) of
         None \<Rightarrow> is_error r \<and> s' = s
       | Some q \<Rightarrow> \<not> is_error r \<and> abs_mutex s' = (abs_mutex s)(m := q)" by blast
  from Cons.IH [OF step(2)] obtain rs s'' where
    "run_locks evs s' = Inr (rs, s'')" "lock_inv s''"
    "spec_locks evs (abs_mutex s') = (map is_error rs, abs_mutex s'')" by blast
  with step ev show ?case by (auto split: option.splits)
qed simp

lemma run_locks_new:
  "\<exists>rs s. run_locks evs new_LockChecker = Inr (rs, s) \<and> lock_inv s \<and>
     spec_locks evs (\<lambda>_. Uninit) = (map is_error rs, abs_mutex s)"
proof -
  have "lock_inv new_LockChecker" "abs_mutex new_LockChecker = (\<lambda>_. Uninit)"
    by (simp_all add: lock_inv_def new_LockChecker_def abs_mutex_def fun_eq_iff)
  with run_locks_refines [of new_LockChecker evs] show ?thesis by simp
qed

lemma report_abs:
  "is_error (LockChecker_report s) \<longleftrightarrow> (\<exists>m. abs_mutex s m \<noteq> Uninit)"
  by (auto simp: LockChecker_report_def Let_def is_error_def result_defs abs_mutex_def)

text \<open>
  C26: on any sequence of mutex calls the checker never faults, keeps every locked mutex
  initialised, and returns an error exactly at the calls that the automaton of that mutex
  (uninitialised, unlocked, locked) refuses, ignoring such a call.
\<close>

theorem LockChecker_refines_automaton:
  "\<exists>rs s. run_locks evs new_LockChecker = Inr (rs, s) \<and> locked_locks s \<subseteq> init_locks s \<and>
     spec_locks evs (\<lambda>_. Uninit) = (map is_error rs, abs_mutex s)"
  using run_locks_new [of evs] by (auto simp: lock_inv_def)

text \<open>
  C30: at the end of a path the lock checker reports an error exactly when some mutex is not back
  in the uninitialised state.
\<close>

theorem LockChecker_report_iff:
  "run_locks evs new_LockChecker = Inr (rs, s) \<Longrightarrow>
   is_error (LockChecker_report s) \<longleftrightarrow> (\<exists>m. snd (spec_locks evs (\<lambda>_. Uninit)) m \<noteq> Uninit)"
  using run_locks_new [of evs] report_abs [of s] by auto

theorem LockChecker_report_iff_witness:
  "\<exists>rs s. run_locks [(MInit, 8), (MLock, 8), (MUnlock, 8)] new_LockChecker = Inr (rs, s) \<and>
     is_error (LockChecker_report s)"
proof -
  have "\<exists>rs s. run_locks [(MInit, 8), (MLock, 8), (MUnlock, 8)] new_LockChecker = Inr (rs, s)"
    by (simp add: LockChecker_onCall_def mutex_init_def mutex_lock_def mutex_unlock_def new_LockChecker_def)
  then obtain rs s where r: "run_locks [(MInit, 8), (MLock, 8), (MUnlock, 8)] new_LockChecker = Inr (rs, s)"
    by blast
  from LockChecker_report_iff [OF r] have "is_error (LockChecker_report s)" by auto
  with r show ?thesis by blast
qed

end
