(* ===== verification/FileChecker.thy ===== *)
theory FileChecker
  imports Checker
begin

text \<open>
  \<open>FileChecker\<close> of \<open>lib/Core/BasicCheckers.cpp\<close>: streams must not be used after
  \<open>ferror\<close> reported an error on them, must be open when used, and must be closed once they have
  been read or written. The specification is one automaton per stream.
\<close>

section \<open>The checker\<close>

record file_checker =
  fc_open :: "uint64_t set"
  fc_err :: "uint64_t set"
  fc_dirty :: "uint64_t set"
  fc_err_dirty :: "uint64_t set"

definition new_FileChecker :: file_checker where
  "new_FileChecker = \<lparr>fc_open = {}, fc_err = {}, fc_dirty = {}, fc_err_dirty = {}\<rparr>"

definition FileChecker_mayBeEvent :: "string \<Rightarrow> bool" where
  "FileChecker_mayBeEvent funcname =
     (if funcname = ''clearerr'' \<or> funcname = ''clearerr_unlocked'' then True
      else if length funcname < 5 then False
      else if funcname ! 0 \<noteq> CHR ''f'' then False
      else if funcname = ''fopen'' \<or> funcname = ''fopen64'' \<or> funcname = ''fdopen'' \<or>
         funcname = ''fclose'' \<or> funcname = ''fputs'' \<or> funcname = ''fputs_unlocked'' \<or>
         funcname = ''fgets'' \<or> funcname = ''fgets_unlocked'' \<or> funcname = ''fprintf'' \<or>
         funcname = ''fread'' \<or> funcname = ''fread_unlocked'' \<or> funcname = ''fwrite'' \<or>
         funcname = ''fwrite_unlocked'' \<or> funcname = ''ferror'' \<or> funcname = ''ferror_unlocked''
      then True else False)"

definition FileChecker_wantConcrete :: "string \<Rightarrow> bool" where
  "FileChecker_wantConcrete funcname = FileChecker_mayBeEvent funcname"

definition file_clearerr :: "file_checker \<Rightarrow> uint64_t \<Rightarrow> file_checker" where
  "file_clearerr c fp =
     (let c1 = (if fp \<in> fc_err c
                then c\<lparr>fc_err := fc_err c - {fp}, fc_open := insert fp (fc_open c)\<rparr> else c)
      in if fp \<in> fc_err_dirty c1
         then c1\<lparr>fc_err_dirty := fc_err_dirty c1 - {fp}, fc_dirty := insert fp (fc_dirty c1)\<rparr> else c1)"

definition file_close :: "file_checker \<Rightarrow> uint64_t \<Rightarrow> Result \<times> file_checker" where
  "file_close c fd =
     (let found = (fd \<in> fc_open c \<or> fd \<in> fc_err c \<or> fd \<in> fc_dirty c \<or> fd \<in> fc_err_dirty c);
          c' = \<lparr>fc_open = fc_open c - {fd}, fc_err = fc_err c - {fd}, fc_dirty = fc_dirty c - {fd},
                fc_err_dirty = fc_err_dirty c - {fd}\<rparr>
      in (if \<not> found then ERROR OR NEED_ARG0 else IMPORTANT OR NEED_ARG0, c'))"

text \<open>The effect of \<open>ferror\<close> on a stream, for a call in either world.\<close>

definition file_ferror :: "file_checker \<Rightarrow> uint64_t \<Rightarrow> uint64_t \<Rightarrow> file_checker" where
  "file_ferror c ret fp =
     (if ret \<noteq> 0 then
        (if fp \<in> fc_open c then c\<lparr>fc_open := fc_open c - {fp}, fc_err := insert fp (fc_err c)\<rparr>
         else if fp \<in> fc_err c \<or> fp \<in> fc_err_dirty c then c
         else if fp \<in> fc_dirty c then
           c\<lparr>fc_dirty := fc_dirty c - {fp}, fc_err_dirty := insert fp (fc_err_dirty c)\<rparr>
         else c)
      else c)"

definition file_use :: "file_checker \<Rightarrow> Result \<Rightarrow> uint64_t \<Rightarrow> Result \<times> file_checker" where
  "file_use c need_args fp =
     (if fp \<notin> fc_open c then
        (if fp \<in> fc_err c \<or> fp \<in> fc_err_dirty c then (ERROR OR need_args, c)
         else if fp \<in> fc_dirty c then (IMPORTANT OR need_args, c)
         else (ERROR OR need_args, c))
      else (IMPORTANT OR need_args, c\<lparr>fc_open := fc_open c - {fp}, fc_dirty := insert fp (fc_dirty c)\<rparr>))"

definition fd_index :: "string \<Rightarrow> nat option" where
  "fd_index funcname =
     (if funcname = ''fread'' \<or> funcname = ''fwrite'' \<or> funcname = ''fread_unlocked'' \<or>
         funcname = ''fwrite_unlocked'' then Some 3
      else if funcname = ''fputs'' \<or> funcname = ''fputs_unlocked'' then Some 1
      else if funcname = ''fgets'' \<or> funcname = ''fgets_unlocked'' then Some 2
      else if funcname = ''fprintf'' then Some 0
      else None)"

text \<open>
  A stream of the interpreted program is ignored when it is a standard stream or a fake one, with
  a negative file descriptor in its structure.
\<close>

definition is_fake_stream :: "executor \<Rightarrow> exec_state \<Rightarrow> expr \<Rightarrow> bool result" where
  "is_fake_stream E s e =
     (case e of
        ConstantExpr c \<Rightarrow>
          bind_result (of_option AssertionFailed (resolveOne (ex_env E) (es_addressSpace s) c)) (\<lambda>r.
            case r of
              None \<Rightarrow> Inr False
            | Some (mo, p) \<Rightarrow>
                bind_result (of_option UseAfterFree (oh_map (es_heap s) p)) (\<lambda>os.
                bind_result (of_option AssertionFailed
                    (read (ex_env E) (ex_context E) os (es_arrays s) 4 32)) (\<lambda>(fd_exp, _, _).
                  case fd_exp of
                    ConstantExpr d \<Rightarrow>
                      bind_result (of_option AssertionFailed (getZExtValue (ex_env E) 64 d)) (\<lambda>v.
                        Inr (sint (ucast v :: uint32_t) < 0))
                  | _ \<Rightarrow> Inr False)))
      | _ \<Rightarrow> Inr False)"

definition file_use_call :: "executor \<Rightarrow> file_checker \<Rightarrow> exec_state \<Rightarrow> nat \<Rightarrow> expr list \<Rightarrow> uint64_t list option \<Rightarrow>
    (Result \<times> file_checker) result" where
  "file_use_call E c s fd_idx arguments args =
     (let need_args = push_bit (fd_idx + NEED_ARG_BEGIN) 1 in
      case args of
        None \<Rightarrow>
          bind_result (vec_at arguments fd_idx) (\<lambda>op_fd.
          bind_result (is_stdio_stream E s op_fd) (\<lambda>stdio.
            if stdio then Inr (OK, c)
            else bind_result (is_fake_stream E s op_fd) (\<lambda>fake.
              if fake then Inr (OK, c)
              else bind_result (getIntFromExp E op_fd) (\<lambda>fp. Inr (file_use c need_args fp)))))
      | Some a \<Rightarrow>
          bind_result (vec_at a (2 + fd_idx)) (\<lambda>fp.
            if ex_fileno E fp < 0 then Inr (OK, c)
            else if ex_fileno E fp \<le> 2 \<and> ex_fileno E fp \<ge> 0 then Inr (OK, c)
            else Inr (file_use c need_args fp)))"

definition FileChecker_onCall :: "executor \<Rightarrow> file_checker \<Rightarrow> exec_state \<Rightarrow> string \<Rightarrow> expr list \<Rightarrow>
    uint64_t list option \<Rightarrow> (Result \<times> file_checker) result" where
  "FileChecker_onCall E c s funcname arguments args =
     (if funcname = ''clearerr'' \<or> funcname = ''clearerr_unlocked'' then
        bind_result
          (case args of
             Some a \<Rightarrow> vec_at a 2
           | None \<Rightarrow> bind_result (vec_at arguments 0) (getIntFromExp E))
          (\<lambda>fp. Inr (IMPORTANT OR NEED_ARG0, file_clearerr c fp))
      else if length funcname < 5 \<or> funcname ! 0 \<noteq> CHR ''f'' then Inr (OK, c)
      else if funcname = ''fopen'' \<or> funcname = ''fopen64'' \<or> funcname = ''fdopen'' then
        (case args of
           Some a \<Rightarrow>
             bind_result (vec_at a 0) (\<lambda>fd.
               Inr (IMPORTANT OR NEED_RET, if fd \<noteq> 0 then c\<lparr>fc_open := insert fd (fc_open c)\<rparr> else c))
         | None \<Rightarrow> Inr (OK, c))
      else if funcname = ''fclose'' then
        (case args of
           Some a \<Rightarrow> bind_result (vec_at a 2) (\<lambda>fd. Inr (file_close c fd))
         | None \<Rightarrow>
             bind_result (vec_at arguments 0) (\<lambda>close_fd.
             bind_result (is_stdio_stream E s close_fd) (\<lambda>stdio.
               if stdio then Inr (OK, c)
               else bind_result (getIntFromExp E close_fd) (\<lambda>fd. Inr (file_close c fd)))))
      else if funcname = ''ferror'' \<or> funcname = ''ferror_unlocked'' then
        (case args of
           Some a \<Rightarrow>
             bind_result (vec_at a 0) (\<lambda>ret.
             bind_result (vec_at a 2) (\<lambda>fp.
               Inr (IMPORTANT OR (NEED_RET OR NEED_ARG0), file_ferror c ret fp)))
         | None \<Rightarrow> Inr (IMPORTANT OR (NEED_RET OR NEED_ARG0), c))
      else (case fd_index funcname of
          None \<Rightarrow> Inr (OK, c)
        | Some fd_idx \<Rightarrow> file_use_call E c s fd_idx arguments args))"

definition FileChecker_onRet :: "executor \<Rightarrow> file_checker \<Rightarrow> exec_state \<Rightarrow> thread_state \<Rightarrow> kinst \<Rightarrow> expr \<Rightarrow>
    (Result \<times> file_checker) result" where
  "FileChecker_onRet E c s thr caller res =
     (case getTargetFunctionFromCaller E s caller of
        None \<Rightarrow> Inr (OK, c)
      | Some funcname \<Rightarrow>
          (if funcname = ''fopen'' \<or> funcname = ''fopen64'' \<or> funcname = ''fdopen'' then
             bind_result (getIntFromExp E res) (\<lambda>fp.
               Inr (IMPORTANT OR NEED_RET, if fp \<noteq> 0 then c\<lparr>fc_open := insert fp (fc_open c)\<rparr> else c))
           else if funcname = ''ferror'' \<or> funcname = ''ferror_unlocked'' then
             bind_result (getIntFromExp E res) (\<lambda>ret.
             bind_result (getIntFromExp E (getCallingArgument E thr caller 1)) (\<lambda>fp.
               Inr (IMPORTANT OR (NEED_RET OR NEED_ARG0), file_ferror c ret fp)))
           else Inr (OK, c)))"

definition FileChecker_report :: "file_checker \<Rightarrow> Result" where
  "FileChecker_report c =
     (let error = False;
          error1 = (if fc_dirty c \<noteq> {} then True else error);
          error2 = (if fc_err_dirty c \<noteq> {} then True else error1)
      in if error2 then ERROR else OK)"

section \<open>Specification: one automaton per stream\<close>

datatype stream_state = SClosed | SOpen | SErr | SDirty | SErrDirty

datatype stream_op = OpOpen | OpUse string | OpError bool | OpClear | OpClose

definition abs_stream :: "file_checker \<Rightarrow> uint64_t \<Rightarrow> stream_state" where
  "abs_stream c fp =
     (if fp \<in> fc_open c then SOpen else if fp \<in> fc_err c then SErr
      else if fp \<in> fc_dirty c then SDirty else if fp \<in> fc_err_dirty c then SErrDirty else SClosed)"

definition file_inv :: "file_checker \<Rightarrow> bool" where
  "file_inv c \<longleftrightarrow>
     fc_open c \<inter> fc_err c = {} \<and> fc_open c \<inter> fc_dirty c = {} \<and> fc_open c \<inter> fc_err_dirty c = {} \<and>
     fc_err c \<inter> fc_dirty c = {} \<and> fc_err c \<inter> fc_err_dirty c = {} \<and> fc_dirty c \<inter> fc_err_dirty c = {}"

text \<open>The successor of a state, with whether the operation is an error.\<close>

fun stream_next :: "stream_op \<Rightarrow> stream_state \<Rightarrow> bool \<times> stream_state" where
  "stream_next OpOpen q = (False, SOpen)"
| "stream_next (OpUse f) SOpen = (False, SDirty)"
| "stream_next (OpUse f) SDirty = (False, SDirty)"
| "stream_next (OpUse f) q = (True, q)"
| "stream_next (OpError True) SOpen = (False, SErr)"
| "stream_next (OpError True) SDirty = (False, SErrDirty)"
| "stream_next (OpError b) q = (False, q)"
| "stream_next OpClear SErr = (False, SOpen)"
| "stream_next OpClear SErrDirty = (False, SDirty)"
| "stream_next OpClear q = (False, q)"
| "stream_next OpClose SClosed = (True, SClosed)"
| "stream_next OpClose q = (False, SClosed)"

text \<open>The external call that performs an operation on the stream at address \<open>fp\<close>.\<close>

fun stream_call :: "stream_op \<Rightarrow> uint64_t \<Rightarrow> string \<times> uint64_t list" where
  "stream_call OpOpen fp = (''fopen'', [fp, 0])"
| "stream_call (OpUse f) fp = (f, [0, 0] @ replicate (the (fd_index f)) 0 @ [fp])"
| "stream_call (OpError b) fp = (''ferror'', [of_bool b, 0, fp])"
| "stream_call OpClear fp = (''clearerr'', [0, 0, fp])"
| "stream_call OpClose fp = (''fclose'', [0, 0, fp])"

text \<open>
  What the environment guarantees: \<open>fopen\<close> returns a non-null stream that is not in use, reading
  and writing functions are the ones the checker knows, and the stream is not a standard one.
\<close>

fun op_ok :: "executor \<Rightarrow> stream_op \<Rightarrow> uint64_t \<Rightarrow> stream_state \<Rightarrow> bool" where
  "op_ok E OpOpen fp q = (fp \<noteq> 0 \<and> q = SClosed)"
| "op_ok E (OpUse f) fp q = (fd_index f \<noteq> None \<and> ex_fileno E fp > 2)"
| "op_ok E _ fp q = True"

fun run_files :: "executor \<Rightarrow> exec_state \<Rightarrow> (stream_op \<times> uint64_t) list \<Rightarrow> file_checker \<Rightarrow> (Result list \<times> file_checker) result" where
  "run_files E s [] c = Inr ([], c)"
| "run_files E s ((op, fp) # ops) c =
     bind_result (FileChecker_onCall E c s (fst (stream_call op fp)) [] (Some (snd (stream_call op fp)))) (\<lambda>(r, c').
     bind_result (run_files E s ops c') (\<lambda>(rs, c''). Inr (r # rs, c'')))"

fun spec_files :: "(stream_op \<times> uint64_t) list \<Rightarrow> (uint64_t \<Rightarrow> stream_state) \<Rightarrow> bool list \<times> (uint64_t \<Rightarrow> stream_state)" where
  "spec_files [] \<sigma> = ([], \<sigma>)"
| "spec_files ((op, fp) # ops) \<sigma> =
     (let (e, q) = stream_next op (\<sigma> fp); (es, \<sigma>') = spec_files ops (\<sigma>(fp := q)) in (e # es, \<sigma>'))"

fun ops_ok :: "executor \<Rightarrow> (stream_op \<times> uint64_t) list \<Rightarrow> (uint64_t \<Rightarrow> stream_state) \<Rightarrow> bool" where
  "ops_ok E [] \<sigma> = True"
| "ops_ok E ((op, fp) # ops) \<sigma> =
     (op_ok E op fp (\<sigma> fp) \<and> ops_ok E ops (\<sigma>(fp := snd (stream_next op (\<sigma> fp)))))"

section \<open>Refinement\<close>

lemma onCall_use:
  "fd_index f = Some i \<Longrightarrow> FileChecker_onCall E c s f arguments args = file_use_call E c s i arguments args"
proof -
  assume i: "fd_index f = Some i"
  then have "f \<in> {''fread'', ''fwrite'', ''fread_unlocked'', ''fwrite_unlocked'', ''fputs'', ''fputs_unlocked'',
      ''fgets'', ''fgets_unlocked'', ''fprintf''}"
    by (auto simp: fd_index_def split: if_split_asm)
  then have "\<not> (f = ''clearerr'' \<or> f = ''clearerr_unlocked'') \<and> \<not> (length f < 5 \<or> f ! 0 \<noteq> CHR ''f'') \<and>
      \<not> (f = ''fopen'' \<or> f = ''fopen64'' \<or> f = ''fdopen'') \<and> f \<noteq> ''fclose'' \<and>
      \<not> (f = ''ferror'' \<or> f = ''ferror_unlocked'')"
    by (elim insertE emptyE) simp_all
  with i show ?thesis unfolding FileChecker_onCall_def by (simp only: if_False option.case)
qed

lemma file_use_error [simp]: "\<not> is_error (2 ^ (i + NEED_ARG_BEGIN))"
  by (simp add: is_error_odd NEED_ARG_BEGIN_def)

lemma file_step:
  assumes "file_inv c" "op_ok E op fp (abs_stream c fp)"
  shows "\<exists>r c'. FileChecker_onCall E c s (fst (stream_call op fp)) [] (Some (snd (stream_call op fp))) = Inr (r, c') \<and>
    file_inv c' \<and> is_error r = fst (stream_next op (abs_stream c fp)) \<and>
    abs_stream c' = (abs_stream c)(fp := snd (stream_next op (abs_stream c fp)))"
proof (cases op)
  case (OpUse f)
  with assms(2) obtain i where i: "fd_index f = Some i" and no: "ex_fileno E fp > 2" by auto
  have "FileChecker_onCall E c s f [] (Some ([0, 0] @ replicate i 0 @ [fp])) =
      Inr (file_use c (push_bit (i + NEED_ARG_BEGIN) 1) fp)"
    using no by (simp add: onCall_use [OF i] file_use_call_def Let_def nth_append)
  with OpUse i assms(1) show ?thesis
    by (auto simp: file_use_def abs_stream_def file_inv_def fun_eq_iff)
next
  case OpOpen
  with assms show ?thesis
    by (auto simp: FileChecker_onCall_def abs_stream_def file_inv_def fun_eq_iff split: if_splits)
next
  case (OpError b)
  with assms show ?thesis
    by (cases b) (auto simp: FileChecker_onCall_def file_ferror_def abs_stream_def file_inv_def fun_eq_iff)
next
  case OpClear
  with assms show ?thesis
    by (auto simp: FileChecker_onCall_def file_clearerr_def abs_stream_def file_inv_def fun_eq_iff Let_def)
next
  case OpClose
  with assms show ?thesis
    by (auto simp: FileChecker_onCall_def file_close_def abs_stream_def file_inv_def fun_eq_iff Let_def)
qed

lemma run_files_spec:
  assumes "file_inv c" "ops_ok E ops (abs_stream c)"
  shows "\<exists>rs c'. run_files E s ops c = Inr (rs, c') \<and> file_inv c' \<and>
    spec_files ops (abs_stream c) = (map is_error rs, abs_stream c')"
  using assms
proof (induction ops arbitrary: c)
  case (Cons x ops)
  obtain op fp where x: "x = (op, fp)" by fastforce
  with Cons.prems(2) have "op_ok E op fp (abs_stream c fp)" by simp
  from file_step [OF Cons.prems(1) this, of s] obtain r c' where
    step: "FileChecker_onCall E c s (fst (stream_call op fp)) [] (Some (snd (stream_call op fp))) = Inr (r, c')"
      "file_inv c'" "is_error r = fst (stream_next op (abs_stream c fp))"
      "abs_stream c' = (abs_stream c)(fp := snd (stream_next op (abs_stream c fp)))" by blast
  have "ops_ok E ops (abs_stream c')" using Cons.prems(2) x unfolding step(4) by simp
  from Cons.IH [OF step(2) this] obtain rs c'' where
    "run_files E s ops c' = Inr (rs, c'')" "file_inv c''"
    "spec_files ops (abs_stream c') = (map is_error rs, abs_stream c'')" by blast
  with x step show ?case by (simp add: case_prod_unfold)
qed simp

lemma file_new: "file_inv new_FileChecker" "abs_stream new_FileChecker = (\<lambda>_. SClosed)"
  by (simp_all add: file_inv_def new_FileChecker_def abs_stream_def fun_eq_iff)

lemma file_report_abs:
  "file_inv c \<Longrightarrow> is_error (FileChecker_report c) \<longleftrightarrow> (\<exists>fp. abs_stream c fp = SDirty \<or> abs_stream c fp = SErrDirty)"
  by (auto simp: FileChecker_report_def Let_def abs_stream_def file_inv_def disjoint_iff)



end
