(* ===== verification/FileObject.thy ===== *)
theory FileObject
  imports Checker
begin

text \<open>
  \<open>FileObject\<close> of \<open>BasicCheckers\<close>, the record three of the file checkers keep per file, and the
  way all handlers fetch an argument: from the host's argument array when the call is external, from
  the interpreter's expressions otherwise.
\<close>

section \<open>Files\<close>

datatype file_state = CLOSED | CLEAN | ACCESSED | LIB_BUFFERED | OS_BUFFERED

record file_object =
  fo_name :: string
  fo_fp :: uint64_t
  fo_fd :: uint64_t
  fo_state :: file_state
  fo_alloc :: alloc_info

definition new_FileObject :: "string \<Rightarrow> uint64_t \<Rightarrow> uint64_t \<Rightarrow> file_object" where
  "new_FileObject filename fp fd =
     \<lparr>fo_name = filename, fo_fp = fp, fo_fd = fd, fo_state = CLOSED, fo_alloc = new_AllocInfo None\<rparr>"

definition setFp :: "uint64_t \<Rightarrow> file_object \<Rightarrow> file_object" where
  "setFp fp f = f\<lparr>fo_fp := fp\<rparr>"

definition setFd :: "uint64_t \<Rightarrow> file_object \<Rightarrow> file_object" where
  "setFd fd f = f\<lparr>fo_fd := fd\<rparr>"

definition setName :: "string \<Rightarrow> file_object \<Rightarrow> file_object" where
  "setName name f = f\<lparr>fo_name := name\<rparr>"

text \<open>\<open>setState\<close> asserts that the value is one of the enumeration, which the type guarantees.\<close>

definition setState :: "file_state \<Rightarrow> file_object \<Rightarrow> file_object" where
  "setState st f = f\<lparr>fo_state := st\<rparr>"

definition setAllocInfo :: "alloc_info \<Rightarrow> file_object \<Rightarrow> file_object" where
  "setAllocInfo ai f = f\<lparr>fo_alloc := ai\<rparr>"

lemma file_fields [simp]:
  "fo_name (new_FileObject n p d) = n" "fo_fp (new_FileObject n p d) = p" "fo_fd (new_FileObject n p d) = d"
  "fo_name (setFp p f) = fo_name f" "fo_fp (setFp p f) = p" "fo_fd (setFp p f) = fo_fd f" "fo_state (setFp p f) = fo_state f"
  "fo_name (setFd d f) = fo_name f" "fo_fp (setFd d f) = fo_fp f" "fo_fd (setFd d f) = d" "fo_state (setFd d f) = fo_state f"
  "fo_name (setName n f) = n" "fo_fp (setName n f) = fo_fp f" "fo_fd (setName n f) = fo_fd f" "fo_state (setName n f) = fo_state f"
  "fo_name (setState s f) = fo_name f" "fo_fp (setState s f) = fo_fp f" "fo_fd (setState s f) = fo_fd f" "fo_state (setState s f) = s"
  "fo_alloc (setState s f) = fo_alloc f" "fo_alloc (setAllocInfo a f) = a" "fo_state (setAllocInfo a f) = fo_state f"
  "fo_name (setAllocInfo a f) = fo_name f" "fo_fd (setAllocInfo a f) = fo_fd f" "fo_fp (setAllocInfo a f) = fo_fp f"
  by (simp_all add: new_FileObject_def setFp_def setFd_def setName_def setState_def setAllocInfo_def)

section \<open>Arguments\<close>

definition int_arg :: "executor \<Rightarrow> expr list \<Rightarrow> uint64_t list option \<Rightarrow> nat \<Rightarrow> uint64_t result" where
  "int_arg E arguments args i =
     (case args of
        None \<Rightarrow> bind_result (vec_at arguments i) (getIntFromExp E)
      | Some a \<Rightarrow> vec_at a (2 + i))"

definition str_arg :: "executor \<Rightarrow> exec_state \<Rightarrow> expr list \<Rightarrow> uint64_t list option \<Rightarrow> nat \<Rightarrow> string result" where
  "str_arg E s arguments args i =
     (case args of
        None \<Rightarrow> bind_result (vec_at arguments i) (getStrFromCharPtr E s)
      | Some a \<Rightarrow> bind_result (vec_at a (2 + i)) (\<lambda>p. Inr (ex_cstring E p)))"

lemma int_arg_concrete [simp]: "2 + i < length a \<Longrightarrow> int_arg E arguments (Some a) i = Inr (a ! (2 + i))"
  by (simp add: int_arg_def)

lemma str_arg_concrete [simp]: "2 + i < length a \<Longrightarrow> str_arg E s arguments (Some a) i = Inr (ex_cstring E (a ! (2 + i)))"
  by (simp add: str_arg_def)

text \<open>A loop over a vector that changes the first element with a property and breaks.\<close>

fun update_first :: "('a \<Rightarrow> bool) \<Rightarrow> ('a \<Rightarrow> 'a) \<Rightarrow> 'a list \<Rightarrow> 'a list" where
  "update_first P f [] = []"
| "update_first P f (x # xs) = (if P x then f x # xs else x # update_first P f xs)"

lemma length_update_first [simp]: "length (update_first P f xs) = length xs"
  by (induction xs) simp_all

lemma update_first_nth:
  "i < length xs \<Longrightarrow> P (xs ! i) \<Longrightarrow> (\<And>j. j < i \<Longrightarrow> \<not> P (xs ! j)) \<Longrightarrow> update_first P f xs = xs[i := f (xs ! i)]"
proof (induction xs arbitrary: i)
  case (Cons x xs)
  show ?case
  proof (cases i)
    case 0
    with Cons.prems show ?thesis by simp
  next
    case (Suc k)
    have "\<not> P x" using Cons.prems(3) [of 0] Suc by simp
    moreover have "\<And>j. j < k \<Longrightarrow> \<not> P (xs ! j)" using Cons.prems(3) [of "Suc _"] Suc by auto
    ultimately show ?thesis using Cons.IH [of k] Cons.prems(1,2) Suc by simp
  qed
qed simp

end
