(* ===== verification/DataLossChecker.thy ===== *)
theory DataLossChecker
  imports FileObject
begin

text \<open>
  \<open>DataLossChecker\<close> of \<open>lib/Core/BasicCheckers.cpp\<close>: data written to a file must be flushed and
  synced before the file is renamed over another one, and a rename must not target a file that was
  just unlinked. The checker keeps a vector of files and a set of unlinked names.
\<close>

section \<open>The checker\<close>

record dataloss_checker =
  dl_files :: "file_object list"
  dl_unlinked :: "string set"

definition new_DataLossChecker :: dataloss_checker where
  "new_DataLossChecker = \<lparr>dl_files = [], dl_unlinked = {}\<rparr>"

definition DataLoss_mayBeEvent :: "string \<Rightarrow> bool" where
  "DataLoss_mayBeEvent funcname =
     (if funcname = ''fopen'' \<or> funcname = ''fopen64'' \<or> funcname = ''fdopen'' \<or> funcname = ''open'' \<or>
         funcname = ''open64'' \<or> funcname = ''fputs'' \<or> funcname = ''fputs_unlocked'' \<or> funcname = ''fwrite'' \<or>
         funcname = ''fwrite_unlocked'' \<or> funcname = ''fprintf'' \<or> funcname = ''fflush'' \<or>
         funcname = ''fflush_unlocked'' \<or> funcname = ''fsync'' \<or> funcname = ''fdatasync'' \<or>
         funcname = ''fileno'' \<or> funcname = ''fileno_unlocked'' \<or> funcname = ''fclose'' \<or>
         funcname = ''unlink'' \<or> funcname = ''creat'' \<or> funcname = ''rename''
      then True else False)"

definition DataLoss_wantConcrete :: "string \<Rightarrow> bool" where
  "DataLoss_wantConcrete funcname = DataLoss_mayBeEvent funcname"

definition O_CREAT :: uint64_t where "O_CREAT = 0x40"
definition O_WRONLY :: uint64_t where "O_WRONLY = 0x1"
definition O_TRUNC :: uint64_t where "O_TRUNC = 0x200"

definition DataLoss_parseFOpen :: "dataloss_checker \<Rightarrow> string \<Rightarrow> string \<Rightarrow> uint64_t \<Rightarrow> Result \<times> dataloss_checker" where
  "DataLoss_parseFOpen c filename mode fp =
     (if fp = 0 then (IMPORTANT, c)
      else if filename = [] \<or> mode = [] then (IMPORTANT, c)
      else
        (let c1 = (if length mode > 0 then
                     (if mode ! 0 \<noteq> CHR ''r'' then
                        (if filename \<in> dl_unlinked c then c\<lparr>dl_unlinked := dl_unlinked c - {filename}\<rparr> else c)
                      else c)
                   else c);
             file = setState CLEAN (new_FileObject filename fp (- 1))
         in (IMPORTANT, c1\<lparr>dl_files := dl_files c1 @ [file]\<rparr>)))"

text \<open>A failed \<open>open\<close> is recognised by the 32-bit value \<open>-1\<close>.\<close>

definition DataLoss_parseOpen :: "dataloss_checker \<Rightarrow> string \<Rightarrow> uint64_t \<Rightarrow> uint64_t \<Rightarrow> Result \<times> dataloss_checker" where
  "DataLoss_parseOpen c filename flag fd =
     (if fd = 0xFFFFFFFF then (IMPORTANT, c)
      else if filename = [] then (IMPORTANT, c)
      else
        (let c1 = (if flag AND O_CREAT \<noteq> 0 then
                     (if filename \<in> dl_unlinked c then c\<lparr>dl_unlinked := dl_unlinked c - {filename}\<rparr> else c)
                   else c);
             file = setState CLEAN (new_FileObject filename (- 1) fd)
         in (IMPORTANT, c1\<lparr>dl_files := dl_files c1 @ [file]\<rparr>)))"

text \<open>
  The search of \<open>parseFdOpen\<close>: the first file with the descriptor and no stream yet gets the
  stream (\<open>Inl\<close>); otherwise \<open>frec\<close> is the last file with the descriptor (\<open>Inr\<close>).
\<close>

fun fdopen_loop :: "uint64_t \<Rightarrow> uint64_t \<Rightarrow> file_object list \<Rightarrow> file_object list \<Rightarrow> file_object option \<Rightarrow>
    file_object list + file_object option" where
  "fdopen_loop fd fp seen [] frec = Inr frec"
| "fdopen_loop fd fp seen (f # fs) frec =
     (if fo_fd f = fd then
        (if fo_fp f = - 1 then Inl (seen @ setFp fp f # fs)
         else fdopen_loop fd fp (seen @ [f]) fs (Some f))
      else fdopen_loop fd fp (seen @ [f]) fs frec)"

definition DataLoss_parseFdOpen :: "dataloss_checker \<Rightarrow> uint64_t \<Rightarrow> string \<Rightarrow> uint64_t \<Rightarrow> Result \<times> dataloss_checker" where
  "DataLoss_parseFdOpen c fd mode fp =
     (if fp = 0 then (IMPORTANT, c)
      else (case fdopen_loop fd fp [] (dl_files c) None of
          Inl files \<Rightarrow> (IMPORTANT, c\<lparr>dl_files := files\<rparr>)
        | Inr (Some frec) \<Rightarrow>
            (IMPORTANT, c\<lparr>dl_files := dl_files c @ [setState CLEAN (new_FileObject (fo_name frec) fp fd)]\<rparr>)
        | Inr None \<Rightarrow>
            (IMPORTANT, c\<lparr>dl_files := dl_files c @ [setState CLEAN (new_FileObject [] fp fd)]\<rparr>)))"

definition fp_index :: "string \<Rightarrow> nat" where
  "fp_index funcname =
     (if funcname = ''fwrite'' \<or> funcname = ''fwrite_unlocked'' then 3
      else if funcname = ''fputs'' \<or> funcname = ''fputs_unlocked'' then 1
      else 0)"

definition dl_buffered :: "dataloss_checker \<Rightarrow> uint64_t \<Rightarrow> dataloss_checker" where
  "dl_buffered c fp = c\<lparr>dl_files := update_first (\<lambda>f. fo_fp f = fp) (setState LIB_BUFFERED) (dl_files c)\<rparr>"

definition dl_write :: "dataloss_checker \<Rightarrow> uint64_t \<Rightarrow> Result \<times> dataloss_checker" where
  "dl_write c fd =
     (if fd \<le> 2 then (OK, c)
      else (IMPORTANT OR NEED_ARG0, c\<lparr>dl_files := update_first (\<lambda>f. fo_fd f = fd)
              (\<lambda>f. if fo_state f = CLEAN then setState OS_BUFFERED f else f) (dl_files c)\<rparr>))"

definition dl_flush :: "dataloss_checker \<Rightarrow> string \<Rightarrow> uint64_t \<Rightarrow> dataloss_checker" where
  "dl_flush c funcname fp = c\<lparr>dl_files := update_first (\<lambda>f. fo_fp f = fp)
     (\<lambda>f. let f1 = (if fo_state f = LIB_BUFFERED then setState OS_BUFFERED f else f)
          in if funcname = ''fclose'' then setFd (- 1) (setFp (- 1) f1) else f1) (dl_files c)\<rparr>"

text \<open>The loop of \<open>close\<close> stops with an error at a file that still has a stream.\<close>

fun close_loop :: "uint64_t \<Rightarrow> file_object list \<Rightarrow> bool \<times> file_object list" where
  "close_loop fd [] = (False, [])"
| "close_loop fd (f # fs) =
     (if fo_fd f = fd then
        (if fo_fp f \<noteq> - 1 then (True, f # fs)
         else (let (e, fs') = close_loop fd fs in (e, setFd (- 1) f # fs')))
      else (let (e, fs') = close_loop fd fs in (e, f # fs')))"

definition dl_close :: "dataloss_checker \<Rightarrow> uint64_t \<Rightarrow> Result \<times> dataloss_checker" where
  "dl_close c fd =
     (let (e, files) = close_loop fd (dl_files c)
      in (if e then ERROR OR NEED_ARG0 else IMPORTANT OR NEED_ARG0, c\<lparr>dl_files := files\<rparr>))"

text \<open>
  The loop of \<open>fileno\<close>: it drops every other file with the descriptor and then writes to the
  index it started from, which may by now be another file or past the end.
\<close>

fun index_of :: "('a \<Rightarrow> bool) \<Rightarrow> 'a list \<Rightarrow> nat option" where
  "index_of P [] = None"
| "index_of P (x # xs) = (if P x then Some 0 else map_option Suc (index_of P xs))"

definition dl_fileno :: "dataloss_checker \<Rightarrow> uint64_t \<Rightarrow> uint64_t \<Rightarrow> dataloss_checker result" where
  "dl_fileno c fp fd =
     (case index_of (\<lambda>f. fo_fp f = fp) (dl_files c) of
        None \<Rightarrow> Inr c
      | Some i \<Rightarrow>
          (let files1 = (dl_files c)[i := setFd (- 1) (dl_files c ! i)];
               files2 = filter (\<lambda>f. fo_fd f \<noteq> fd) files1
           in if i < length files2 then Inr (c\<lparr>dl_files := files2[i := setFd fd (files2 ! i)]\<rparr>)
              else Inl OutOfBounds))"

definition dl_sync :: "dataloss_checker \<Rightarrow> uint64_t \<Rightarrow> dataloss_checker" where
  "dl_sync c fd = c\<lparr>dl_files := update_first (\<lambda>f. fo_fd f = fd)
     (\<lambda>f. if fo_state f = OS_BUFFERED then setState CLEAN f else f) (dl_files c)\<rparr>"

definition dl_unlink :: "dataloss_checker \<Rightarrow> string \<Rightarrow> dataloss_checker" where
  "dl_unlink c filename =
     (if filename = [] then c else c\<lparr>dl_unlinked := insert filename (dl_unlinked c)\<rparr>)"

fun rename_loop :: "string \<Rightarrow> string \<Rightarrow> file_object list \<Rightarrow> bool \<times> file_object list" where
  "rename_loop filename target [] = (False, [])"
| "rename_loop filename target (f # fs) =
     (if fo_name f = filename then
        (if fo_state f = LIB_BUFFERED then (True, f # fs)
         else if fo_state f = OS_BUFFERED then (True, f # fs)
         else (let (e, fs') = rename_loop filename target fs in (e, setName target f # fs')))
      else (let (e, fs') = rename_loop filename target fs in (e, f # fs')))"

definition dl_rename :: "dataloss_checker \<Rightarrow> string \<Rightarrow> string \<Rightarrow> Result \<times> dataloss_checker" where
  "dl_rename c filename target =
     (let need_args = NEED_ARG0 OR NEED_ARG1 in
      if filename = [] \<or> target = [] then (IMPORTANT OR need_args, c)
      else if target \<in> dl_unlinked c then (ERROR OR need_args, c)
      else
        (let c1 = (if filename \<noteq> target then c\<lparr>dl_unlinked := insert filename (dl_unlinked c)\<rparr> else c);
             (e, files) = rename_loop filename target (dl_files c1)
         in (if e then ERROR OR need_args else IMPORTANT OR need_args, c1\<lparr>dl_files := files\<rparr>)))"

definition DataLoss_onCall :: "executor \<Rightarrow> dataloss_checker \<Rightarrow> exec_state \<Rightarrow> string \<Rightarrow> expr list \<Rightarrow>
    uint64_t list option \<Rightarrow> (Result \<times> dataloss_checker) result" where
  "DataLoss_onCall E c s funcname arguments args =
     (if funcname = ''fopen'' \<or> funcname = ''fopen64'' then
        (let need_args = NEED_ARG0 OR NEED_ARG1 OR NEED_RET in
         case args of
           Some a \<Rightarrow>
             bind_result (str_arg E s arguments args 0) (\<lambda>filename.
             bind_result (str_arg E s arguments args 1) (\<lambda>mode.
             bind_result (vec_at a 0) (\<lambda>fp.
               (let (r, c') = DataLoss_parseFOpen c filename mode fp in Inr (r OR need_args, c')))))
         | None \<Rightarrow> Inr (IMPORTANT OR need_args, c))
      else if funcname = ''open'' \<or> funcname = ''open64'' then
        (let need_args = NEED_ARG0 OR NEED_ARG1 OR NEED_RET in
         case args of
           Some a \<Rightarrow>
             bind_result (str_arg E s arguments args 0) (\<lambda>filename.
             bind_result (vec_at a 3) (\<lambda>flag.
             bind_result (vec_at a 0) (\<lambda>fd.
               (let (r, c') = DataLoss_parseOpen c filename flag fd in Inr (r OR need_args, c')))))
         | None \<Rightarrow> Inr (IMPORTANT OR need_args, c))
      else if funcname = ''creat'' then
        (case args of
           Some a \<Rightarrow>
             bind_result (str_arg E s arguments args 0) (\<lambda>filename.
             bind_result (vec_at a 0) (\<lambda>fd.
               (let (r, c') = DataLoss_parseOpen c filename (O_WRONLY OR O_CREAT OR O_TRUNC) fd
                in Inr (r OR (NEED_RET OR NEED_ARG0), c'))))
         | None \<Rightarrow> Inr (IMPORTANT, c))
      else if funcname = ''fputs'' \<or> funcname = ''fputs_unlocked'' \<or> funcname = ''fprintf'' \<or>
              funcname = ''fwrite'' \<or> funcname = ''fwrite_unlocked'' then
        bind_result (int_arg E arguments args (fp_index funcname)) (\<lambda>fp.
          Inr (IMPORTANT OR push_bit (fp_index funcname + NEED_ARG_BEGIN) 1, dl_buffered c fp))
      else if funcname = ''fdopen'' then
        (let need_args = NEED_ARG0 OR NEED_ARG1 OR NEED_RET in
         case args of
           Some a \<Rightarrow>
             bind_result (vec_at a 0) (\<lambda>fp.
             bind_result (vec_at a 2) (\<lambda>fd.
             bind_result (str_arg E s arguments args 1) (\<lambda>mode.
               (let (r, c') = DataLoss_parseFdOpen c fd mode fp in Inr (r OR need_args, c')))))
         | None \<Rightarrow> Inr (IMPORTANT OR need_args, c))
      else if funcname = ''write'' then
        bind_result (int_arg E arguments args 0) (\<lambda>fd.
        bind_result (int_arg E arguments args 2) (\<lambda>write_len. Inr (dl_write c fd)))
      else if funcname = ''fflush'' \<or> funcname = ''fflush_unlocked'' \<or> funcname = ''fclose'' then
        bind_result (int_arg E arguments args 0) (\<lambda>fp. Inr (IMPORTANT OR NEED_ARG0, dl_flush c funcname fp))
      else if funcname = ''close'' then
        bind_result (int_arg E arguments args 0) (\<lambda>fd. Inr (dl_close c fd))
      else if funcname = ''fileno'' \<or> funcname = ''fileno_unlocked'' then
        (let need_args = NEED_ARG0 OR NEED_RET in
         case args of
           Some a \<Rightarrow>
             bind_result (vec_at a 2) (\<lambda>fp.
             bind_result (vec_at a 0) (\<lambda>fd.
             bind_result (dl_fileno c fp fd) (\<lambda>c'. Inr (IMPORTANT OR need_args, c'))))
         | None \<Rightarrow> Inr (IMPORTANT OR need_args, c))
      else if funcname = ''fsync'' \<or> funcname = ''fdatasync'' then
        bind_result (int_arg E arguments args 0) (\<lambda>fd. Inr (IMPORTANT OR NEED_ARG0, dl_sync c fd))
      else if funcname = ''unlink'' then
        bind_result (str_arg E s arguments args 0) (\<lambda>filename. Inr (IMPORTANT OR NEED_ARG0, dl_unlink c filename))
      else if funcname = ''rename'' then
        bind_result (str_arg E s arguments args 0) (\<lambda>filename.
        bind_result (str_arg E s arguments args 1) (\<lambda>target. Inr (dl_rename c filename target)))
      else Inr (OK, c))"

definition DataLoss_onRet :: "executor \<Rightarrow> dataloss_checker \<Rightarrow> exec_state \<Rightarrow> thread_state \<Rightarrow> kinst \<Rightarrow> expr \<Rightarrow>
    (Result \<times> dataloss_checker) result" where
  "DataLoss_onRet E c s thr caller res =
     (case getTargetFunctionFromCaller E s caller of
        None \<Rightarrow> Inr (OK, c)
      | Some funcname \<Rightarrow>
          (if funcname = ''fopen'' \<or> funcname = ''fopen64'' then
             bind_result (getStrFromCharPtr E s (getCallingArgument E thr caller 1)) (\<lambda>filename.
             bind_result (getStrFromCharPtr E s (getCallingArgument E thr caller 2)) (\<lambda>mode.
             bind_result (getIntFromExp E res) (\<lambda>fp.
               (let (r, c') = DataLoss_parseFOpen c filename mode fp
                in Inr (r OR (NEED_ARG0 OR NEED_ARG1 OR NEED_RET), c')))))
           else if funcname = ''open'' \<or> funcname = ''open64'' then
             bind_result (getStrFromCharPtr E s (getCallingArgument E thr caller 1)) (\<lambda>filename.
             bind_result (getIntFromExp E (getCallingArgument E thr caller 2)) (\<lambda>flag.
             bind_result (getIntFromExp E res) (\<lambda>fd.
               (let (r, c') = DataLoss_parseOpen c filename flag fd
                in Inr (r OR (NEED_ARG0 OR NEED_ARG1 OR NEED_RET), c')))))
           else if funcname = ''creat'' then
             bind_result (getStrFromCharPtr E s (getCallingArgument E thr caller 1)) (\<lambda>filename.
             bind_result (getIntFromExp E res) (\<lambda>fd.
               (let (r, c') = DataLoss_parseOpen c filename (O_WRONLY OR O_CREAT OR O_TRUNC) fd
                in Inr (r OR (NEED_ARG0 OR NEED_RET), c'))))
           else if funcname = ''fdopen'' then
             bind_result (getIntFromExp E res) (\<lambda>fp.
             bind_result (getIntFromExp E (getCallingArgument E thr caller 1)) (\<lambda>fd.
             bind_result (getStrFromCharPtr E s (getCallingArgument E thr caller 2)) (\<lambda>mode.
               (let (r, c') = DataLoss_parseFdOpen c fd mode fp
                in Inr (r OR (NEED_RET OR NEED_ARG0 OR NEED_ARG1), c')))))
           else if funcname = ''fileno'' \<or> funcname = ''fileno_unlocked'' then
             bind_result (getIntFromExp E (getCallingArgument E thr caller 1)) (\<lambda>fp.
             bind_result (getIntFromExp E res) (\<lambda>fd.
             bind_result (dl_fileno c fp fd) (\<lambda>c'. Inr (IMPORTANT OR (NEED_RET OR NEED_ARG0), c'))))
           else Inr (OK, c)))"

definition DataLoss_report :: "dataloss_checker \<Rightarrow> Result" where
  "DataLoss_report c = OK"

section \<open>Specification: when the data of a file is durable\<close>

text \<open>
  The operations on open files, as the calls the handler sees. \<open>io_of\<close> reads the function name and
  the argument array; a write to one of the three standard descriptors is no operation on a file.
\<close>

datatype io = Put uint64_t | Write uint64_t | Flush uint64_t | Sync uint64_t | FClose uint64_t

definition io_of :: "string \<Rightarrow> uint64_t list \<Rightarrow> io option" where
  "io_of funcname a =
     (if length a < 6 then None
      else if funcname = ''fputs'' \<or> funcname = ''fputs_unlocked'' then Some (Put (a ! 3))
      else if funcname = ''fprintf'' then Some (Put (a ! 2))
      else if funcname = ''fwrite'' \<or> funcname = ''fwrite_unlocked'' then Some (Put (a ! 5))
      else if funcname = ''write'' then (if a ! 2 \<le> 2 then None else Some (Write (a ! 2)))
      else if funcname = ''fflush'' \<or> funcname = ''fflush_unlocked'' then Some (Flush (a ! 2))
      else if funcname = ''fsync'' \<or> funcname = ''fdatasync'' then Some (Sync (a ! 2))
      else if funcname = ''fclose'' then Some (FClose (a ! 2))
      else None)"

fun io_key :: "io \<Rightarrow> uint64_t" where
  "io_key (Put k) = k"
| "io_key (Write k) = k"
| "io_key (Flush k) = k"
| "io_key (Sync k) = k"
| "io_key (FClose k) = k"

text \<open>An operation on the data of one file, and the one that a call is for a given file.\<close>

datatype data_op = DPut | DWrite | DFlush | DSync

fun op_on :: "io \<Rightarrow> file_object \<Rightarrow> data_op option" where
  "op_on (Put k) f = (if fo_fp f = k then Some DPut else None)"
| "op_on (Write k) f = (if fo_fd f = k then Some DWrite else None)"
| "op_on (Flush k) f = (if fo_fp f = k then Some DFlush else None)"
| "op_on (Sync k) f = (if fo_fd f = k then Some DSync else None)"
| "op_on (FClose k) f = (if fo_fp f = k then Some DFlush else None)"

text \<open>The operations on one file among those of a run; nothing reaches it once it is closed.\<close>

fun ops_on :: "io list \<Rightarrow> file_object \<Rightarrow> data_op list" where
  "ops_on [] f = []"
| "ops_on (e # es) f =
     (if e = FClose (fo_fp f) then [DFlush]
      else (case op_on e f of None \<Rightarrow> ops_on es f | Some d \<Rightarrow> d # ops_on es f))"

text \<open>
  The data is durable when everything written through the descriptor is followed by a sync, and
  everything put into the stream by a flush that is followed by a sync.
\<close>

definition durable :: "data_op list \<Rightarrow> bool" where
  "durable ds \<longleftrightarrow>
     (\<forall>us vs. ds = us @ DWrite # vs \<longrightarrow> DSync \<in> set vs) \<and>
     (\<forall>us vs. ds = us @ DPut # vs \<longrightarrow> (\<exists>ws xs. vs = ws @ DFlush # xs \<and> DSync \<in> set xs))"

fun data_next :: "data_op \<Rightarrow> file_state \<Rightarrow> file_state" where
  "data_next DPut q = LIB_BUFFERED"
| "data_next DWrite q = (if q = CLEAN then OS_BUFFERED else q)"
| "data_next DFlush q = (if q = LIB_BUFFERED then OS_BUFFERED else q)"
| "data_next DSync q = (if q = OS_BUFFERED then CLEAN else q)"

definition file_step :: "io \<Rightarrow> file_object \<Rightarrow> file_object" where
  "file_step e f =
     (let g = (case op_on e f of None \<Rightarrow> f | Some d \<Rightarrow> setState (data_next d (fo_state f)) f)
      in if e = FClose (fo_fp f) then setFd (- 1) (setFp (- 1) g) else g)"

text \<open>No two files share a stream or a descriptor; \<open>-1\<close> stands for none.\<close>

definition dl_inv :: "dataloss_checker \<Rightarrow> bool" where
  "dl_inv c \<longleftrightarrow>
     distinct (filter (\<lambda>p. p \<noteq> - 1) (map fo_fp (dl_files c))) \<and>
     distinct (filter (\<lambda>d. d \<noteq> - 1) (map fo_fd (dl_files c)))"

fun DataLoss_run :: "executor \<Rightarrow> exec_state \<Rightarrow> (string \<times> uint64_t list) list \<Rightarrow> dataloss_checker \<Rightarrow>
    dataloss_checker result" where
  "DataLoss_run E s [] c = Inr c"
| "DataLoss_run E s ((funcname, a) # es) c =
     bind_result (DataLoss_onCall E c s funcname [] (Some a)) (\<lambda>(r, c'). DataLoss_run E s es c')"

section \<open>The handler implements the per-file automaton\<close>

lemma distinct_key_map:
  "distinct (filter (\<lambda>p. p \<noteq> k0) (map key xs)) \<Longrightarrow> k \<noteq> k0 \<Longrightarrow>
   update_first (\<lambda>x. key x = k) g xs = map (\<lambda>x. if key x = k then g x else x) xs"
proof (induction xs)
  case (Cons x xs)
  show ?case
  proof (cases "key x = k")
    case True
    with Cons.prems have "k \<notin> key ` set xs" by auto
    then have "map (\<lambda>x. if key x = k then g x else x) xs = xs" by (intro map_idI) auto
    with True show ?thesis by simp
  next
    case False
    with Cons show ?thesis by (simp split: if_splits)
  qed
qed simp

lemma dl_inv_fp: "dl_inv c \<Longrightarrow> k \<noteq> - 1 \<Longrightarrow>
    update_first (\<lambda>f. fo_fp f = k) g (dl_files c) = map (\<lambda>f. if fo_fp f = k then g f else f) (dl_files c)"
  unfolding dl_inv_def by (rule distinct_key_map) simp_all

lemma dl_inv_fd: "dl_inv c \<Longrightarrow> k \<noteq> - 1 \<Longrightarrow>
    update_first (\<lambda>f. fo_fd f = k) g (dl_files c) = map (\<lambda>f. if fo_fd f = k then g f else f) (dl_files c)"
  unfolding dl_inv_def by (rule distinct_key_map) simp_all

lemma setState_same [simp]: "setState (fo_state f) f = f"
  by (simp add: setState_def)

lemma file_step_io:
  "file_step (Put k) = (\<lambda>f. if fo_fp f = k then setState LIB_BUFFERED f else f)"
  "file_step (Write k) = (\<lambda>f. if fo_fd f = k then (if fo_state f = CLEAN then setState OS_BUFFERED f else f) else f)"
  "file_step (Flush k) = (\<lambda>f. if fo_fp f = k then (if fo_state f = LIB_BUFFERED then setState OS_BUFFERED f else f) else f)"
  "file_step (Sync k) = (\<lambda>f. if fo_fd f = k then (if fo_state f = OS_BUFFERED then setState CLEAN f else f) else f)"
  "file_step (FClose k) = (\<lambda>f. if fo_fp f = k
     then setFd (- 1) (setFp (- 1) (if fo_state f = LIB_BUFFERED then setState OS_BUFFERED f else f)) else f)"
  by (auto simp: file_step_def fun_eq_iff)

lemma io_of_cases:
  assumes "io_of funcname a = Some e"
  obtains "6 \<le> length a" "funcname = ''fputs'' \<or> funcname = ''fputs_unlocked''" "e = Put (a ! 3)"
  | "6 \<le> length a" "funcname = ''fprintf''" "e = Put (a ! 2)"
  | "6 \<le> length a" "funcname = ''fwrite'' \<or> funcname = ''fwrite_unlocked''" "e = Put (a ! 5)"
  | "6 \<le> length a" "funcname = ''write''" "\<not> a ! 2 \<le> 2" "e = Write (a ! 2)"
  | "6 \<le> length a" "funcname = ''fflush'' \<or> funcname = ''fflush_unlocked''" "e = Flush (a ! 2)"
  | "6 \<le> length a" "funcname = ''fsync'' \<or> funcname = ''fdatasync''" "e = Sync (a ! 2)"
  | "6 \<le> length a" "funcname = ''fclose''" "e = FClose (a ! 2)"
  using assms that unfolding io_of_def not_less [symmetric]
  by (simp only: option.inject option.distinct simp_thms split: if_split_asm)

lemmas dl_ops = DataLoss_onCall_def fp_index_def dl_buffered_def dl_write_def dl_flush_def dl_sync_def

lemma onCall_io:
  assumes c: "dl_inv c" and e: "io_of funcname a = Some e" "io_key e \<noteq> - 1"
  shows "\<exists>r. DataLoss_onCall E c s funcname [] (Some a) =
           Inr (r, c\<lparr>dl_files := map (file_step e) (dl_files c)\<rparr>)"
  using e(1)
proof (cases rule: io_of_cases)
  case 1
  with e(2) show ?thesis by (elim disjE) (simp_all add: dl_ops dl_inv_fp [OF c] file_step_io)
next
  case 2
  with e(2) show ?thesis by (simp add: dl_ops dl_inv_fp [OF c] file_step_io)
next
  case 3
  with e(2) show ?thesis by (elim disjE) (simp_all add: dl_ops dl_inv_fp [OF c] file_step_io)
next
  case 4
  with e(2) show ?thesis by (simp add: dl_ops dl_inv_fd [OF c] file_step_io)
next
  case 5
  with e(2) show ?thesis by (elim disjE) (simp_all add: dl_ops dl_inv_fp [OF c] file_step_io Let_def)
next
  case 6
  with e(2) show ?thesis by (elim disjE) (simp_all add: dl_ops dl_inv_fd [OF c] file_step_io)
next
  case 7
  with e(2) show ?thesis by (simp add: dl_ops dl_inv_fp [OF c] file_step_io Let_def)
qed

lemma distinct_filter_map_drop:
  "distinct (filter (\<lambda>p. p \<noteq> k0) (map key xs)) \<Longrightarrow> (\<And>x. key (g x) = key x \<or> key (g x) = k0) \<Longrightarrow>
   distinct (filter (\<lambda>p. p \<noteq> k0) (map key (map g xs)))"
proof (induction xs)
  case (Cons x xs)
  have sub: "set (filter (\<lambda>p. p \<noteq> k0) (map key (map g xs))) \<subseteq> set (filter (\<lambda>p. p \<noteq> k0) (map key xs))"
  proof
    fix p assume "p \<in> set (filter (\<lambda>p. p \<noteq> k0) (map key (map g xs)))"
    then obtain y where "y \<in> set xs" "p = key (g y)" "p \<noteq> k0" by auto
    with Cons.prems(2) [of y] show "p \<in> set (filter (\<lambda>p. p \<noteq> k0) (map key xs))" by auto
  qed
  have "distinct (filter (\<lambda>p. p \<noteq> k0) (map key (map g xs)))"
    by (rule Cons.IH [OF _ Cons.prems(2)]) (use Cons.prems(1) in \<open>simp split: if_splits\<close>)
  moreover have "key (g x) \<notin> set (filter (\<lambda>p. p \<noteq> k0) (map key (map g xs)))" if k: "key (g x) \<noteq> k0"
  proof -
    have "key (g x) = key x" using Cons.prems(2) [of x] k by simp
    with k Cons.prems(1) have "key (g x) \<notin> set (filter (\<lambda>p. p \<noteq> k0) (map key xs))" by simp
    with sub show ?thesis by blast
  qed
  ultimately show ?case by simp
qed simp

lemma file_step_keys:
  "fo_fp (file_step e f) = fo_fp f \<or> fo_fp (file_step e f) = - 1"
  "fo_fd (file_step e f) = fo_fd f \<or> fo_fd (file_step e f) = - 1"
  "fo_name (file_step e f) = fo_name f"
  by (simp_all add: file_step_def Let_def split: option.split)

lemma dl_inv_step: "dl_inv c \<Longrightarrow> dl_inv (c\<lparr>dl_files := map (file_step e) (dl_files c)\<rparr>)"
  using distinct_filter_map_drop [of "- 1" fo_fp _ "file_step e", OF _ file_step_keys(1)]
    distinct_filter_map_drop [of "- 1" fo_fd _ "file_step e", OF _ file_step_keys(2)]
  by (simp add: dl_inv_def)

lemma run_io:
  assumes "dl_inv c" "map (\<lambda>(f, a). io_of f a) calls = map Some es" "\<forall>e \<in> set es. io_key e \<noteq> - 1"
  shows "DataLoss_run E s calls c = Inr (c\<lparr>dl_files := map (fold file_step es) (dl_files c)\<rparr>)"
  using assms
proof (induction calls arbitrary: c es)
  case Nil
  then show ?case by (simp add: id_def)
next
  case (Cons call calls)
  obtain f a where call: "call = (f, a)" by (cases call)
  with Cons.prems(2) obtain e es' where es: "es = e # es'" "io_of f a = Some e"
    "map (\<lambda>(f, a). io_of f a) calls = map Some es'" by (cases es) auto
  define c1 where "c1 = c\<lparr>dl_files := map (file_step e) (dl_files c)\<rparr>"
  from onCall_io [OF Cons.prems(1) es(2), of E s] Cons.prems(3) es(1)
  obtain r where r: "DataLoss_onCall E c s f [] (Some a) = Inr (r, c1)" by (auto simp: c1_def)
  have "DataLoss_run E s calls c1 = Inr (c1\<lparr>dl_files := map (fold file_step es') (dl_files c1)\<rparr>)"
    using Cons.IH [OF _ es(3)] dl_inv_step [OF Cons.prems(1), of e] Cons.prems(3) es(1) by (simp add: c1_def)
  then show ?case by (simp add: call r es(1) c1_def)
qed

lemma fold_name [simp]: "fo_name (fold file_step es f) = fo_name f"
  by (induction es arbitrary: f) (simp_all add: file_step_keys)

lemma closed_step [simp]:
  "io_key e \<noteq> - 1 \<Longrightarrow> fo_fp f = - 1 \<Longrightarrow> fo_fd f = - 1 \<Longrightarrow> file_step e f = f"
  by (cases e) (auto simp: file_step_def)

lemma closed_fold: "\<forall>e \<in> set es. io_key e \<noteq> - 1 \<Longrightarrow> fo_fp f = - 1 \<Longrightarrow> fo_fd f = - 1 \<Longrightarrow> fold file_step es f = f"
  by (induction es) simp_all

lemma op_on_cong: "fo_fp f = fo_fp g \<Longrightarrow> fo_fd f = fo_fd g \<Longrightarrow> op_on e f = op_on e g"
  by (cases e) simp_all

lemma ops_on_cong: "fo_fp f = fo_fp g \<Longrightarrow> fo_fd f = fo_fd g \<Longrightarrow> ops_on es f = ops_on es g"
  by (induction es) (simp_all add: op_on_cong [of f g] split: option.split)

lemma step_state:
  "fo_state (file_step e f) = (case op_on e f of None \<Rightarrow> fo_state f | Some d \<Rightarrow> data_next d (fo_state f))"
  by (simp add: file_step_def Let_def split: option.split)

lemma fold_state:
  "\<forall>e \<in> set es. io_key e \<noteq> - 1 \<Longrightarrow> fo_state (fold file_step es f) = fold data_next (ops_on es f) (fo_state f)"
proof (induction es arbitrary: f)
  case (Cons e es)
  show ?case
  proof (cases "e = FClose (fo_fp f)")
    case True
    then have "fold file_step es (file_step e f) = file_step e f"
      using Cons.prems by (intro closed_fold) (simp_all add: file_step_def Let_def)
    with True show ?thesis by (simp add: step_state)
  next
    case False
    have "ops_on es (file_step e f) = ops_on es f"
      by (rule ops_on_cong) (use False in \<open>simp_all add: file_step_def Let_def split: option.split\<close>)
    with False Cons show ?thesis by (simp add: step_state split: option.split)
  qed
qed simp

lemma snoc_split_all:
  "(\<forall>us vs. ds @ [x] = us @ d # vs \<longrightarrow> P vs) \<longleftrightarrow>
   (d = x \<longrightarrow> P []) \<and> (\<forall>us vs. ds = us @ d # vs \<longrightarrow> P (vs @ [x]))" (is "?l \<longleftrightarrow> ?r")
proof
  assume l: ?l
  have "P (vs @ [x])" if "ds = us @ d # vs" for us vs
    using l [rule_format, of us "vs @ [x]"] that by simp
  with l [rule_format, of ds "[]"] show ?r by blast
next
  assume r: ?r
  have "P vs" if e: "ds @ [x] = us @ d # vs" for us vs
  proof (cases vs rule: rev_cases)
    case Nil
    with e r show ?thesis by simp
  next
    case (snoc ws y)
    with e r show ?thesis by simp
  qed
  then show ?l by blast
qed

lemma snoc_split_ex:
  "(\<exists>us vs. ds @ [x] = us @ d # vs \<and> P vs) \<longleftrightarrow>
   (d = x \<and> P []) \<or> (\<exists>us vs. ds = us @ d # vs \<and> P (vs @ [x]))"
  using snoc_split_all [of ds x d "\<lambda>vs. \<not> P vs"] by blast

definition flushed :: "data_op list \<Rightarrow> bool" where
  "flushed ds \<longleftrightarrow> (\<forall>us vs. ds = us @ DPut # vs \<longrightarrow> DFlush \<in> set vs)"

lemma flushed_snoc:
  "flushed (ds @ [d]) = (case d of DPut \<Rightarrow> False | DFlush \<Rightarrow> True | _ \<Rightarrow> flushed ds)"
  unfolding flushed_def by (cases d) (simp_all add: snoc_split_all)

lemma durable_snoc:
  "durable (ds @ [d]) = (case d of DFlush \<Rightarrow> durable ds | DSync \<Rightarrow> flushed ds | _ \<Rightarrow> False)"
  unfolding durable_def flushed_def
  by (cases d) (simp_all add: snoc_split_all snoc_split_ex in_set_conv_decomp [of DFlush])

lemma data_state:
  "fold data_next ds CLEAN =
     (if durable ds then CLEAN else if flushed ds then OS_BUFFERED else LIB_BUFFERED)
   \<and> (durable ds \<longrightarrow> flushed ds)"
proof (induction ds rule: rev_induct)
  case Nil
  show ?case by (simp add: durable_def flushed_def)
next
  case (snoc d ds)
  then show ?case by (cases d) (auto simp: durable_snoc flushed_snoc)
qed

lemma rename_loop_error:
  "fst (rename_loop n t files) \<longleftrightarrow>
     (\<exists>f \<in> set files. fo_name f = n \<and> (fo_state f = LIB_BUFFERED \<or> fo_state f = OS_BUFFERED))"
  by (induction files) (auto simp: case_prod_beta Let_def)

lemma is_error_mask [simp]:
  "is_error (ERROR OR (NEED_ARG0 OR NEED_ARG1))" "\<not> is_error (IMPORTANT OR (NEED_ARG0 OR NEED_ARG1))"
  by (simp_all add: is_error_def result_defs)

lemma dl_rename_error:
  "n \<noteq> [] \<Longrightarrow> t \<noteq> [] \<Longrightarrow>
   is_error (fst (dl_rename c n t)) \<longleftrightarrow> t \<in> dl_unlinked c \<or>
     (\<exists>f \<in> set (dl_files c). fo_name f = n \<and> (fo_state f = LIB_BUFFERED \<or> fo_state f = OS_BUFFERED))"
  using rename_loop_error [of n t "dl_files c"] by (auto simp: dl_rename_def Let_def case_prod_beta)
section \<open>Properties\<close>

lemma onCall_rename:
  "3 < length a \<Longrightarrow> DataLoss_onCall E c s ''rename'' [] (Some a) =
     Inr (dl_rename c (ex_cstring E (a ! 2)) (ex_cstring E (a ! 3)))"
  by (simp add: DataLoss_onCall_def)

lemma not_durable_state:
  "fo_state f = CLEAN \<Longrightarrow> \<forall>e \<in> set es. io_key e \<noteq> - 1 \<Longrightarrow>
   (fo_state (fold file_step es f) = LIB_BUFFERED \<or> fo_state (fold file_step es f) = OS_BUFFERED) \<longleftrightarrow>
     \<not> durable (ops_on es f)"
  using data_state [of "ops_on es f"] by (simp add: fold_state)



lemma index_of_fresh:
  "\<forall>x \<in> set xs. \<not> P x \<Longrightarrow> P y \<Longrightarrow> index_of P (xs @ [y]) = Some (length xs)"
  by (induction xs) simp_all



end
