(* ===== verification/CheckerRuns.thy ===== *)
theory CheckerRuns
  imports FileObject
begin

text \<open>
  What the event checkers have in common: a handler is a step on the checker's state, a path is a
  sequence of events, and the specification is a step on an abstract state that says whether the
  event is an error. The locale \<open>event_checker\<close> is the contract of one event; its lemma lifts it
  to paths. The end-of-path report over a map of allocation records is treated here too.
\<close>

section \<open>Paths of events\<close>

fun run_events :: "('ev \<Rightarrow> 'c \<Rightarrow> (Result \<times> 'c) result) \<Rightarrow> 'ev list \<Rightarrow> 'c \<Rightarrow> (Result list \<times> 'c) result" where
  "run_events step [] c = Inr ([], c)"
| "run_events step (ev # evs) c =
     bind_result (step ev c) (\<lambda>(r, c').
     bind_result (run_events step evs c') (\<lambda>(rs, c''). Inr (r # rs, c'')))"

text \<open>The specification of an event may demand a fault, \<open>Inl\<close>.\<close>

fun spec_events :: "('ev \<Rightarrow> 'a \<Rightarrow> (bool \<times> 'a) result) \<Rightarrow> 'ev list \<Rightarrow> 'a \<Rightarrow> (bool list \<times> 'a) result" where
  "spec_events spec [] a = Inr ([], a)"
| "spec_events spec (ev # evs) a =
     bind_result (spec ev a) (\<lambda>(e, a').
     bind_result (spec_events spec evs a') (\<lambda>(es, a''). Inr (e # es, a'')))"

text \<open>What is visible of an outcome: the error flags and the abstract state, or the fault.\<close>

definition abs_step :: "('c \<Rightarrow> 'a) \<Rightarrow> (Result \<times> 'c) result \<Rightarrow> (bool \<times> 'a) result" where
  "abs_step \<alpha> x = bind_result x (\<lambda>(r, c). Inr (is_error r, \<alpha> c))"

definition abs_run :: "('c \<Rightarrow> 'a) \<Rightarrow> (Result list \<times> 'c) result \<Rightarrow> (bool list \<times> 'a) result" where
  "abs_run \<alpha> x = bind_result x (\<lambda>(rs, c). Inr (map is_error rs, \<alpha> c))"

lemma abs_simps [simp]:
  "abs_step \<alpha> (Inl f) = Inl f" "abs_step \<alpha> (Inr (r, c)) = Inr (is_error r, \<alpha> c)"
  "abs_run \<alpha> (Inl f) = Inl f" "abs_run \<alpha> (Inr (rs, c)) = Inr (map is_error rs, \<alpha> c)"
  by (simp_all add: abs_step_def abs_run_def)

lemma abs_run_Inr:
  "abs_run \<alpha> x = Inr (es, a) \<Longrightarrow> \<exists>rs c. x = Inr (rs, c) \<and> es = map is_error rs \<and> a = \<alpha> c"
  by (cases x) auto

locale event_checker =
  fixes step :: "'ev \<Rightarrow> 'c \<Rightarrow> (Result \<times> 'c) result"
    and inv :: "'c \<Rightarrow> bool"
    and \<alpha> :: "'c \<Rightarrow> 'a"
    and spec :: "'ev \<Rightarrow> 'a \<Rightarrow> (bool \<times> 'a) result"
    and ok :: "'ev \<Rightarrow> bool"
  assumes step_refines: "inv c \<Longrightarrow> ok ev \<Longrightarrow> abs_step \<alpha> (step ev c) = spec ev (\<alpha> c)"
    and step_inv: "inv c \<Longrightarrow> ok ev \<Longrightarrow> step ev c = Inr (r, c') \<Longrightarrow> inv c'"
begin

lemma run_inv: "inv c \<Longrightarrow> list_all ok evs \<Longrightarrow> run_events step evs c = Inr (rs, c') \<Longrightarrow> inv c'"
proof (induction evs arbitrary: c rs)
  case (Cons ev evs)
  then obtain r c1 rs' where "step ev c = Inr (r, c1)" "run_events step evs c1 = Inr (rs', c')" by auto
  with Cons step_inv [of c ev r c1] show ?case by simp
qed simp

lemma run_refines:
  "inv c \<Longrightarrow> list_all ok evs \<Longrightarrow> abs_run \<alpha> (run_events step evs c) = spec_events spec evs (\<alpha> c)"
proof (induction evs arbitrary: c)
  case (Cons ev evs)
  show ?case
  proof (cases "step ev c")
    case (Inl f)
    with Cons.prems step_refines [of c ev] have "spec ev (\<alpha> c) = Inl f" by simp
    with Inl show ?thesis by simp
  next
    case (Inr p)
    obtain r c1 where p: "p = (r, c1)" by (cases p)
    from Cons.prems step_refines [of c ev] Inr p have s: "spec ev (\<alpha> c) = Inr (is_error r, \<alpha> c1)" by simp
    from Cons.prems step_inv [of c ev r c1] Inr p have "inv c1" by simp
    with Cons have "spec_events spec evs (\<alpha> c1) = abs_run \<alpha> (run_events step evs c1)" by simp
    with Inr p s show ?thesis by (cases "run_events step evs c1") auto
  qed
qed simp

end

section \<open>Reports over a map\<close>

lemma alloc_ok_here: "thread_ok thr \<Longrightarrow> alloc_ok (alloc_here ki thr)"
  by (simp add: alloc_here_def alloc_ok_def addThread_def new_AllocInfo_def)

definition held :: "('k::linorder \<rightharpoonup> 'v) \<Rightarrow> ('v \<Rightarrow> alloc_info) \<Rightarrow> alloc_info option list" where
  "held m info = map (\<lambda>k. map_option info (m k)) (sorted_list_of_set (dom m))"

lemma report_held:
  assumes "finite (dom m)" "\<forall>v \<in> ran m. alloc_ok (info v)"
  shows "\<exists>reported'. report_loop E place (hash place) (held m info) reported error =
      Inr (error \<or> (\<exists>v \<in> ran m. report_key place (alloc_string E (info v)) \<notin> set reported), reported') \<and>
    set reported' = set reported \<union> (\<lambda>v. report_key place (alloc_string E (info v))) ` ran m"
proof -
  define ais where "ais = map (\<lambda>k. info (the (m k))) (sorted_list_of_set (dom m))"
  have h: "held m info = map Some ais" using assms(1) by (auto simp: held_def ais_def)
  have r: "set ais = info ` ran m" using assms(1) by (simp add: ais_def ran_image_the image_image)
  with assms(2) have "\<forall>ai \<in> set ais. alloc_ok ai" by simp
  from report_loop_spec [OF this, of E place reported error] show ?thesis unfolding h r by (auto simp: image_image)
qed

end
