(* ===== verification/PairwiseChecker.thy ===== *)
theory PairwiseChecker
  imports CheckerRuns
begin

text \<open>
  \<open>PairwiseChecker\<close> and \<open>LeakChecker\<close> of \<open>lib/Core/BasicCheckers.cpp\<close>: what a start function
  returns must be passed to an end function. \<open>LeakChecker\<close> derives from it for \<open>malloc\<close> and
  \<open>free\<close>, and adds \<open>realloc\<close>, \<open>strdup\<close>, \<open>getline\<close> and a count of the calls inside which allocations
  are ignored. The subclass is a record extension; a base class method that calls the virtual
  \<open>mayBeEvent\<close> takes it as an argument. The multimap \<open>reported\<close>, which all copies of a checker
  share, is passed to \<open>report\<close>.
\<close>

section \<open>PairwiseChecker\<close>

record pairwise_checker =
  pw_started :: "uint64_t \<rightharpoonup> alloc_info"
  pw_start_funcs :: "string set"
  pw_end_funcs :: "string set"
  pw_ignore_set :: "uint64_t set"
  pw_ignore_ops :: int

definition new_PairwiseChecker :: "string set \<Rightarrow> string set \<Rightarrow> uint64_t set \<Rightarrow> pairwise_checker" where
  "new_PairwiseChecker start_funcs end_funcs ignore_set =
     \<lparr>pw_started = Map.empty, pw_start_funcs = start_funcs, pw_end_funcs = end_funcs,
      pw_ignore_set = ignore_set, pw_ignore_ops = 0\<rparr>"

definition Pairwise_mayBeEvent :: "'a pairwise_checker_scheme \<Rightarrow> string \<Rightarrow> bool" where
  "Pairwise_mayBeEvent c funcname =
     (if funcname \<in> pw_start_funcs c then True
      else if funcname \<in> pw_end_funcs c then True
      else False)"

definition Pairwise_wantConcrete :: "'a pairwise_checker_scheme \<Rightarrow> string \<Rightarrow> bool" where
  "Pairwise_wantConcrete c funcname = Pairwise_mayBeEvent c funcname"

definition parseStart :: "'a pairwise_checker_scheme \<Rightarrow> uint64_t \<Rightarrow> kinst \<Rightarrow> thread_state \<Rightarrow>
    Result \<times> 'a pairwise_checker_scheme" where
  "parseStart c ret inst thr =
     (if ret \<in> pw_ignore_set c then (IMPORTANT, c)
      else (IMPORTANT, c\<lparr>pw_started := map_insert ret (alloc_here inst thr) (pw_started c)\<rparr>))"

definition parseEnd :: "'a pairwise_checker_scheme \<Rightarrow> uint64_t \<Rightarrow> Result \<times> 'a pairwise_checker_scheme" where
  "parseEnd c arg1 =
     (if arg1 \<in> pw_ignore_set c then (IMPORTANT, c)
      else if pw_started c arg1 \<noteq> None then (IMPORTANT, c\<lparr>pw_started := (pw_started c)(arg1 := None)\<rparr>)
      else (ERROR, c))"

text \<open>\<open>x | mask\<close> on the result of a handler.\<close>

definition with_mask :: "Result \<Rightarrow> Result \<times> 'c \<Rightarrow> Result \<times> 'c" where
  "with_mask need_args p = (fst p OR need_args, snd p)"

definition Pairwise_onCall :: "(string \<Rightarrow> bool) \<Rightarrow> executor \<Rightarrow> 'a pairwise_checker_scheme \<Rightarrow> thread_state \<Rightarrow> kinst \<Rightarrow>
    string \<Rightarrow> expr list \<Rightarrow> uint64_t list option \<Rightarrow> (Result \<times> 'a pairwise_checker_scheme) result" where
  "Pairwise_onCall mayBeEvent E c thr target funcname arguments args =
     (if pw_ignore_ops c \<noteq> 0 then Inr (OK, c)
      else if \<not> mayBeEvent funcname then Inr (OK, c)
      else if args \<noteq> None \<and> funcname \<in> pw_start_funcs c then
        bind_result (vec_at (the args) 0) (\<lambda>ret. Inr (with_mask NEED_RET (parseStart c ret target thr)))
      else if funcname \<in> pw_end_funcs c then
        bind_result (int_arg E arguments args 0) (\<lambda>arg1. Inr (with_mask NEED_ARG0 (parseEnd c arg1)))
      else Inr (OK, c))"

definition Pairwise_onRet :: "(string \<Rightarrow> bool) \<Rightarrow> executor \<Rightarrow> 'a pairwise_checker_scheme \<Rightarrow> exec_state \<Rightarrow> thread_state \<Rightarrow>
    kinst \<Rightarrow> expr \<Rightarrow> (Result \<times> 'a pairwise_checker_scheme) result" where
  "Pairwise_onRet mayBeEvent E c s thr caller res =
     (case getTargetFunctionFromCaller E s caller of
        None \<Rightarrow> Inr (OK, c)
      | Some funcname \<Rightarrow>
          (if pw_ignore_ops c \<noteq> 0 then Inr (OK, c)
           else if \<not> mayBeEvent funcname then Inr (OK, c)
           else if funcname \<in> pw_start_funcs c then
             bind_result (getIntFromExp E res) (\<lambda>ret. Inr (with_mask NEED_RET (parseStart c ret caller thr)))
           else Inr (OK, c)))"

definition Pairwise_report :: "executor \<Rightarrow> 'a pairwise_checker_scheme \<Rightarrow> reports \<Rightarrow> exec_state option \<Rightarrow>
    (Result \<times> reports) result" where
  "Pairwise_report E c reported st =
     bind_result (gatherPlaceInfo E st) (\<lambda>(place_info, place_hash).
     bind_result (report_loop E place_info place_hash (held (pw_started c) (\<lambda>ai. ai)) reported False)
       (\<lambda>(error, reported'). Inr (report_result error, reported')))"

section \<open>LeakChecker\<close>

record leak_checker = pairwise_checker +
  lk_callargs :: "nat \<rightharpoonup> uint64_t"

definition new_LeakChecker :: leak_checker where
  "new_LeakChecker =
     pairwise_checker.extend (new_PairwiseChecker {''malloc'', ''calloc''} {''free''} {0}) \<lparr>lk_callargs = Map.empty\<rparr>"

definition Leak_mayBeEvent :: "leak_checker \<Rightarrow> string \<Rightarrow> bool" where
  "Leak_mayBeEvent c funcname =
     (if funcname = ''realloc'' \<or> funcname = ''strdup'' \<or> funcname = ''strndup'' \<or> funcname = ''getline'' then True
      else Pairwise_mayBeEvent c funcname)"

definition Leak_wantConcrete :: "leak_checker \<Rightarrow> string \<Rightarrow> bool" where
  "Leak_wantConcrete c funcname = Leak_mayBeEvent c funcname"

text \<open>The functions of the runtime inside which allocations are not followed.\<close>

definition ignored_func :: "string \<Rightarrow> bool" where
  "ignored_func funcname \<longleftrightarrow>
     funcname = ''init_cur_collate'' \<or> funcname = ''__fd_open'' \<or> funcname = ''write'' \<or>
     funcname = ''_stdio_fopen'' \<or> funcname = ''fclose'' \<or> funcname = ''klee_init_env''"

definition parseRealloc :: "leak_checker \<Rightarrow> uint64_t \<Rightarrow> uint64_t \<Rightarrow> uint64_t \<Rightarrow> kinst \<Rightarrow> thread_state \<Rightarrow>
    Result \<times> leak_checker" where
  "parseRealloc c ptr sz ret inst thr =
     (if ptr = 0 then parseStart c ret inst thr
      else if sz = 0 then parseEnd c ptr
      else if ret = 0 then (IMPORTANT, c)
      else (IMPORTANT, snd (parseStart (snd (parseEnd c ptr)) ret inst thr)))"

definition parseDup :: "leak_checker \<Rightarrow> uint64_t \<Rightarrow> kinst \<Rightarrow> thread_state \<Rightarrow> leak_checker" where
  "parseDup c ret inst thr = (if ret \<noteq> 0 then snd (parseStart c ret inst thr) else c)"

definition Leak_onCall :: "executor \<Rightarrow> leak_checker \<Rightarrow> exec_state \<Rightarrow> thread_state \<Rightarrow> kinst \<Rightarrow> string \<Rightarrow> expr list \<Rightarrow>
    uint64_t list option \<Rightarrow> (Result \<times> leak_checker) result" where
  "Leak_onCall E c0 s thr target funcname arguments args =
     (let c = (if ignored_func funcname then c0\<lparr>pw_ignore_ops := pw_ignore_ops c0 + 1\<rparr> else c0) in
      if pw_ignore_ops c \<noteq> 0 then Inr (OK, c)
      else if funcname = ''realloc'' then
        (let need_args = NEED_RET OR NEED_ARG0 OR NEED_ARG1 in
         case args of
           Some a \<Rightarrow>
             bind_result (vec_at a 2) (\<lambda>ptr.
             bind_result (vec_at a 3) (\<lambda>sz.
             bind_result (vec_at a 0) (\<lambda>ret.
               Inr (with_mask need_args (parseRealloc c ptr sz ret target thr)))))
         | None \<Rightarrow> Inr (IMPORTANT OR need_args, c))
      else if funcname = ''getline'' then
        bind_result
          (case args of
             None \<Rightarrow>
               bind_result (vec_at arguments 0) (\<lambda>lineptr.
               bind_result (getPtrFromPPtr E s lineptr) (\<lambda>lineaddr.
                 Inr (c\<lparr>lk_callargs := map_insert (thr_id thr) lineaddr (lk_callargs c)\<rparr>)))
           | Some _ \<Rightarrow> Inr c)
          (\<lambda>c'. Inr (IMPORTANT OR NEED_ARG0, c'\<lparr>pw_ignore_ops := 1\<rparr>))
      else if funcname = ''strdup'' \<or> funcname = ''strndup'' then
        (case args of
           Some a \<Rightarrow> bind_result (vec_at a 0) (\<lambda>ret. Inr (IMPORTANT OR NEED_RET, parseDup c ret target thr))
         | None \<Rightarrow> Inr (IMPORTANT OR NEED_RET, c))
      else Pairwise_onCall (Leak_mayBeEvent c) E c thr target funcname arguments args)"

text \<open>The part of \<open>onRet\<close> for \<open>getline\<close>: \<open>enterargs\<close> is \<open>None\<close> for a null pointer.\<close>

definition getline_ret :: "leak_checker \<Rightarrow> uint64_t \<Rightarrow> kinst \<Rightarrow> thread_state \<Rightarrow> Result \<times> leak_checker" where
  "getline_ret c lineaddr caller thr =
     (let enterargs = lk_callargs c (thr_id thr);
          c1 = c\<lparr>lk_callargs := (lk_callargs c)(thr_id thr := None)\<rparr>
      in case enterargs of
           None \<Rightarrow> (IMPORTANT OR NEED_ARG0, c1)
         | Some lastlineaddr \<Rightarrow>
             (if lastlineaddr = - 1 then (IMPORTANT OR NEED_ARG0, c1)
              else if lineaddr = - 1 then (IMPORTANT OR NEED_ARG0, c1)
              else if lastlineaddr \<noteq> lineaddr then
                (let c2 = (if lastlineaddr \<noteq> 0 then snd (parseEnd c1 lastlineaddr) else c1)
                 in (IMPORTANT OR NEED_ARG0, snd (parseStart c2 lineaddr caller thr)))
              else (IMPORTANT OR NEED_ARG0, c1)))"

definition Leak_onRet :: "executor \<Rightarrow> leak_checker \<Rightarrow> exec_state \<Rightarrow> thread_state \<Rightarrow> kinst \<Rightarrow> expr \<Rightarrow>
    (Result \<times> leak_checker) result" where
  "Leak_onRet E c0 s thr caller res =
     (case getTargetFunctionFromCaller E s caller of
        None \<Rightarrow> Inr (OK, c0)
      | Some funcname \<Rightarrow>
          (let c = (if ignored_func funcname \<or> funcname = ''getline''
                    then c0\<lparr>pw_ignore_ops := pw_ignore_ops c0 - 1\<rparr> else c0) in
           if pw_ignore_ops c \<noteq> 0 then Inr (OK, c)
           else if funcname = ''realloc'' then
             bind_result (getIntFromExp E res) (\<lambda>ret.
             bind_result (getIntFromExp E (getCallingArgument E thr caller 1)) (\<lambda>ptr.
             bind_result (getIntFromExp E (getCallingArgument E thr caller 2)) (\<lambda>sz.
               Inr (with_mask (NEED_RET OR NEED_ARG0 OR NEED_ARG1) (parseRealloc c ptr sz ret caller thr)))))
           else if funcname = ''getline'' then
             bind_result (getPtrFromPPtr E s (getCallingArgument E thr caller 1)) (\<lambda>lineaddr.
               Inr (getline_ret c lineaddr caller thr))
           else if funcname = ''strdup'' \<or> funcname = ''strndup'' then
             bind_result (getIntFromExp E res) (\<lambda>ret. Inr (IMPORTANT OR NEED_RET, parseDup c ret caller thr))
           else Pairwise_onRet (Leak_mayBeEvent c) E c s thr caller res))"

definition Leak_report :: "executor \<Rightarrow> leak_checker \<Rightarrow> reports \<Rightarrow> exec_state option \<Rightarrow> (Result \<times> reports) result" where
  "Leak_report E c reported st = Pairwise_report E c reported st"

section \<open>Specification: the set of live blocks\<close>

text \<open>
  The allocation events of a path, of external calls (\<open>LAlloc\<close>, \<open>LFree\<close>, \<open>LRealloc\<close>) and of calls
  inside the interpreted program (\<open>LAllocRet\<close>, \<open>LFreeExp\<close>), and the calls and returns of the
  runtime functions whose allocations are ignored.
\<close>

datatype leak_event =
    LAlloc string uint64_t
  | LFree uint64_t
  | LRealloc uint64_t uint64_t uint64_t
  | LAllocRet string expr uint64_t
  | LFreeExp expr uint64_t
  | LEnter string
  | LLeave string expr

fun leak_step :: "executor \<Rightarrow> exec_state \<Rightarrow> leak_event \<times> thread_state \<times> kinst \<Rightarrow> leak_checker \<Rightarrow>
    (Result \<times> leak_checker) result" where
  "leak_step E s (LAlloc f r, thr, ki) c = Leak_onCall E c s thr ki f [] (Some [r, 0])"
| "leak_step E s (LFree p, thr, ki) c = Leak_onCall E c s thr ki ''free'' [] (Some [0, 0, p])"
| "leak_step E s (LRealloc p n r, thr, ki) c = Leak_onCall E c s thr ki ''realloc'' [] (Some [r, 0, p, n])"
| "leak_step E s (LAllocRet f e r, thr, ki) c = Leak_onRet E c s thr ki e"
| "leak_step E s (LFreeExp e p, thr, ki) c = Leak_onCall E c s thr ki ''free'' [e] None"
| "leak_step E s (LEnter f, thr, ki) c = Leak_onCall E c s thr ki f [] None"
| "leak_step E s (LLeave f e, thr, ki) c = Leak_onRet E c s thr ki e"

definition alloc_func :: "string \<Rightarrow> bool" where
  "alloc_func f \<longleftrightarrow> f = ''malloc'' \<or> f = ''calloc'' \<or> f = ''strdup'' \<or> f = ''strndup''"

fun leak_ok :: "executor \<Rightarrow> exec_state \<Rightarrow> leak_event \<times> thread_state \<times> kinst \<Rightarrow> bool" where
  "leak_ok E s (LAlloc f r, thr, ki) \<longleftrightarrow> thread_ok thr \<and> alloc_func f"
| "leak_ok E s (LAllocRet f e r, thr, ki) \<longleftrightarrow>
     thread_ok thr \<and> alloc_func f \<and> ex_getTargetFunction E s ki = Some f \<and> getIntFromExp E e = Inr r"
| "leak_ok E s (LFreeExp e p, thr, ki) \<longleftrightarrow> thread_ok thr \<and> getIntFromExp E e = Inr p"
| "leak_ok E s (LEnter f, thr, ki) \<longleftrightarrow> ignored_func f"
| "leak_ok E s (LLeave f e, thr, ki) \<longleftrightarrow> ignored_func f \<and> ex_getTargetFunction E s ki = Some f"
| "leak_ok E s (_, thr, ki) \<longleftrightarrow> thread_ok thr"

definition live_alloc :: "uint64_t \<Rightarrow> uint64_t set \<Rightarrow> bool \<times> uint64_t set" where
  "live_alloc r L = (False, if r = 0 then L else insert r L)"

definition live_free :: "uint64_t \<Rightarrow> uint64_t set \<Rightarrow> bool \<times> uint64_t set" where
  "live_free p L = (if p = 0 then (False, L) else (p \<notin> L, L - {p}))"

text \<open>A moving \<open>realloc\<close> frees the old block and allocates the new one, and is never an error.\<close>

definition live_realloc :: "uint64_t \<Rightarrow> uint64_t \<Rightarrow> uint64_t \<Rightarrow> uint64_t set \<Rightarrow> bool \<times> uint64_t set" where
  "live_realloc p n r L =
     (if p = 0 then live_alloc r L
      else if n = 0 then live_free p L
      else if r = 0 then (False, L)
      else (False, insert r (L - {p})))"

fun live_event :: "leak_event \<Rightarrow> uint64_t set \<Rightarrow> bool \<times> uint64_t set" where
  "live_event (LAlloc f r) L = live_alloc r L"
| "live_event (LAllocRet f e r) L = live_alloc r L"
| "live_event (LFree p) L = live_free p L"
| "live_event (LFreeExp e p) L = live_free p L"
| "live_event (LRealloc p n r) L = live_realloc p n r L"
| "live_event _ L = (False, L)"

text \<open>The state is the set of live blocks and the depth of ignored calls.\<close>

fun leak_spec :: "leak_event \<times> thread_state \<times> kinst \<Rightarrow> uint64_t set \<times> int \<Rightarrow> (bool \<times> uint64_t set \<times> int) result" where
  "leak_spec (LEnter f, _, _) (L, d) = Inr (False, L, d + 1)"
| "leak_spec (LLeave f e, _, _) (L, d) = Inr (False, L, d - 1)"
| "leak_spec (ev, _, _) (L, d) =
     (if d \<noteq> 0 then Inr (False, L, d) else (let (err, L') = live_event ev L in Inr (err, L', d)))"

definition leak_abs :: "leak_checker \<Rightarrow> uint64_t set \<times> int" where
  "leak_abs c = (dom (pw_started c), pw_ignore_ops c)"

definition leak_inv :: "leak_checker \<Rightarrow> bool" where
  "leak_inv c \<longleftrightarrow> pw_start_funcs c = {''malloc'', ''calloc''} \<and> pw_end_funcs c = {''free''} \<and> pw_ignore_set c = {0} \<and>
     finite (dom (pw_started c)) \<and> (\<forall>ai \<in> ran (pw_started c). alloc_ok ai)"

section \<open>LeakChecker follows the live blocks\<close>

lemma leak_inv_ops [simp]: "leak_inv (c\<lparr>pw_ignore_ops := n\<rparr>) = leak_inv c"
  by (simp add: leak_inv_def)

lemma leak_inv_start:
  "leak_inv c \<Longrightarrow> thread_ok thr \<Longrightarrow> leak_inv (snd (parseStart c r ki thr))"
  using alloc_ok_here [of thr ki] by (auto simp: leak_inv_def parseStart_def dest!: map_insert_simps(2))

lemma ran_remove: "x \<in> ran (m(k := None)) \<Longrightarrow> x \<in> ran m"
  by (auto simp: ran_def split: if_splits)

lemma leak_inv_end: "leak_inv c \<Longrightarrow> leak_inv (snd (parseEnd c p))"
  using ran_remove [of _ "pw_started c" p] by (simp add: leak_inv_def parseEnd_def)

lemma parseStart_live:
  "leak_inv c \<Longrightarrow> (is_error (fst (parseStart c r ki thr)), leak_abs (snd (parseStart c r ki thr))) =
     (let (e, L) = live_alloc r (dom (pw_started c)) in (e, L, pw_ignore_ops c))"
  by (auto simp: leak_inv_def parseStart_def leak_abs_def live_alloc_def)

lemma parseEnd_live:
  "leak_inv c \<Longrightarrow> (is_error (fst (parseEnd c p)), leak_abs (snd (parseEnd c p))) =
     (let (e, L) = live_free p (dom (pw_started c)) in (e, L, pw_ignore_ops c))"
  by (simp add: leak_inv_def parseEnd_def leak_abs_def live_free_def domIff)

lemma parseRealloc_live:
  "leak_inv c \<Longrightarrow> (is_error (fst (parseRealloc c p n r ki thr)), leak_abs (snd (parseRealloc c p n r ki thr))) =
     (let (e, L) = live_realloc p n r (dom (pw_started c)) in (e, L, pw_ignore_ops c))"
  by (simp add: leak_inv_def parseRealloc_def parseStart_def parseEnd_def leak_abs_def live_realloc_def
      live_alloc_def live_free_def domIff)

lemma leak_inv_realloc:
  "leak_inv c \<Longrightarrow> thread_ok thr \<Longrightarrow> leak_inv (snd (parseRealloc c p n r ki thr))"
  by (simp add: parseRealloc_def leak_inv_start leak_inv_end)

lemma parseDup_live:
  "leak_inv c \<Longrightarrow> leak_abs (parseDup c r ki thr) = (snd (live_alloc r (dom (pw_started c))), pw_ignore_ops c)"
  by (auto simp: leak_inv_def parseDup_def parseStart_def leak_abs_def live_alloc_def)

lemma leak_inv_dup: "leak_inv c \<Longrightarrow> thread_ok thr \<Longrightarrow> leak_inv (parseDup c r ki thr)"
  by (simp add: parseDup_def leak_inv_start)

lemmas leak_handlers = Leak_onCall_def Leak_onRet_def Pairwise_onCall_def Pairwise_onRet_def
  Leak_mayBeEvent_def Pairwise_mayBeEvent_def ignored_func_def getTargetFunctionFromCaller_def with_mask_def

lemma leak_ignored:
  assumes "pw_ignore_ops c \<noteq> 0" "\<not> ignored_func f"
  shows "Leak_onCall E c s thr ki f arguments args = Inr (OK, c)"
  using assms by (simp add: Leak_onCall_def)

lemma leak_ignored_ret:
  assumes "pw_ignore_ops c \<noteq> 0" "\<not> ignored_func f" "f \<noteq> ''getline''" "ex_getTargetFunction E s ki = Some f"
  shows "Leak_onRet E c s thr ki e = Inr (OK, c)"
  using assms by (simp add: Leak_onRet_def getTargetFunctionFromCaller_def)

lemma not_ignored [simp]: "alloc_func f \<Longrightarrow> \<not> ignored_func f" "\<not> ignored_func ''free''" "\<not> ignored_func ''realloc''"
  by (auto simp: alloc_func_def ignored_func_def)

lemma alloc_not_getline [simp]: "alloc_func f \<Longrightarrow> f \<noteq> ''getline''"
  by (auto simp: alloc_func_def)

lemma alloc_cases:
  assumes "alloc_func f"
  obtains "f = ''malloc''" | "f = ''calloc''" | "f = ''strdup''" | "f = ''strndup''"
  using assms by (auto simp: alloc_func_def)

lemma start_facts:
  assumes "leak_inv c"
  shows "pw_start_funcs c = {''malloc'', ''calloc''}"
    and "parseDup c r ki thr = snd (parseStart c r ki thr)"
    and "\<not> is_error (fst (parseStart c r ki thr))"
  using assms by (auto simp: leak_inv_def parseDup_def parseStart_def)

lemma call_alloc:
  assumes "leak_inv c" "alloc_func f" "pw_ignore_ops c = 0"
  shows "\<exists>r'. Leak_onCall E c s thr ki f [] (Some [r, 0]) = Inr (r', snd (parseStart c r ki thr)) \<and> \<not> is_error r'"
proof -
  from assms(2) show ?thesis
    using assms(3) start_facts [OF assms(1)] by (cases rule: alloc_cases) (simp_all add: leak_handlers)
qed

lemma ret_alloc:
  assumes "leak_inv c" "alloc_func f" "pw_ignore_ops c = 0" "ex_getTargetFunction E s ki = Some f" "getIntFromExp E e = Inr r"
  shows "\<exists>r'. Leak_onRet E c s thr ki e = Inr (r', snd (parseStart c r ki thr)) \<and> \<not> is_error r'"
proof -
  from assms(2) show ?thesis
    using assms(3-5) start_facts [OF assms(1)] by (cases rule: alloc_cases) (simp_all add: leak_handlers)
qed

lemma call_free:
  assumes "leak_inv c" "pw_ignore_ops c = 0" "int_arg E arguments args 0 = Inr p" "args \<noteq> None \<longrightarrow> length (the args) > 0"
  shows "Leak_onCall E c s thr ki ''free'' arguments args =
     Inr (fst (parseEnd c p) OR NEED_ARG0, snd (parseEnd c p))"
proof -
  have "pw_end_funcs c = {''free''}" "''free'' \<notin> pw_start_funcs c" using assms(1) by (auto simp: leak_inv_def)
  then show ?thesis using assms(2-4) by (simp add: leak_handlers)
qed

lemma call_realloc:
  assumes "pw_ignore_ops c = 0"
  shows "Leak_onCall E c s thr ki ''realloc'' [] (Some [r, 0, p, n]) =
     Inr (fst (parseRealloc c p n r ki thr) OR (NEED_RET OR NEED_ARG0 OR NEED_ARG1), snd (parseRealloc c p n r ki thr))"
  using assms by (simp add: leak_handlers)

lemma call_enter:
  assumes "leak_inv c" "ignored_func f"
  shows "\<exists>r'. Leak_onCall E c s thr ki f [] None = Inr (r', c\<lparr>pw_ignore_ops := pw_ignore_ops c + 1\<rparr>) \<and> \<not> is_error r'"
proof -
  have m: "\<not> Leak_mayBeEvent (c\<lparr>pw_ignore_ops := n\<rparr>) f" "f \<noteq> ''realloc''" "f \<noteq> ''getline''" "f \<noteq> ''strdup''" "f \<noteq> ''strndup''" for n
    using assms by (auto simp: leak_inv_def Leak_mayBeEvent_def Pairwise_mayBeEvent_def ignored_func_def)
  show ?thesis using assms(2) m by (simp add: Leak_onCall_def Pairwise_onCall_def Let_def)
qed

lemma ret_leave:
  assumes "leak_inv c" "ignored_func f" "ex_getTargetFunction E s ki = Some f"
  shows "\<exists>r'. Leak_onRet E c s thr ki e = Inr (r', c\<lparr>pw_ignore_ops := pw_ignore_ops c - 1\<rparr>) \<and> \<not> is_error r'"
proof -
  have m: "\<not> Leak_mayBeEvent (c\<lparr>pw_ignore_ops := n\<rparr>) f" "f \<noteq> ''realloc''" "f \<noteq> ''getline''" "f \<noteq> ''strdup''" "f \<noteq> ''strndup''" for n
    using assms by (auto simp: leak_inv_def Leak_mayBeEvent_def Pairwise_mayBeEvent_def ignored_func_def)
  show ?thesis using assms(2,3) m by (simp add: Leak_onRet_def Pairwise_onRet_def getTargetFunctionFromCaller_def Let_def)
qed

lemma leak_abs_start: "leak_inv c \<Longrightarrow> leak_abs (snd (parseStart c r ki thr)) = (snd (live_alloc r (dom (pw_started c))), pw_ignore_ops c)"
  using parseStart_live [of c r ki thr] by (simp add: case_prod_beta Let_def)

lemma live_alloc_ok [simp]: "fst (live_alloc r L) = False"
  by (simp add: live_alloc_def)

lemma leak_act:
  assumes inv: "leak_inv c" and ok: "leak_ok E s (ev, thr, ki)" and ops: "pw_ignore_ops c = 0"
    and ev: "\<forall>f. ev \<noteq> LEnter f" "\<forall>f e. ev \<noteq> LLeave f e"
  shows "\<exists>r c'. leak_step E s (ev, thr, ki) c = Inr (r, c') \<and> leak_inv c' \<and>
    is_error r = fst (live_event ev (dom (pw_started c))) \<and>
    leak_abs c' = (snd (live_event ev (dom (pw_started c))), 0)"
proof (cases ev)
  case (LAlloc f r)
  with ok have "thread_ok thr" "alloc_func f" by simp_all
  with call_alloc [OF inv _ ops, of f E s thr ki r] leak_inv_start [OF inv, of thr r ki] leak_abs_start [OF inv, of r ki thr]
  show ?thesis by (auto simp: LAlloc ops)
next
  case (LAllocRet f e r)
  with ok have "thread_ok thr" "alloc_func f" "ex_getTargetFunction E s ki = Some f" "getIntFromExp E e = Inr r" by simp_all
  with ret_alloc [OF inv _ ops, of f E s ki e r thr] leak_inv_start [OF inv, of thr r ki] leak_abs_start [OF inv, of r ki thr]
  show ?thesis by (auto simp: LAllocRet ops)
next
  case (LFree p)
  have "leak_step E s (ev, thr, ki) c = Inr (fst (parseEnd c p) OR NEED_ARG0, snd (parseEnd c p))"
    unfolding LFree leak_step.simps by (rule call_free [OF inv ops]) simp_all
  with parseEnd_live [OF inv, of p] leak_inv_end [OF inv, of p] show ?thesis
    by (simp add: LFree ops case_prod_beta Let_def)
next
  case (LFreeExp e p)
  have "leak_step E s (ev, thr, ki) c = Inr (fst (parseEnd c p) OR NEED_ARG0, snd (parseEnd c p))"
    unfolding LFreeExp leak_step.simps by (rule call_free [OF inv ops]) (use ok in \<open>simp_all add: LFreeExp int_arg_def\<close>)
  with parseEnd_live [OF inv, of p] leak_inv_end [OF inv, of p] show ?thesis
    by (simp add: LFreeExp ops case_prod_beta Let_def)
next
  case (LRealloc p n r)
  with ok have "thread_ok thr" by simp
  with call_realloc [OF ops, of E s thr ki r p n] parseRealloc_live [OF inv, of p n r ki thr]
    leak_inv_realloc [OF inv, of thr p n r ki] show ?thesis
    by (simp add: LRealloc ops case_prod_beta Let_def)
qed (use ev in simp_all)

lemma leak_step_ignored:
  assumes "leak_ok E s (ev, thr, ki)" "pw_ignore_ops c \<noteq> 0" "\<forall>f. ev \<noteq> LEnter f" "\<forall>f e. ev \<noteq> LLeave f e"
  shows "leak_step E s (ev, thr, ki) c = Inr (OK, c)"
proof (cases ev)
  case (LAllocRet f e r)
  with assms(1) have "alloc_func f" "ex_getTargetFunction E s ki = Some f" by simp_all
  then show ?thesis unfolding LAllocRet leak_step.simps by (intro leak_ignored_ret [OF assms(2), of f]) simp_all
qed (use assms leak_ignored [OF assms(2)] in simp_all)

lemma leak_spec_act:
  "\<forall>f. ev \<noteq> LEnter f \<Longrightarrow> \<forall>f e. ev \<noteq> LLeave f e \<Longrightarrow> leak_spec (ev, thr, ki) (L, d) =
     (if d \<noteq> 0 then Inr (False, L, d) else Inr (fst (live_event ev L), snd (live_event ev L), d))"
  by (cases ev) (simp_all add: case_prod_beta Let_def)

lemma leak_step_sim:
  assumes "leak_inv c" "leak_ok E s ev"
  shows "abs_step leak_abs (leak_step E s ev c) = leak_spec ev (leak_abs c) \<and>
    (\<forall>r c'. leak_step E s ev c = Inr (r, c') \<longrightarrow> leak_inv c')"
proof -
  obtain e thr ki where ev: "ev = (e, thr, ki)" using prod_cases3 by blast
  note ok = assms(2) [unfolded ev]
  consider (enter) f where "e = LEnter f" | (leave) f x where "e = LLeave f x"
    | (skip) "\<forall>f. e \<noteq> LEnter f" "\<forall>f x. e \<noteq> LLeave f x" "pw_ignore_ops c \<noteq> 0"
    | (act) "\<forall>f. e \<noteq> LEnter f" "\<forall>f x. e \<noteq> LLeave f x" "pw_ignore_ops c = 0" by blast
  then show ?thesis
  proof cases
    case enter
    with ok call_enter [OF assms(1), of f E s thr ki] assms(1) ev show ?thesis by (auto simp: leak_abs_def)
  next
    case leave
    with ok ret_leave [OF assms(1), of f E s ki thr x] assms(1) ev show ?thesis by (auto simp: leak_abs_def)
  next
    case skip
    with leak_step_ignored [OF ok skip(3)] leak_spec_act [OF skip(1,2)] assms(1) show ?thesis
      by (simp add: ev leak_abs_def)
  next
    case act
    from leak_act [OF assms(1) ok act(3,1,2)] obtain r c' where
      "leak_step E s ev c = Inr (r, c')" "leak_inv c'" "is_error r = fst (live_event e (dom (pw_started c)))"
      "leak_abs c' = (snd (live_event e (dom (pw_started c))), 0)" unfolding ev by blast
    with leak_spec_act [OF act(1,2), of thr ki "dom (pw_started c)" 0] act(3) show ?thesis
      by (simp add: ev leak_abs_def)
  qed
qed

interpretation leak: event_checker "leak_step E s" leak_inv leak_abs leak_spec "leak_ok E s" for E s
  by unfold_locales (use leak_step_sim in blast)+

lemma leak_new: "leak_inv new_LeakChecker" "leak_abs new_LeakChecker = ({}, 0)"
  by (simp_all add: leak_inv_def leak_abs_def new_LeakChecker_def new_PairwiseChecker_def pairwise_checker.defs)

lemma leak_report_spec:
  assumes "leak_inv c" "state_ok st"
  shows "\<exists>place reported'. gatherPlaceInfo E st = Inr (place, hash place) \<and>
    Leak_report E c reported st =
      Inr (report_result (\<exists>ai \<in> ran (pw_started c). report_key place (alloc_string E ai) \<notin> set reported), reported')"
proof -
  from gatherPlaceInfo_total [OF assms(2)] obtain place where g: "gatherPlaceInfo E st = Inr (place, hash place)" by blast
  from assms(1) report_held [of "pw_started c" "\<lambda>ai. ai" E place reported False] obtain reported' where
    "report_loop E place (hash place) (held (pw_started c) (\<lambda>ai. ai)) reported False =
      Inr (\<exists>ai \<in> ran (pw_started c). report_key place (alloc_string E ai) \<notin> set reported, reported')"
    by (auto simp: leak_inv_def)
  with g show ?thesis by (auto simp: Leak_report_def Pairwise_report_def)
qed
section \<open>Properties\<close>

lemma leak_spec_total: "\<exists>es a'. spec_events leak_spec evs a = Inr (es, a')"
proof (induction evs arbitrary: a)
  case (Cons ev evs)
  obtain e thr ki L d where ev: "ev = (e, thr, ki)" "a = (L, d)" by (metis prod_cases3 surj_pair)
  have "\<exists>err a'. leak_spec ev a = Inr (err, a')" unfolding ev by (cases e) (auto simp: case_prod_beta Let_def)
  then obtain err a' where "leak_spec ev a = Inr (err, a')" by blast
  with Cons.IH [of a'] show ?case by auto
qed simp



lemma ignored_run:
  assumes "pw_ignore_ops c \<noteq> 0"
    and "list_all (\<lambda>(ev, thr, ki). leak_ok E s (ev, thr, ki) \<and> (\<forall>f. ev \<noteq> LEnter f) \<and> (\<forall>f e. ev \<noteq> LLeave f e)) evs"
  shows "run_events (leak_step E s) evs c = Inr (replicate (length evs) OK, c)"
  using assms(2)
proof (induction evs)
  case (Cons ev evs)
  obtain e thr ki where ev: "ev = (e, thr, ki)" using prod_cases3 by blast
  with Cons leak_step_ignored [OF _ assms(1), of E s e thr ki] show ?case by simp
qed simp



end
