(* ===== verification/FilePermChecker.thy ===== *)
theory FilePermChecker
  imports CheckerRuns "HOL-Library.Char_ord" "HOL-Library.List_Lexorder"
begin

text \<open>
  \<open>FilePermChecker\<close> of \<open>lib/Core/BasicCheckers.cpp\<close>: a file must not be opened after its
  permissions were tested by name, nor tested after it was opened. The checker owns its
  \<open>FileObject\<close>s through raw pointers: \<open>files\<close> lists those of a name, \<open>files_by_fd\<close> the last one of a
  descriptor. The heap of file objects is part of the state, so a use of a deleted object is a fault.
\<close>

section \<open>The checker\<close>

record fileperm_checker =
  pm_heap :: "nat \<rightharpoonup> file_object"
  pm_next :: nat
  pm_files :: "string \<rightharpoonup> nat list"
  pm_by_fd :: "uint64_t \<rightharpoonup> nat"

definition new_FilePermChecker :: fileperm_checker where
  "new_FilePermChecker = \<lparr>pm_heap = Map.empty, pm_next = 0, pm_files = Map.empty, pm_by_fd = Map.empty\<rparr>"

definition pm_new :: "fileperm_checker \<Rightarrow> file_object \<Rightarrow> nat \<times> fileperm_checker" where
  "pm_new c f = (pm_next c, c\<lparr>pm_heap := (pm_heap c)(pm_next c \<mapsto> f), pm_next := Suc (pm_next c)\<rparr>)"

definition pm_deref :: "fileperm_checker \<Rightarrow> nat \<Rightarrow> file_object result" where
  "pm_deref c p = of_option UseAfterFree (pm_heap c p)"

definition FilePerm_mayBeEvent :: "string \<Rightarrow> bool" where
  "FilePerm_mayBeEvent funcname =
     (if funcname = ''access'' \<or> funcname = ''open'' \<or> funcname = ''open64'' \<or> funcname = ''close'' then True else False)"

definition FilePerm_wantConcrete :: "string \<Rightarrow> bool" where
  "FilePerm_wantConcrete funcname = FilePerm_mayBeEvent funcname"

definition R_OK :: uint32_t where "R_OK = 4"

text \<open>The loop of \<open>parseAccess\<close>: is one of the objects open?\<close>

fun any_clean :: "fileperm_checker \<Rightarrow> nat list \<Rightarrow> bool result" where
  "any_clean c [] = Inr False"
| "any_clean c (p # ps) =
     bind_result (pm_deref c p) (\<lambda>f. if fo_state f = CLEAN then Inr True else any_clean c ps)"

definition FilePerm_parseAccess :: "fileperm_checker \<Rightarrow> string \<Rightarrow> uint32_t \<Rightarrow> (Result \<times> fileperm_checker) result" where
  "FilePerm_parseAccess c filename mode =
     (if mode = R_OK then Inr (OK, c)
      else (case pm_files c filename of
          Some file_list \<Rightarrow>
            bind_result (any_clean c file_list) (\<lambda>clean.
              if clean then Inr (ERROR, c)
              else if length file_list \<noteq> 1 then Inl AssertionFailed
              else bind_result (pm_deref c (file_list ! 0)) (\<lambda>f.
                if fo_state f \<noteq> ACCESSED then Inl AssertionFailed else Inr (IMPORTANT, c)))
        | None \<Rightarrow>
            (let (obj, c1) = pm_new c (setState ACCESSED (new_FileObject filename (- 1) (- 1)))
             in Inr (IMPORTANT, c1\<lparr>pm_files := (pm_files c1)(filename \<mapsto> [obj])\<rparr>))))"

text \<open>The loop of \<open>parseOpen\<close>: has the file been tested by name?\<close>

fun any_accessed :: "fileperm_checker \<Rightarrow> nat list \<Rightarrow> bool result" where
  "any_accessed c [] = Inr False"
| "any_accessed c (p # ps) =
     bind_result (pm_deref c p) (\<lambda>f.
       if fo_state f = ACCESSED then Inr True
       else if fo_state f \<noteq> CLEAN then Inl AssertionFailed
       else any_accessed c ps)"

definition FilePerm_parseOpen :: "fileperm_checker \<Rightarrow> string \<Rightarrow> uint64_t \<Rightarrow> (Result \<times> fileperm_checker) result" where
  "FilePerm_parseOpen c filename fd =
     bind_result (case pm_files c filename of Some file_list \<Rightarrow> any_accessed c file_list | None \<Rightarrow> Inr False)
       (\<lambda>accessed.
         if accessed then Inr (ERROR, c)
         else
           (let (obj, c1) = pm_new c (setState CLEAN (new_FileObject filename (- 1) fd));
                c2 = c1\<lparr>pm_files := (pm_files c1)(filename \<mapsto>
                       (case pm_files c1 filename of Some file_list \<Rightarrow> file_list @ [obj] | None \<Rightarrow> [obj]))\<rparr>
            in bind_result (case pm_by_fd c2 fd of Some p \<Rightarrow> bind_result (pm_deref c2 p) (\<lambda>f. Inr ()) | None \<Rightarrow> Inr ())
                 (\<lambda>_. Inr (IMPORTANT, c2\<lparr>pm_by_fd := (pm_by_fd c2)(fd \<mapsto> obj)\<rparr>))))"

text \<open>\<open>parseClose\<close> deletes the object and leaves its entry in \<open>files_by_fd\<close>.\<close>

definition FilePerm_parseClose :: "fileperm_checker \<Rightarrow> uint64_t \<Rightarrow> (Result \<times> fileperm_checker) result" where
  "FilePerm_parseClose c fd =
     (case pm_by_fd c fd of
        None \<Rightarrow> Inr (IMPORTANT, c)
      | Some obj \<Rightarrow>
          bind_result (pm_deref c obj) (\<lambda>f.
            case pm_files c (fo_name f) of
              None \<Rightarrow> Inl AssertionFailed
            | Some named_files \<Rightarrow>
                (if length named_files = 1 then
                   (if named_files ! 0 \<noteq> obj then Inl AssertionFailed
                    else Inr (IMPORTANT, c\<lparr>pm_files := (pm_files c)(fo_name f := None), pm_heap := (pm_heap c)(obj := None)\<rparr>))
                 else Inr (IMPORTANT, c\<lparr>pm_files := (pm_files c)(fo_name f \<mapsto> remove1 obj named_files),
                        pm_heap := (pm_heap c)(obj := None)\<rparr>))))"

definition FilePerm_onCall :: "executor \<Rightarrow> fileperm_checker \<Rightarrow> exec_state \<Rightarrow> string \<Rightarrow> expr list \<Rightarrow>
    uint64_t list option \<Rightarrow> (Result \<times> fileperm_checker) result" where
  "FilePerm_onCall E c s funcname arguments args =
     (if funcname = ''open'' \<or> funcname = ''open64'' then
        (let need_args = NEED_ARG0 OR NEED_RET in
         case args of
           Some a \<Rightarrow>
             bind_result (str_arg E s arguments args 0) (\<lambda>filename.
             bind_result (vec_at a 0) (\<lambda>fd.
             bind_result (FilePerm_parseOpen c filename fd) (\<lambda>(r, c'). Inr (r OR need_args, c'))))
         | None \<Rightarrow> Inr (IMPORTANT OR need_args, c))
      else if funcname = ''close'' then
        bind_result (int_arg E arguments args 0) (\<lambda>fd.
        bind_result (FilePerm_parseClose c fd) (\<lambda>(r, c'). Inr (r OR NEED_ARG0, c')))
      else if funcname = ''access'' \<or> funcname = ''stat'' \<or> funcname = ''stat64'' then
        bind_result (str_arg E s arguments args 0) (\<lambda>filename.
        bind_result (if funcname = ''access'' then int_arg E arguments args 1 else Inr 0x1481) (\<lambda>mode.
        bind_result (FilePerm_parseAccess c filename (ucast mode)) (\<lambda>(r, c').
          Inr (r OR (NEED_ARG0 OR NEED_ARG1), c'))))
      else Inr (OK, c))"

definition FilePerm_onRet :: "executor \<Rightarrow> fileperm_checker \<Rightarrow> exec_state \<Rightarrow> thread_state \<Rightarrow> kinst \<Rightarrow> expr \<Rightarrow>
    (Result \<times> fileperm_checker) result" where
  "FilePerm_onRet E c s thr caller res =
     (case getTargetFunctionFromCaller E s caller of
        None \<Rightarrow> Inr (OK, c)
      | Some funcname \<Rightarrow>
          (if funcname = ''open'' \<or> funcname = ''open64'' then
             bind_result (getStrFromCharPtr E s (getCallingArgument E thr caller 1)) (\<lambda>filename.
             bind_result (getIntFromExp E res) (\<lambda>fd.
             bind_result (FilePerm_parseOpen c filename fd) (\<lambda>(r, c'). Inr (r OR (NEED_RET OR NEED_ARG0), c'))))
           else Inr (OK, c)))"

text \<open>The copy constructor: the objects of each name, in the order of the names, are copied.\<close>

fun clone_list :: "fileperm_checker \<Rightarrow> nat list \<Rightarrow> fileperm_checker \<Rightarrow> nat list \<Rightarrow> (nat list \<times> fileperm_checker) result" where
  "clone_list other [] c my_vec = Inr (my_vec, c)"
| "clone_list other (p # ps) c my_vec =
     bind_result (pm_deref other p) (\<lambda>f.
       (let (obj, c1) = pm_new c f;
            c2 = (if fo_fd f \<noteq> - 1 then c1\<lparr>pm_by_fd := (pm_by_fd c1)(fo_fd f \<mapsto> obj)\<rparr> else c1)
        in clone_list other ps c2 (my_vec @ [obj])))"

fun clone_files :: "fileperm_checker \<Rightarrow> string list \<Rightarrow> fileperm_checker \<Rightarrow> fileperm_checker result" where
  "clone_files other [] c = Inr c"
| "clone_files other (name # names) c =
     bind_result (clone_list other (the (pm_files other name)) c []) (\<lambda>(my_vec, c1).
       clone_files other names (c1\<lparr>pm_files := (pm_files c1)(name \<mapsto> my_vec)\<rparr>))"

definition FilePerm_clone :: "fileperm_checker \<Rightarrow> fileperm_checker result" where
  "FilePerm_clone other = clone_files other (sorted_list_of_set (dom (pm_files other))) new_FilePermChecker"

text \<open>The destructor deletes the objects of every name; deleting twice is a fault.\<close>

fun delete_all :: "nat list \<Rightarrow> (nat \<rightharpoonup> file_object) \<Rightarrow> (nat \<rightharpoonup> file_object) result" where
  "delete_all [] h = Inr h"
| "delete_all (p # ps) h = (if h p = None then Inl UseAfterFree else delete_all ps (h(p := None)))"

definition FilePerm_destroy :: "fileperm_checker \<Rightarrow> (nat \<rightharpoonup> file_object) result" where
  "FilePerm_destroy c =
     delete_all (concat (map (\<lambda>name. the (pm_files c name)) (sorted_list_of_set (dom (pm_files c))))) (pm_heap c)"

section \<open>Invariant\<close>

definition open_list :: "(nat \<rightharpoonup> file_object) \<Rightarrow> string \<Rightarrow> nat list \<Rightarrow> bool" where
  "open_list h n ps \<longleftrightarrow> ps \<noteq> [] \<and> distinct ps \<and>
     (\<forall>p \<in> set ps. \<exists>f. h p = Some f \<and> fo_name f = n \<and> fo_state f = CLEAN)"

definition tested_list :: "(nat \<rightharpoonup> file_object) \<Rightarrow> string \<Rightarrow> nat list \<Rightarrow> bool" where
  "tested_list h n ps \<longleftrightarrow> (\<exists>p f. ps = [p] \<and> h p = Some f \<and> fo_name f = n \<and> fo_state f = ACCESSED \<and> fo_fd f = - 1)"

text \<open>
  A name has either open objects or one tested object; the live objects are exactly those of the
  lists; a live object of a descriptor is open and knows the descriptor.
\<close>

definition pm_inv :: "fileperm_checker \<Rightarrow> bool" where
  "pm_inv c \<longleftrightarrow> finite (dom (pm_files c)) \<and>
     (\<forall>n ps. pm_files c n = Some ps \<longrightarrow> open_list (pm_heap c) n ps \<or> tested_list (pm_heap c) n ps) \<and>
     (\<forall>p f. pm_heap c p = Some f \<longrightarrow> (\<exists>ps. pm_files c (fo_name f) = Some ps \<and> p \<in> set ps)) \<and>
     (\<forall>p f. pm_heap c p = Some f \<longrightarrow> p < pm_next c) \<and>
     (\<forall>fd p. pm_by_fd c fd = Some p \<longrightarrow> p < pm_next c) \<and>
     (\<forall>fd p f. pm_by_fd c fd = Some p \<longrightarrow> pm_heap c p = Some f \<longrightarrow> fo_fd f = fd \<and> fo_state f = CLEAN)"

lemma pm_invD:
  assumes "pm_inv c"
  shows "finite (dom (pm_files c))"
    and "pm_files c n = Some ps \<Longrightarrow> open_list (pm_heap c) n ps \<or> tested_list (pm_heap c) n ps"
    and "pm_heap c p = Some f \<Longrightarrow> \<exists>ps. pm_files c (fo_name f) = Some ps \<and> p \<in> set ps"
    and "pm_heap c p = Some f \<Longrightarrow> p < pm_next c"
    and "pm_by_fd c fd = Some p \<Longrightarrow> p < pm_next c"
    and "pm_by_fd c fd = Some p \<Longrightarrow> pm_heap c p = Some f \<Longrightarrow> fo_fd f = fd \<and> fo_state f = CLEAN"
  using assms unfolding pm_inv_def by blast+

lemma pm_fresh: "pm_inv c \<Longrightarrow> pm_heap c (pm_next c) = None"
  using pm_invD(4) [of c "pm_next c"] by (cases "pm_heap c (pm_next c)") auto

lemma list_frame [simp]:
  "q \<notin> set ps \<Longrightarrow> open_list (h(q := x)) n ps = open_list h n ps"
  "q \<notin> set ps \<Longrightarrow> tested_list (h(q := x)) n ps = tested_list h n ps"
  by (auto simp: open_list_def tested_list_def)

lemma list_live:
  "open_list h n ps \<or> tested_list h n ps \<Longrightarrow> p \<in> set ps \<Longrightarrow> \<exists>f. h p = Some f \<and> fo_name f = n"
  by (auto simp: open_list_def tested_list_def)

lemma list_exclusive: "open_list h n ps \<Longrightarrow> \<not> tested_list h n ps"
  by (auto simp: open_list_def tested_list_def)

lemma open_list_scan:
  assumes "open_list (pm_heap c) n ps"
  shows "any_clean c ps = Inr True" "any_accessed c ps = Inr False"
proof -
  have all: "\<forall>p \<in> set ps. \<exists>f. pm_heap c p = Some f \<and> fo_state f = CLEAN" and "ps \<noteq> []"
    using assms by (auto simp: open_list_def)
  then show "any_clean c ps = Inr True" by (cases ps) (auto simp: pm_deref_def)
  from all show "any_accessed c ps = Inr False" by (induction ps) (auto simp: pm_deref_def)
qed

lemma tested_list_scan:
  assumes "tested_list (pm_heap c) n ps"
  shows "any_clean c ps = Inr False" "any_accessed c ps = Inr True" "length ps = 1"
    "\<exists>f. pm_deref c (ps ! 0) = Inr f \<and> fo_state f = ACCESSED"
  using assms by (auto simp: tested_list_def pm_deref_def)

section \<open>Specification\<close>

datatype name_state = Untouched | Accessed | Opened nat

datatype fd_use = Unused | Holds string | Dangling

definition abs_name :: "fileperm_checker \<Rightarrow> string \<Rightarrow> name_state" where
  "abs_name c n = (case pm_files c n of
       None \<Rightarrow> Untouched
     | Some ps \<Rightarrow> if tested_list (pm_heap c) n ps then Accessed else Opened (length ps))"

definition abs_fd :: "fileperm_checker \<Rightarrow> uint64_t \<Rightarrow> fd_use" where
  "abs_fd c fd = (case pm_by_fd c fd of
       None \<Rightarrow> Unused
     | Some p \<Rightarrow> (case pm_heap c p of None \<Rightarrow> Dangling | Some f \<Rightarrow> Holds (fo_name f)))"

definition perm_abs :: "fileperm_checker \<Rightarrow> (string \<Rightarrow> name_state) \<times> (uint64_t \<Rightarrow> fd_use)" where
  "perm_abs c = (abs_name c, abs_fd c)"

fun open_one :: "name_state \<Rightarrow> name_state" where
  "open_one (Opened k) = Opened (Suc k)"
| "open_one _ = Opened 1"

fun close_one :: "name_state \<Rightarrow> name_state" where
  "close_one (Opened (Suc (Suc k))) = Opened (Suc k)"
| "close_one _ = Untouched"

text \<open>
  What the three parsing routines promise. The only fault left is the use of the object of a
  descriptor that was closed before; no assertion fails.
\<close>

definition spec_access :: "string \<Rightarrow> uint32_t \<Rightarrow> (string \<Rightarrow> name_state) \<times> (uint64_t \<Rightarrow> fd_use) \<Rightarrow>
    (bool \<times> (string \<Rightarrow> name_state) \<times> (uint64_t \<Rightarrow> fd_use)) result" where
  "spec_access n mode a =
     (if mode = R_OK then Inr (False, a)
      else case fst a n of
          Opened k \<Rightarrow> Inr (True, a)
        | _ \<Rightarrow> Inr (False, (fst a)(n := Accessed), snd a))"

definition spec_open :: "string \<Rightarrow> uint64_t \<Rightarrow> (string \<Rightarrow> name_state) \<times> (uint64_t \<Rightarrow> fd_use) \<Rightarrow>
    (bool \<times> (string \<Rightarrow> name_state) \<times> (uint64_t \<Rightarrow> fd_use)) result" where
  "spec_open n fd a =
     (if fst a n = Accessed then Inr (True, a)
      else if snd a fd = Dangling then Inl UseAfterFree
      else Inr (False, (fst a)(n := open_one (fst a n)), (snd a)(fd := Holds n)))"

definition spec_close :: "uint64_t \<Rightarrow> (string \<Rightarrow> name_state) \<times> (uint64_t \<Rightarrow> fd_use) \<Rightarrow>
    (bool \<times> (string \<Rightarrow> name_state) \<times> (uint64_t \<Rightarrow> fd_use)) result" where
  "spec_close fd a =
     (case snd a fd of
        Unused \<Rightarrow> Inr (False, a)
      | Dangling \<Rightarrow> Inl UseAfterFree
      | Holds n \<Rightarrow> Inr (False, (fst a)(n := close_one (fst a n)), (snd a)(fd := Dangling)))"

section \<open>The parsing routines meet the specification\<close>

lemma fresh_list: "pm_inv c \<Longrightarrow> pm_files c m = Some ps \<Longrightarrow> pm_next c \<notin> set ps"
  using pm_fresh [of c] pm_invD(2) [of c m ps] list_live by fastforce

definition pm_install :: "fileperm_checker \<Rightarrow> file_object \<Rightarrow> nat list \<Rightarrow> (uint64_t \<rightharpoonup> nat) \<Rightarrow> fileperm_checker" where
  "pm_install c f qs B = \<lparr>pm_heap = (pm_heap c)(pm_next c \<mapsto> f), pm_next = Suc (pm_next c),
     pm_files = (pm_files c)(fo_name f \<mapsto> qs), pm_by_fd = B\<rparr>"

lemma pm_inv_install:
  assumes c: "pm_inv c"
    and qs: "open_list ((pm_heap c)(pm_next c \<mapsto> f)) (fo_name f) qs \<or> tested_list ((pm_heap c)(pm_next c \<mapsto> f)) (fo_name f) qs"
    and mem: "pm_next c \<in> set qs" "\<And>ps. pm_files c (fo_name f) = Some ps \<Longrightarrow> set ps \<subseteq> set qs"
    and B: "\<And>fd p. B fd = Some p \<Longrightarrow> pm_by_fd c fd = Some p \<or> (p = pm_next c \<and> fo_fd f = fd \<and> fo_state f = CLEAN)"
  shows "pm_inv (pm_install c f qs B)"
proof -
  let ?h = "(pm_heap c)(pm_next c \<mapsto> f)" and ?F = "(pm_files c)(fo_name f \<mapsto> qs)"
  have lists: "open_list ?h n ps \<or> tested_list ?h n ps" if "?F n = Some ps" for n ps
  proof (cases "n = fo_name f")
    case True
    with that qs show ?thesis by simp
  next
    case False
    with that have "pm_files c n = Some ps" by simp
    with fresh_list [OF c] pm_invD(2) [OF c] show ?thesis by simp
  qed
  have live: "\<exists>ps. ?F (fo_name g) = Some ps \<and> p \<in> set ps" if "?h p = Some g" for p g
  proof (cases "p = pm_next c")
    case True
    with that mem(1) show ?thesis by simp
  next
    case False
    with that pm_invD(3) [OF c, of p g] obtain ps where "pm_files c (fo_name g) = Some ps" "p \<in> set ps" by auto
    with mem(2) show ?thesis by auto
  qed
  have by_fd: "p < Suc (pm_next c) \<and> (?h p = Some g \<longrightarrow> fo_fd g = fd \<and> fo_state g = CLEAN)" if "B fd = Some p" for fd p g
    using B [OF that] pm_invD(5) [OF c, of fd p] pm_invD(6) [OF c, of fd p g] by auto
  have "p < Suc (pm_next c)" if "?h p = Some g" for p g
    using that pm_invD(4) [OF c, of p g] by (cases "p = pm_next c") auto
  with lists live by_fd pm_invD(1) [OF c] show ?thesis by (simp add: pm_inv_def pm_install_def)
qed

lemma abs_name_install:
  assumes "pm_inv c"
  shows "abs_name (pm_install c f qs B) = (abs_name c)(fo_name f :=
    (if tested_list ((pm_heap c)(pm_next c \<mapsto> f)) (fo_name f) qs then Accessed else Opened (length qs)))"
  using fresh_list [OF assms] by (auto simp: fun_eq_iff abs_name_def pm_install_def split: option.split)

lemma abs_fd_keep:
  assumes "pm_inv c"
  shows "abs_fd (pm_install c f qs (pm_by_fd c)) = abs_fd c"
  using pm_invD(5) [OF assms] by (fastforce simp: fun_eq_iff abs_fd_def pm_install_def split: option.split)

lemma abs_fd_install:
  assumes "pm_inv c"
  shows "abs_fd (pm_install c f qs ((pm_by_fd c)(fd \<mapsto> pm_next c))) = (abs_fd c)(fd := Holds (fo_name f))"
  using pm_invD(5) [OF assms] by (fastforce simp: fun_eq_iff abs_fd_def pm_install_def split: option.split)

definition refines_step :: "(Result \<times> fileperm_checker) result \<Rightarrow>
    (bool \<times> (string \<Rightarrow> name_state) \<times> (uint64_t \<Rightarrow> fd_use)) result \<Rightarrow> bool" where
  "refines_step x y \<longleftrightarrow> abs_step perm_abs x = y \<and> (\<forall>r c'. x = Inr (r, c') \<longrightarrow> pm_inv c')"

lemma refines_stepI:
  "pm_inv c' \<Longrightarrow> (is_error r, perm_abs c') = y \<Longrightarrow> refines_step (Inr (r, c')) (Inr y)"
  by (auto simp: refines_step_def)

lemma parseAccess_refines:
  assumes c: "pm_inv c"
  shows "refines_step (FilePerm_parseAccess c n mode) (spec_access n mode (perm_abs c))"
proof (cases "mode = R_OK")
  case True
  with c show ?thesis by (simp add: FilePerm_parseAccess_def spec_access_def refines_step_def)
next
  case mode: False
  show ?thesis
  proof (cases "pm_files c n")
    case None
    let ?f = "setState ACCESSED (new_FileObject n (- 1) (- 1))"
    let ?c = "pm_install c ?f [pm_next c] (pm_by_fd c)"
    have t: "tested_list ((pm_heap c)(pm_next c \<mapsto> ?f)) n [pm_next c]" by (simp add: tested_list_def)
    have "FilePerm_parseAccess c n mode = Inr (IMPORTANT, ?c)"
      using mode None by (simp add: FilePerm_parseAccess_def pm_new_def pm_install_def)
    moreover have "pm_inv ?c" by (rule pm_inv_install [OF c]) (use t None in simp_all)
    moreover have "spec_access n mode (perm_abs c) = Inr (False, (abs_name c)(n := Accessed), abs_fd c)"
      using mode None by (simp add: spec_access_def perm_abs_def abs_name_def)
    ultimately show ?thesis using t abs_name_install [OF c, of ?f] abs_fd_keep [OF c, of ?f]
      by (simp add: refines_step_def perm_abs_def)
  next
    case (Some ps)
    from pm_invD(2) [OF c Some] show ?thesis
    proof
      assume o: "open_list (pm_heap c) n ps"
      then show ?thesis using c Some mode list_exclusive [OF o] open_list_scan [OF o]
        by (simp add: FilePerm_parseAccess_def spec_access_def refines_step_def perm_abs_def abs_name_def)
    next
      assume t: "tested_list (pm_heap c) n ps"
      then have "(abs_name c)(n := Accessed) = abs_name c" using Some by (auto simp: abs_name_def)
      then show ?thesis using c Some mode t tested_list_scan [OF t]
        by (auto simp: FilePerm_parseAccess_def spec_access_def refines_step_def perm_abs_def abs_name_def)
    qed
  qed
qed
lemma open_list_add:
  assumes c: "pm_inv c" and f: "fo_name f = n" "fo_state f = CLEAN"
    and ps: "case pm_files c n of None \<Rightarrow> ps = [] | Some qs \<Rightarrow> ps = qs \<and> open_list (pm_heap c) n qs"
  shows "open_list ((pm_heap c)(pm_next c \<mapsto> f)) n (ps @ [pm_next c])"
  using assms fresh_list [OF c, of n] by (auto simp: open_list_def split: option.splits)

lemma by_fd_deref:
  assumes "pm_inv c"
  shows "(case pm_by_fd c fd of
            Some p \<Rightarrow> bind_result (pm_deref (c\<lparr>pm_heap := (pm_heap c)(pm_next c \<mapsto> f), pm_next := k, pm_files := F\<rparr>) p) (\<lambda>f. Inr ())
          | None \<Rightarrow> Inr ()) = (if abs_fd c fd = Dangling then Inl UseAfterFree else Inr ())"
proof (cases "pm_by_fd c fd")
  case (Some p)
  with pm_invD(5) [OF assms Some] show ?thesis
    by (cases "pm_heap c p") (auto simp: abs_fd_def pm_deref_def)
qed (simp add: abs_fd_def)

lemma parseOpen_refines:
  assumes c: "pm_inv c"
  shows "refines_step (FilePerm_parseOpen c n fd) (spec_open n fd (perm_abs c))"
proof (cases "\<exists>ps. pm_files c n = Some ps \<and> tested_list (pm_heap c) n ps")
  case True
  then obtain ps where ps: "pm_files c n = Some ps" "tested_list (pm_heap c) n ps" by blast
  with c tested_list_scan(2) [OF ps(2)] show ?thesis
    by (simp add: FilePerm_parseOpen_def spec_open_def refines_step_def perm_abs_def abs_name_def)
next
  case False
  define ps where "ps = (case pm_files c n of None \<Rightarrow> [] | Some qs \<Rightarrow> qs)"
  let ?f = "setState CLEAN (new_FileObject n (- 1) fd)"
  let ?c = "pm_install c ?f (ps @ [pm_next c]) ((pm_by_fd c)(fd \<mapsto> pm_next c))"
  have sc: "(case pm_files c n of Some file_list \<Rightarrow> any_accessed c file_list | None \<Rightarrow> Inr False) = Inr False"
    using False pm_invD(2) [OF c, of n] open_list_scan(2) [of c n] by (auto split: option.split)
  have o: "open_list ((pm_heap c)(pm_next c \<mapsto> ?f)) n (ps @ [pm_next c])"
    by (rule open_list_add [OF c]) (use False pm_invD(2) [OF c, of n] in \<open>auto simp: ps_def split: option.split\<close>)
  have code: "FilePerm_parseOpen c n fd = (if abs_fd c fd = Dangling then Inl UseAfterFree else Inr (IMPORTANT, ?c))"
    using by_fd_deref [OF c, where fd = fd and f = ?f] unfolding FilePerm_parseOpen_def sc
    by (simp add: pm_new_def pm_install_def ps_def split: option.split)
  have inv: "pm_inv ?c"
    by (rule pm_inv_install [OF c]) (use o in \<open>auto simp: ps_def split: option.splits if_splits\<close>)
  have "abs_name ?c = (abs_name c)(n := Opened (Suc (length ps)))"
    using abs_name_install [OF c, of ?f] list_exclusive [OF o] by simp
  moreover have "abs_name c n \<noteq> Accessed" "open_one (abs_name c n) = Opened (Suc (length ps))"
    using False by (auto simp: abs_name_def ps_def split: option.split)
  ultimately show ?thesis using inv abs_fd_install [OF c, of ?f] unfolding code
    by (simp add: refines_step_def spec_open_def perm_abs_def)
qed

lemma pm_invI:
  assumes "finite (dom (pm_files c))"
    and "\<And>n ps. pm_files c n = Some ps \<Longrightarrow> open_list (pm_heap c) n ps \<or> tested_list (pm_heap c) n ps"
    and "\<And>p f. pm_heap c p = Some f \<Longrightarrow> \<exists>ps. pm_files c (fo_name f) = Some ps \<and> p \<in> set ps"
    and "\<And>p f. pm_heap c p = Some f \<Longrightarrow> p < pm_next c"
    and "\<And>fd p. pm_by_fd c fd = Some p \<Longrightarrow> p < pm_next c"
    and "\<And>fd p f. pm_by_fd c fd = Some p \<Longrightarrow> pm_heap c p = Some f \<Longrightarrow> fo_fd f = fd \<and> fo_state f = CLEAN"
  shows "pm_inv c"
  using assms unfolding pm_inv_def by blast

lemma delete_lists:
  assumes c: "pm_inv c" and p: "pm_heap c p = Some f" and ps: "pm_files c (fo_name f) = Some ps" "open_list (pm_heap c) (fo_name f) ps"
  shows "p \<in> set ps"
    and "length ps \<noteq> 1 \<Longrightarrow> open_list ((pm_heap c)(p := None)) (fo_name f) (remove1 p ps)"
    and "n \<noteq> fo_name f \<Longrightarrow> pm_files c n = Some qs \<Longrightarrow> p \<notin> set qs"
proof -
  from pm_invD(3) [OF c p] ps(1) show mem: "p \<in> set ps" by simp
  show "open_list ((pm_heap c)(p := None)) (fo_name f) (remove1 p ps)" if "length ps \<noteq> 1"
  proof -
    have "remove1 p ps \<noteq> []"
    proof
      assume "remove1 p ps = []"
      with mem have "length ps - 1 = 0" by (metis length_remove1 list.size(3))
      with mem that show False by (cases ps) auto
    qed
    with ps(2) show ?thesis by (simp add: open_list_def)
  qed
  show "p \<notin> set qs" if "n \<noteq> fo_name f" "pm_files c n = Some qs"
    using pm_invD(2) [OF c that(2)] list_live [of "pm_heap c" n qs p] p that(1) by auto
qed

lemma pm_inv_delete:
  assumes c: "pm_inv c" and p: "pm_heap c p = Some f" and ps: "pm_files c (fo_name f) = Some ps" "open_list (pm_heap c) (fo_name f) ps"
    and F: "F = (pm_files c)(fo_name f := (if length ps = 1 then None else Some (remove1 p ps)))"
  shows "pm_inv (c\<lparr>pm_files := F, pm_heap := (pm_heap c)(p := None)\<rparr>)"
proof -
  let ?h = "(pm_heap c)(p := None)"
  note dl = delete_lists [OF c p ps]
  have lists: "open_list ?h n qs \<or> tested_list ?h n qs" if "F n = Some qs" for n qs
  proof (cases "n = fo_name f")
    case True
    with that F dl(2) show ?thesis by (auto split: if_splits)
  next
    case False
    with that F have qs: "pm_files c n = Some qs" by simp
    with pm_invD(2) [OF c qs] dl(3) [OF False qs] show ?thesis by simp
  qed
  have live: "\<exists>qs. F (fo_name g) = Some qs \<and> q \<in> set qs" if "?h q = Some g" for q g
  proof -
    from that have q: "q \<noteq> p" "pm_heap c q = Some g" by (auto split: if_splits)
    from pm_invD(3) [OF c q(2)] obtain qs where qs: "pm_files c (fo_name g) = Some qs" "q \<in> set qs" by blast
    show ?thesis
    proof (cases "fo_name g = fo_name f")
      case True
      with qs ps(1) have "q \<in> set ps" by simp
      moreover from this q(1) dl(1) have "length ps \<noteq> 1" by (auto simp: length_Suc_conv)
      ultimately show ?thesis using True q(1) F by simp
    qed (use qs F in simp)
  qed
  have sub: "pm_heap c q = Some g" if "?h q = Some g" for q g using that by (auto split: if_splits)
  have fin: "finite (dom F)" using pm_invD(1) [OF c] by (auto simp: F intro: finite_subset)
  have bound: "q < pm_next c" if "?h q = Some g" for q g using pm_invD(4) [OF c sub [OF that]] .
  have fds: "fo_fd g = fd \<and> fo_state g = CLEAN" if "pm_by_fd c fd = Some q" "?h q = Some g" for fd q g
    using pm_invD(6) [OF c that(1) sub [OF that(2)]] .
  show ?thesis by (rule pm_invI; simp del: fun_upd_apply; rule fin lists live bound fds pm_invD(5) [OF c]; assumption?)
qed

lemma abs_name_delete:
  assumes c: "pm_inv c" and p: "pm_heap c p = Some f" and ps: "pm_files c (fo_name f) = Some ps" "open_list (pm_heap c) (fo_name f) ps"
    and F: "F = (pm_files c)(fo_name f := (if length ps = 1 then None else Some (remove1 p ps)))"
  shows "abs_name (c\<lparr>pm_files := F, pm_heap := (pm_heap c)(p := None)\<rparr>) =
    (abs_name c)(fo_name f := close_one (abs_name c (fo_name f)))"
proof
  fix n
  note dl = delete_lists [OF c p ps]
  let ?c = "c\<lparr>pm_files := F, pm_heap := (pm_heap c)(p := None)\<rparr>"
  show "abs_name ?c n = ((abs_name c)(fo_name f := close_one (abs_name c (fo_name f)))) n"
  proof (cases "n = fo_name f")
    case False
    then show ?thesis using dl(3) [OF False] by (auto simp: abs_name_def F split: option.split)
  next
    case True
    have old: "abs_name c (fo_name f) = Opened (length ps)" using ps list_exclusive by (simp add: abs_name_def)
    show ?thesis
    proof (cases "length ps = 1")
      case one: True
      with old show ?thesis by (simp add: True abs_name_def F)
    next
      case many: False
      from dl(1) have "length ps \<noteq> 0" by auto
      with many obtain k where k: "length ps = Suc (Suc k)" by (metis One_nat_def not0_implies_Suc)
      have "length (remove1 p ps) = Suc k" using dl(1) k by (simp add: length_remove1)
      with many old k list_exclusive [OF dl(2) [OF many]] show ?thesis by (simp add: True abs_name_def F)
    qed
  qed
qed

lemma parseClose_refines:
  assumes c: "pm_inv c"
  shows "refines_step (FilePerm_parseClose c fd) (spec_close fd (perm_abs c))"
proof (cases "pm_by_fd c fd")
  case None
  with c show ?thesis by (simp add: FilePerm_parseClose_def spec_close_def refines_step_def perm_abs_def abs_fd_def)
next
  case p: (Some p)
  show ?thesis
  proof (cases "pm_heap c p")
    case None
    with p show ?thesis
      by (simp add: FilePerm_parseClose_def pm_deref_def spec_close_def refines_step_def perm_abs_def abs_fd_def)
  next
    case f: (Some f)
    from pm_invD(3) [OF c f] obtain ps where ps: "pm_files c (fo_name f) = Some ps" "p \<in> set ps" by blast
    have o: "open_list (pm_heap c) (fo_name f) ps"
      using pm_invD(2) [OF c ps(1)] pm_invD(6) [OF c p f] ps(2) f by (auto simp: tested_list_def)
    define F where "F = (pm_files c)(fo_name f := (if length ps = 1 then None else Some (remove1 p ps)))"
    let ?c = "c\<lparr>pm_files := F, pm_heap := (pm_heap c)(p := None)\<rparr>"
    have code: "FilePerm_parseClose c fd = Inr (IMPORTANT, ?c)"
      using p f ps by (auto simp: FilePerm_parseClose_def pm_deref_def F_def length_Suc_conv)
    have inv: "pm_inv ?c" by (rule pm_inv_delete [OF c f ps(1) o F_def])
    have names: "abs_name ?c = (abs_name c)(fo_name f := close_one (abs_name c (fo_name f)))"
      by (rule abs_name_delete [OF c f ps(1) o F_def])
    have fds: "abs_fd ?c = (abs_fd c)(fd := Dangling)"
      using p pm_invD(6) [OF c _ f] by (auto simp: fun_eq_iff abs_fd_def split: option.split)
    from code inv names fds p f show ?thesis
      by (simp add: refines_step_def spec_close_def perm_abs_def abs_fd_def [of c fd])
  qed
qed
section \<open>Paths of calls\<close>

text \<open>The calls of a path; names are pointers into the memory of the process.\<close>

datatype perm_event = PAccess uint64_t uint64_t | PStat uint64_t | POpen uint64_t uint64_t | PClose uint64_t

fun perm_step :: "executor \<Rightarrow> exec_state \<Rightarrow> perm_event \<Rightarrow> fileperm_checker \<Rightarrow> (Result \<times> fileperm_checker) result" where
  "perm_step E s (PAccess a mode) c = FilePerm_onCall E c s ''access'' [] (Some [0, 0, a, mode])"
| "perm_step E s (PStat a) c = FilePerm_onCall E c s ''stat'' [] (Some [0, 0, a])"
| "perm_step E s (POpen fd a) c = FilePerm_onCall E c s ''open'' [] (Some [fd, 0, a])"
| "perm_step E s (PClose fd) c = FilePerm_onCall E c s ''close'' [] (Some [0, 0, fd])"

fun perm_spec :: "executor \<Rightarrow> perm_event \<Rightarrow> (string \<Rightarrow> name_state) \<times> (uint64_t \<Rightarrow> fd_use) \<Rightarrow>
    (bool \<times> (string \<Rightarrow> name_state) \<times> (uint64_t \<Rightarrow> fd_use)) result" where
  "perm_spec E (PAccess a mode) = spec_access (ex_cstring E a) (ucast mode)"
| "perm_spec E (PStat a) = spec_access (ex_cstring E a) 0x1481"
| "perm_spec E (POpen fd a) = spec_open (ex_cstring E a) fd"
| "perm_spec E (PClose fd) = spec_close fd"

lemma refines_step_mask:
  assumes "refines_step x y" "\<not> is_error m"
  shows "abs_step perm_abs (bind_result x (\<lambda>(r, c'). Inr (r OR m, c'))) = y"
  using assms by (cases x) (auto simp: refines_step_def)

lemma refines_inv: "refines_step x y \<Longrightarrow> x = Inr (r, c) \<Longrightarrow> pm_inv c"
  by (simp add: refines_step_def)

lemma perm_step_eq:
  "perm_step E s (PAccess a mode) c =
     bind_result (FilePerm_parseAccess c (ex_cstring E a) (ucast mode)) (\<lambda>(r, c'). Inr (r OR (NEED_ARG0 OR NEED_ARG1), c'))"
  "perm_step E s (PStat a) c =
     bind_result (FilePerm_parseAccess c (ex_cstring E a) 0x1481) (\<lambda>(r, c'). Inr (r OR (NEED_ARG0 OR NEED_ARG1), c'))"
  "perm_step E s (POpen fd a) c =
     bind_result (FilePerm_parseOpen c (ex_cstring E a) fd) (\<lambda>(r, c'). Inr (r OR (NEED_ARG0 OR NEED_RET), c'))"
  "perm_step E s (PClose fd) c =
     bind_result (FilePerm_parseClose c fd) (\<lambda>(r, c'). Inr (r OR NEED_ARG0, c'))"
  by (simp_all add: FilePerm_onCall_def)

lemma perm_step_refines:
  assumes "pm_inv c"
  shows "abs_step perm_abs (perm_step E s ev c) = perm_spec E ev (perm_abs c)"
    and "perm_step E s ev c = Inr (r, c') \<Longrightarrow> pm_inv c'"
proof -
  note R = parseAccess_refines [OF assms] parseOpen_refines [OF assms] parseClose_refines [OF assms]
  show "abs_step perm_abs (perm_step E s ev c) = perm_spec E ev (perm_abs c)"
    by (cases ev; simp only: perm_step_eq perm_spec.simps; rule refines_step_mask; (rule R)?; simp)
  show "perm_step E s ev c = Inr (r, c') \<Longrightarrow> pm_inv c'"
    by (cases ev) (auto simp: perm_step_eq simp del: perm_step.simps
        dest: refines_inv [OF R(1)] refines_inv [OF R(2)] refines_inv [OF R(3)])
qed

interpretation perm: event_checker "perm_step E s" pm_inv perm_abs "perm_spec E" "\<lambda>_. True" for E s
  by unfold_locales (use perm_step_refines in blast)+

lemma perm_new: "pm_inv new_FilePermChecker" "perm_abs new_FilePermChecker = (\<lambda>_. Untouched, \<lambda>_. Unused)"
  by (simp_all add: pm_inv_def new_FilePermChecker_def perm_abs_def abs_name_def abs_fd_def fun_eq_iff)

lemma perm_run:
  "pm_inv c \<Longrightarrow> abs_run perm_abs (run_events (perm_step E s) evs c) = spec_events (perm_spec E) evs (perm_abs c)"
  by (rule perm.run_refines) (simp_all add: list_all_iff)

lemma perm_reach:
  "run_events (perm_step E s) evs new_FilePermChecker = Inr (rs, c) \<Longrightarrow> pm_inv c"
  using perm.run_inv [OF perm_new(1), of evs E s rs c] by (simp add: list_all_iff)

section \<open>Copies and destruction\<close>

lemma clone_list_spec:
  assumes "\<forall>p \<in> set ps. pm_heap other p \<noteq> None"
  shows "\<exists>c1. clone_list other ps c vec = Inr (vec @ [pm_next c..<pm_next c + length ps], c1) \<and>
    pm_next c1 = pm_next c + length ps \<and> pm_files c1 = pm_files c \<and>
    (\<forall>i < length ps. pm_heap c1 (pm_next c + i) = pm_heap other (ps ! i)) \<and>
    (\<forall>p. p < pm_next c \<or> pm_next c + length ps \<le> p \<longrightarrow> pm_heap c1 p = pm_heap c p) \<and>
    (\<forall>fd p. pm_by_fd c1 fd = Some p \<longrightarrow> pm_by_fd c fd = Some p \<or>
       (\<exists>i < length ps. p = pm_next c + i \<and> fd \<noteq> - 1 \<and> map_option fo_fd (pm_heap other (ps ! i)) = Some fd))"
  using assms
proof (induction ps arbitrary: c vec)
  case (Cons p ps)
  then obtain f where f: "pm_heap other p = Some f" by auto
  define c1 where "c1 = snd (pm_new c f)"
  define c2 where "c2 = (if fo_fd f \<noteq> - 1 then c1\<lparr>pm_by_fd := (pm_by_fd c1)(fo_fd f \<mapsto> pm_next c)\<rparr> else c1)"
  have c2: "pm_next c2 = Suc (pm_next c)" "pm_files c2 = pm_files c" "pm_heap c2 = (pm_heap c)(pm_next c \<mapsto> f)"
    "\<And>fd p. pm_by_fd c2 fd = Some p \<Longrightarrow> pm_by_fd c fd = Some p \<or> p = pm_next c \<and> fd \<noteq> - 1 \<and> fo_fd f = fd"
    by (auto simp: c2_def c1_def pm_new_def split: if_splits)
  have step: "clone_list other (p # ps) c vec = clone_list other ps c2 (vec @ [pm_next c])"
    using f by (simp add: pm_deref_def pm_new_def c2_def c1_def)
  have "\<forall>p \<in> set ps. pm_heap other p \<noteq> None" using Cons.prems by simp
  from Cons.IH [OF this, of c2 "vec @ [pm_next c]"] obtain c3 where
    c3: "clone_list other ps c2 (vec @ [pm_next c]) = Inr ((vec @ [pm_next c]) @ [pm_next c2..<pm_next c2 + length ps], c3)"
      "pm_next c3 = pm_next c2 + length ps" "pm_files c3 = pm_files c2"
      "\<forall>i < length ps. pm_heap c3 (pm_next c2 + i) = pm_heap other (ps ! i)"
      "\<forall>p. p < pm_next c2 \<or> pm_next c2 + length ps \<le> p \<longrightarrow> pm_heap c3 p = pm_heap c2 p"
      "\<forall>fd p. pm_by_fd c3 fd = Some p \<longrightarrow> pm_by_fd c2 fd = Some p \<or>
       (\<exists>i < length ps. p = pm_next c2 + i \<and> fd \<noteq> - 1 \<and> map_option fo_fd (pm_heap other (ps ! i)) = Some fd)" by blast
  have heap: "pm_heap c3 (pm_next c + i) = pm_heap other ((p # ps) ! i)" if "i < length (p # ps)" for i
    using that c3(4,5) c2 f by (cases i) auto
  have fds: "pm_by_fd c fd = Some q \<or> (\<exists>i < length (p # ps). q = pm_next c + i \<and> fd \<noteq> - 1 \<and>
      map_option fo_fd (pm_heap other ((p # ps) ! i)) = Some fd)" if q: "pm_by_fd c3 fd = Some q" for fd q
  proof -
    from c3(6) q consider "pm_by_fd c2 fd = Some q"
      | i where "i < length ps" "q = pm_next c2 + i" "fd \<noteq> - 1" "map_option fo_fd (pm_heap other (ps ! i)) = Some fd" by blast
    then show ?thesis
    proof cases
      case 1
      with c2(4) f show ?thesis by fastforce
    next
      case 2
      then have "Suc i < length (p # ps) \<and> q = pm_next c + Suc i \<and> fd \<noteq> - 1 \<and>
          map_option fo_fd (pm_heap other ((p # ps) ! Suc i)) = Some fd" by (simp add: c2(1))
      then show ?thesis by blast
    qed
  qed
  have "[pm_next c] @ [pm_next c2..<pm_next c2 + length ps] = [pm_next c..<pm_next c + length (p # ps)]"
    using upt_conv_Cons [of "pm_next c" "pm_next c + length (p # ps)"] by (simp add: c2(1) del: upt_Suc)
  with step c3(1) have "clone_list other (p # ps) c vec = Inr (vec @ [pm_next c..<pm_next c + length (p # ps)], c3)" by simp
  moreover have "pm_heap c3 q = pm_heap c q" if "q < pm_next c \<or> pm_next c + length (p # ps) \<le> q" for q
    using that c3(5) c2 by auto
  ultimately show ?case using c3(2,3) c2(1,2) heap fds by auto
qed simp

lemma clone_heap:
  assumes h: "\<forall>i < length ps. h1 (k + i) = h (ps ! i)"
  shows "open_list h n ps \<Longrightarrow> open_list h1 n [k..<k + length ps]"
    and "tested_list h n ps \<Longrightarrow> tested_list h1 n [k..<k + length ps]"
proof -
  have el: "h1 p = h (ps ! (p - k)) \<and> ps ! (p - k) \<in> set ps" if "p \<in> set [k..<k + length ps]" for p
    using that h [rule_format, of "p - k"] by auto
  show "open_list h1 n [k..<k + length ps]" if o: "open_list h n ps"
  proof -
    have "ps \<noteq> []" "\<forall>q \<in> set ps. \<exists>f. h q = Some f \<and> fo_name f = n \<and> fo_state f = CLEAN" using o by (auto simp: open_list_def)
    with el have "\<forall>p \<in> set [k..<k + length ps]. \<exists>f. h1 p = Some f \<and> fo_name f = n \<and> fo_state f = CLEAN" by metis
    with \<open>ps \<noteq> []\<close> show ?thesis by (simp add: open_list_def)
  qed
  show "tested_list h1 n [k..<k + length ps]" if "tested_list h n ps"
    using that h by (auto simp: tested_list_def)
qed

text \<open>What the loop over one name has done: \<open>c1\<close> holds copies of the objects \<open>ps\<close> at fresh places.\<close>

definition cloned :: "fileperm_checker \<Rightarrow> nat list \<Rightarrow> fileperm_checker \<Rightarrow> fileperm_checker \<Rightarrow> bool" where
  "cloned other ps c c1 \<longleftrightarrow> pm_next c1 = pm_next c + length ps \<and> pm_files c1 = pm_files c \<and>
    (\<forall>i < length ps. pm_heap c1 (pm_next c + i) = pm_heap other (ps ! i)) \<and>
    (\<forall>p. p < pm_next c \<or> pm_next c + length ps \<le> p \<longrightarrow> pm_heap c1 p = pm_heap c p) \<and>
    (\<forall>fd p. pm_by_fd c1 fd = Some p \<longrightarrow> pm_by_fd c fd = Some p \<or>
       (\<exists>i < length ps. p = pm_next c + i \<and> fd \<noteq> - 1 \<and> map_option fo_fd (pm_heap other (ps ! i)) = Some fd))"

lemma clonedD:
  assumes "cloned other ps c c1"
  shows "pm_next c1 = pm_next c + length ps" "pm_files c1 = pm_files c"
    and "i < length ps \<Longrightarrow> pm_heap c1 (pm_next c + i) = pm_heap other (ps ! i)"
    and "p < pm_next c \<or> pm_next c + length ps \<le> p \<Longrightarrow> pm_heap c1 p = pm_heap c p"
    and "pm_by_fd c1 fd = Some p \<Longrightarrow> pm_by_fd c fd = Some p \<or>
       (\<exists>i < length ps. p = pm_next c + i \<and> fd \<noteq> - 1 \<and> map_option fo_fd (pm_heap other (ps ! i)) = Some fd)"
  using assms unfolding cloned_def by blast+

lemma clone_list_cloned:
  assumes "pm_inv other" "pm_files other n = Some ps"
  shows "\<exists>c1. clone_list other ps c [] = Inr ([pm_next c..<pm_next c + length ps], c1) \<and> cloned other ps c c1"
proof -
  have "\<forall>p \<in> set ps. pm_heap other p \<noteq> None" using list_live [OF pm_invD(2) [OF assms]] by fastforce
  from clone_list_spec [OF this, of c "[]"] show ?thesis unfolding cloned_def by simp
qed

lemma list_cong:
  assumes "\<forall>q \<in> set qs. h1 q = h q"
  shows "open_list h1 m qs = open_list h m qs" "tested_list h1 m qs = tested_list h m qs"
  using assms by (simp_all add: open_list_def tested_list_def) (metis list.set_intros(1))

lemma cloned_old:
  assumes "cloned other ps c c1" "pm_inv c" "pm_files c m = Some qs"
  shows "open_list (pm_heap c1) m qs = open_list (pm_heap c) m qs" "tested_list (pm_heap c1) m qs = tested_list (pm_heap c) m qs"
proof -
  have "\<forall>q \<in> set qs. q < pm_next c" using pm_invD(2) [OF assms(2,3)] list_live pm_invD(4) [OF assms(2)] by blast
  with assms(1) have eq: "\<forall>q \<in> set qs. pm_heap c1 q = pm_heap c q" by (auto simp: cloned_def)
  from list_cong [OF eq] show "open_list (pm_heap c1) m qs = open_list (pm_heap c) m qs"
    "tested_list (pm_heap c1) m qs = tested_list (pm_heap c) m qs" by blast+
qed

lemma cloned_where:
  assumes "cloned other ps c c1" "pm_inv c" "pm_heap c1 p = Some f"
  obtains i where "i < length ps" "p = pm_next c + i" "pm_heap other (ps ! i) = Some f"
  | "p < pm_next c" "pm_heap c p = Some f"
proof (cases "p < pm_next c \<or> pm_next c + length ps \<le> p")
  case True
  with assms(3) clonedD(4) [OF assms(1) True] have "pm_heap c p = Some f" by simp
  with that(2) pm_invD(4) [OF assms(2)] show ?thesis by blast
next
  case False
  then have "p - pm_next c < length ps" "p = pm_next c + (p - pm_next c)" by auto
  with clonedD(3) [OF assms(1)] assms(3) that(1) show ?thesis by metis
qed

lemma cloned_inv:
  assumes o: "pm_inv other" "pm_files other n = Some ps" and c: "pm_inv c" "pm_files c n = None" and c1: "cloned other ps c c1"
  shows "pm_inv (c1\<lparr>pm_files := (pm_files c1)(n \<mapsto> [pm_next c..<pm_next c + length ps])\<rparr>)" (is "pm_inv ?c")
proof (rule pm_invI)
  note L = pm_invD(2) [OF o]
  have files: "pm_files ?c = (pm_files c)(n \<mapsto> [pm_next c..<pm_next c + length ps])" "pm_heap ?c = pm_heap c1"
    "pm_next ?c = pm_next c + length ps" "pm_by_fd ?c = pm_by_fd c1" using c1 by (simp_all add: cloned_def)
  have h: "\<forall>i < length ps. pm_heap c1 (pm_next c + i) = pm_heap other (ps ! i)" using c1 by (simp add: cloned_def)
  show "finite (dom (pm_files ?c))" using pm_invD(1) [OF c(1)] files(1) by simp
  show "open_list (pm_heap ?c) m qs \<or> tested_list (pm_heap ?c) m qs" if "pm_files ?c m = Some qs" for m qs
  proof (cases "m = n")
    case True
    with that L clone_heap [OF h, of n] show ?thesis unfolding files by auto
  next
    case False
    with that have "pm_files c m = Some qs" unfolding files by simp
    with cloned_old [OF c1 c(1) this] pm_invD(2) [OF c(1) this] show ?thesis unfolding files by simp
  qed
  show "\<exists>qs. pm_files ?c (fo_name f) = Some qs \<and> p \<in> set qs" if p: "pm_heap ?c p = Some f" for p f
  proof (rule cloned_where [OF c1 c(1) p [unfolded files]])
    fix i assume i: "i < length ps" "p = pm_next c + i" "pm_heap other (ps ! i) = Some f"
    then have "fo_name f = n" using list_live [OF L, of "ps ! i"] by auto
    with i show ?thesis unfolding files by simp
  next
    assume "p < pm_next c" "pm_heap c p = Some f"
    with pm_invD(3) [OF c(1), of p f] c(2) show ?thesis unfolding files by auto
  qed
  show "p < pm_next ?c" if p: "pm_heap ?c p = Some f" for p f
    by (rule cloned_where [OF c1 c(1) p [unfolded files]]) (simp_all add: files)
  show "p < pm_next ?c" if "pm_by_fd ?c fd = Some p" for fd p
    using clonedD(5) [OF c1, of fd p] that pm_invD(5) [OF c(1), of fd p] unfolding files by auto
  show "fo_fd f = fd \<and> fo_state f = CLEAN" if p: "pm_by_fd ?c fd = Some p" "pm_heap ?c p = Some f" for fd p f
  proof -
    consider "pm_by_fd c fd = Some p"
      | i where "i < length ps" "p = pm_next c + i" "fd \<noteq> - 1" "map_option fo_fd (pm_heap other (ps ! i)) = Some fd"
      using clonedD(5) [OF c1 p(1) [unfolded files]] by blast
    then show ?thesis
    proof cases
      case 1
      with pm_invD(5) [OF c(1) 1] p(2) clonedD(4) [OF c1, of p] have "pm_heap c p = Some f" unfolding files by simp
      with pm_invD(6) [OF c(1) 1] show ?thesis by blast
    next
      case 2
      with h p(2) have "pm_heap other (ps ! i) = Some f" "fo_fd f = fd" "ps ! i \<in> set ps" unfolding files by auto
      with L 2(3) show ?thesis by (auto simp: open_list_def tested_list_def)
    qed
  qed
qed

lemma cloned_abs:
  assumes o: "pm_inv other" "pm_files other n = Some ps" and c: "pm_inv c" and c1: "cloned other ps c c1"
  shows "abs_name (c1\<lparr>pm_files := (pm_files c1)(n \<mapsto> [pm_next c..<pm_next c + length ps])\<rparr>) = (abs_name c)(n := abs_name other n)"
proof
  fix m
  let ?c = "c1\<lparr>pm_files := (pm_files c1)(n \<mapsto> [pm_next c..<pm_next c + length ps])\<rparr>"
  have h: "\<forall>i < length ps. pm_heap c1 (pm_next c + i) = pm_heap other (ps ! i)" and f: "pm_files c1 = pm_files c"
    using c1 by (simp_all add: cloned_def)
  show "abs_name ?c m = ((abs_name c)(n := abs_name other n)) m"
  proof (cases "m = n")
    case False
    with cloned_old(2) [OF c1 c] show ?thesis by (auto simp: abs_name_def f split: option.split)
  next
    case True
    from pm_invD(2) [OF o] show ?thesis
    proof
      assume ol: "open_list (pm_heap other) n ps"
      from list_exclusive [OF ol] list_exclusive [OF clone_heap(1) [OF h ol]] show ?thesis using True o(2) by (simp add: abs_name_def)
    next
      assume t: "tested_list (pm_heap other) n ps"
      from clone_heap(2) [OF h t] t show ?thesis using True o(2) by (simp add: abs_name_def)
    qed
  qed
qed

lemma clone_files_spec:
  assumes o: "pm_inv other" and "distinct names" "set names \<subseteq> dom (pm_files other)" "pm_inv c" "dom (pm_files c) \<inter> set names = {}"
  shows "\<exists>c'. clone_files other names c = Inr c' \<and> pm_inv c' \<and>
    abs_name c' = (\<lambda>m. if m \<in> set names then abs_name other m else abs_name c m)"
  using assms(2-)
proof (induction names arbitrary: c)
  case (Cons n names)
  then obtain ps where ps: "pm_files other n = Some ps" by auto
  have n: "pm_files c n = None" using Cons.prems(4) by auto
  from clone_list_cloned [OF o ps, of c] obtain c1 where
    c1: "clone_list other ps c [] = Inr ([pm_next c..<pm_next c + length ps], c1)" "cloned other ps c c1" by blast
  let ?c = "c1\<lparr>pm_files := (pm_files c1)(n \<mapsto> [pm_next c..<pm_next c + length ps])\<rparr>"
  have inv: "pm_inv ?c" by (rule cloned_inv [OF o ps Cons.prems(3) n c1(2)])
  have "dom (pm_files ?c) \<inter> set names = {}" using Cons.prems(1,4) c1(2) by (auto simp: cloned_def)
  with Cons.IH [OF _ _ inv] Cons.prems(1,2) obtain c' where c': "clone_files other names ?c = Inr c'" "pm_inv c'"
    "abs_name c' = (\<lambda>m. if m \<in> set names then abs_name other m else abs_name ?c m)" by (simp del: fun_upd_apply) blast
  have "abs_name c' = (\<lambda>m. if m \<in> set (n # names) then abs_name other m else abs_name c m)"
    unfolding c'(3) cloned_abs [OF o ps Cons.prems(3) c1(2)] by auto
  with c'(1,2) c1(1) ps show ?case by simp
qed simp

lemma FilePerm_clone_spec:
  assumes c: "pm_inv c"
  shows "\<exists>c'. FilePerm_clone c = Inr c' \<and> pm_inv c' \<and> abs_name c' = abs_name c"
proof -
  define names where "names = sorted_list_of_set (dom (pm_files c))"
  have names: "set names = dom (pm_files c)" "distinct names" using pm_invD(1) [OF c] by (simp_all add: names_def)
  have new: "dom (pm_files new_FilePermChecker) \<inter> set names = {}" by (simp add: new_FilePermChecker_def)
  from clone_files_spec [OF c names(2) _ perm_new(1) new] names(1) obtain c' where
    c': "FilePerm_clone c = Inr c'" "pm_inv c'"
      "abs_name c' = (\<lambda>m. if m \<in> set names then abs_name c m else abs_name new_FilePermChecker m)"
    by (auto simp: FilePerm_clone_def names_def)
  have "abs_name c' m = abs_name c m" for m
    unfolding c'(3) names(1) by (simp add: abs_name_def new_FilePermChecker_def domIff)
  with c'(1,2) show ?thesis by blast
qed

lemma delete_all_spec:
  assumes "distinct ps" "\<forall>p \<in> set ps. h p \<noteq> None"
  shows "delete_all ps h = Inr (h |` (- set ps))"
  using assms
proof (induction ps arbitrary: h)
  case (Cons p ps)
  have e: "(h(p := None)) |` (- set ps) = h |` (- set (p # ps))" by (auto simp: restrict_map_def fun_eq_iff)
  have "delete_all ps (h(p := None)) = Inr ((h(p := None)) |` (- set ps))" by (rule Cons.IH) (use Cons.prems in auto)
  with Cons.prems e show ?case by simp
qed (simp add: restrict_map_def fun_eq_iff)

lemma FilePerm_destroy_spec:
  assumes c: "pm_inv c"
  shows "FilePerm_destroy c = Inr Map.empty"
proof -
  define names where "names = sorted_list_of_set (dom (pm_files c))"
  have names: "set names = dom (pm_files c)" "distinct names" using pm_invD(1) [OF c] by (simp_all add: names_def)
  define ps where "ps = concat (map (\<lambda>n. the (pm_files c n)) names)"
  have lists: "open_list (pm_heap c) n (the (pm_files c n)) \<or> tested_list (pm_heap c) n (the (pm_files c n))" if "n \<in> set names" for n
    using that names(1) pm_invD(2) [OF c, of n] by auto
  have live: "\<exists>f. pm_heap c p = Some f \<and> fo_name f = n" if "n \<in> set names" "p \<in> set (the (pm_files c n))" for n p
    using list_live [OF lists [OF that(1)] that(2)] .
  have "distinct ps" unfolding ps_def
  proof (rule distinct_concat)
    have "inj_on (\<lambda>n. the (pm_files c n)) (set names)"
    proof (rule inj_onI)
      fix m n assume mn: "m \<in> set names" "n \<in> set names" "the (pm_files c m) = the (pm_files c n)"
      from lists [OF mn(1)] obtain p where p: "p \<in> set (the (pm_files c m))"
        by (cases "the (pm_files c m)") (auto simp: open_list_def tested_list_def)
      with live [OF mn(1) p] live [OF mn(2), of p] mn(3) show "m = n" by auto
    qed
    then show "distinct (map (\<lambda>n. the (pm_files c n)) names)" using names(2) by (simp add: distinct_map)
    show "distinct xs" if "xs \<in> set (map (\<lambda>n. the (pm_files c n)) names)" for xs
    proof -
      from that obtain n where "n \<in> set names" "xs = the (pm_files c n)" by auto
      with lists [of n] show ?thesis by (auto simp: open_list_def tested_list_def)
    qed
    show "set xs \<inter> set ys = {}" if "xs \<in> set (map (\<lambda>n. the (pm_files c n)) names)" "ys \<in> set (map (\<lambda>n. the (pm_files c n)) names)" "xs \<noteq> ys" for xs ys
    proof -
      from that obtain m n where mn: "m \<in> set names" "n \<in> set names" "xs = the (pm_files c m)" "ys = the (pm_files c n)" by auto
      with live [OF mn(1)] live [OF mn(2)] that(3) show ?thesis by fastforce
    qed
  qed
  moreover have "\<forall>p \<in> set ps. pm_heap c p \<noteq> None" using live by (fastforce simp: ps_def)
  ultimately have "FilePerm_destroy c = Inr (pm_heap c |` (- set ps))"
    using delete_all_spec [of ps "pm_heap c"] by (simp add: FilePerm_destroy_def ps_def names_def)
  moreover have "pm_heap c |` (- set ps) = Map.empty"
  proof
    fix p
    show "(pm_heap c |` (- set ps)) p = None"
      using pm_invD(3) [OF c, of p] names(1) by (cases "pm_heap c p") (force simp: restrict_map_def ps_def)+
  qed
  ultimately show ?thesis by simp
qed

section \<open>Properties\<close>

text \<open>
  C17: The file permission checker follows its specification on every path of calls. Name by name it
  keeps untouched, tested by name, or the number of open descriptors; it returns an error exactly for
  a test of an open file and an open of a tested one; none of its assertions ever fails. The only
  fault is the use of a deleted object, exactly when a descriptor that was closed is closed again
  or returned again by \<open>open\<close>.
\<close>

theorem FilePerm_refines_spec:
  "abs_run perm_abs (run_events (perm_step E s) evs new_FilePermChecker) =
     spec_events (perm_spec E) evs (\<lambda>_. Untouched, \<lambda>_. Unused)"
  using perm_run [OF perm_new(1), of E s evs] perm_new(2) by simp

text \<open>
  C37: \<open>parseClose\<close> deletes the object of the descriptor and leaves its address in \<open>files_by_fd\<close>.
  Hence, on any path, opening a file, closing it and opening again any file for which the
  operating system returns the same descriptor reads the deleted object.
\<close>

theorem FilePerm_reopen_dangling:
  assumes "run_events (perm_step E s) evs new_FilePermChecker = Inr (rs, c)"
    and "abs_name c (ex_cstring E a) \<noteq> Accessed" "abs_name c (ex_cstring E b) \<noteq> Accessed"
  shows "run_events (perm_step E s) [POpen fd a, PClose fd, POpen fd b] c = Inl UseAfterFree"
proof -
  have inv: "pm_inv c" by (rule perm_reach [OF assms(1)])
  have cl: "close_one (open_one q) \<noteq> Accessed" for q by (cases q rule: open_one.cases; simp) (metis close_one.simps name_state.distinct(1,5) not0_implies_Suc)
  have "abs_run perm_abs (run_events (perm_step E s) [POpen fd a, PClose fd, POpen fd b] c) = Inl UseAfterFree"
    unfolding perm_run [OF inv]
    using assms(2,3) cl by (simp add: spec_open_def spec_close_def perm_abs_def)
  then show ?thesis by (cases "run_events (perm_step E s) [POpen fd a, PClose fd, POpen fd b] c") auto
qed

theorem FilePerm_reopen_dangling_witness:
  "\<forall>(E :: executor) s. run_events (perm_step (E\<lparr>ex_cstring := (\<lambda>_. ''f'')\<rparr>) s) [POpen 3 8, PClose 3, POpen 3 8] new_FilePermChecker
     = Inl UseAfterFree"
proof (intro allI)
  fix E :: executor and s
  have "run_events (perm_step (E\<lparr>ex_cstring := (\<lambda>_. ''f'')\<rparr>) s) [] new_FilePermChecker = Inr ([], new_FilePermChecker)" by simp
  from FilePerm_reopen_dangling [OF this, of 8 8 3]
  show "run_events (perm_step (E\<lparr>ex_cstring := (\<lambda>_. ''f'')\<rparr>) s) [POpen 3 8, PClose 3, POpen 3 8] new_FilePermChecker = Inl UseAfterFree"
    by (simp add: abs_name_def new_FilePermChecker_def del: run_events.simps)
qed

text \<open>
  C23: The checker owns its objects correctly. After any path, the copy constructor succeeds and
  gives a checker in the same state for every name, and the destructors of both the original and
  the copy delete every object they own exactly once and leave none behind.
\<close>

theorem FilePerm_copy_and_destroy:
  assumes "run_events (perm_step E s) evs new_FilePermChecker = Inr (rs, c)"
  shows "\<exists>c'. FilePerm_clone c = Inr c' \<and> abs_name c' = abs_name c \<and>
    FilePerm_destroy c = Inr Map.empty \<and> FilePerm_destroy c' = Inr Map.empty"
proof -
  have inv: "pm_inv c" by (rule perm_reach [OF assms(1)])
  with FilePerm_clone_spec [OF inv] FilePerm_destroy_spec show ?thesis by blast
qed

theorem FilePerm_copy_and_destroy_witness:
  "\<forall>(E :: executor) s. \<exists>rs c c'. run_events (perm_step E s) [POpen 3 8, POpen 4 8, PClose 3] new_FilePermChecker = Inr (rs, c) \<and>
     FilePerm_clone c = Inr c' \<and> FilePerm_destroy c' = Inr Map.empty"
proof (intro allI)
  fix E :: executor and s
  let ?evs = "[POpen 3 8, POpen 4 8, PClose 3]"
  have "\<exists>x. abs_run perm_abs (run_events (perm_step E s) ?evs new_FilePermChecker) = Inr x"
    unfolding perm_run [OF perm_new(1)] perm_new(2)
    by (simp add: spec_open_def spec_close_def)
  then obtain rs c where r: "run_events (perm_step E s) ?evs new_FilePermChecker = Inr (rs, c)"
    by (cases "run_events (perm_step E s) ?evs new_FilePermChecker") auto
  from FilePerm_copy_and_destroy [OF r] r
  show "\<exists>rs c c'. run_events (perm_step E s) ?evs new_FilePermChecker = Inr (rs, c) \<and>
     FilePerm_clone c = Inr c' \<and> FilePerm_destroy c' = Inr Map.empty" by blast
qed

end
