(* ===== verification/SysOpenCloseChecker.thy ===== *)
theory SysOpenCloseChecker
  imports CheckerRuns
begin

text \<open>
  \<open>SysOpenCloseChecker\<close> of \<open>lib/Core/BasicCheckers.cpp\<close>: descriptors returned by \<open>open\<close> must be
  closed; with \<open>written_only\<close>, only those that were written to. The parsing routines take the
  descriptor as an \<open>int\<close>, the map \<open>opened\<close> has keys of 64 bits, so a key is the sign extension of the
  lower 32 bits. The static multimap \<open>reported\<close> is passed to \<open>report\<close>. The code under
  \<open>WITHOUT_LIB_CALLS\<close> is not compiled and not modelled.
\<close>

section \<open>The checker\<close>

record sysopenclose_checker =
  so_opened :: "uint64_t \<rightharpoonup> file_object"
  so_written_only :: bool

definition new_SysOpenCloseChecker :: "bool \<Rightarrow> sysopenclose_checker" where
  "new_SysOpenCloseChecker written_only = \<lparr>so_opened = Map.empty, so_written_only = written_only\<rparr>"

definition SysOpenClose_mayBeEvent :: "sysopenclose_checker \<Rightarrow> string \<Rightarrow> bool" where
  "SysOpenClose_mayBeEvent c funcname =
     (if funcname = ''open'' \<or> funcname = ''close'' then True
      else if \<not> so_written_only c then (if funcname = ''write'' then True else False)
      else False)"

definition SysOpenClose_wantConcrete :: "sysopenclose_checker \<Rightarrow> string \<Rightarrow> bool" where
  "SysOpenClose_wantConcrete c funcname = SysOpenClose_mayBeEvent c funcname"

text \<open>The \<open>int\<close> parameter, as the 64-bit key it becomes in the map.\<close>

definition fd_key :: "uint64_t \<Rightarrow> uint64_t" where
  "fd_key fd = scast (ucast fd :: uint32_t)"

definition SysOpenClose_parseOpen :: "sysopenclose_checker \<Rightarrow> uint64_t \<Rightarrow> alloc_info \<Rightarrow> Result \<times> sysopenclose_checker" where
  "SysOpenClose_parseOpen c fd alloc =
     (if fd_key fd \<noteq> - 1 then
        (let fo = setAllocInfo alloc (setState CLEAN (new_FileObject [] (- 1) (fd_key fd)))
         in (IMPORTANT, c\<lparr>so_opened := map_insert (fd_key fd) fo (so_opened c)\<rparr>))
      else (IMPORTANT, c))"

definition SysOpenClose_parseWrite :: "sysopenclose_checker \<Rightarrow> uint64_t \<Rightarrow> Result \<times> sysopenclose_checker" where
  "SysOpenClose_parseWrite c fd =
     (if fd_key fd \<noteq> - 1 then
        (case so_opened c (fd_key fd) of
           None \<Rightarrow> (IMPORTANT, c)
         | Some fo \<Rightarrow> (IMPORTANT, c\<lparr>so_opened := (so_opened c)(fd_key fd \<mapsto> setState OS_BUFFERED fo)\<rparr>))
      else (IMPORTANT, c))"

definition SysOpenClose_parseClose :: "sysopenclose_checker \<Rightarrow> uint64_t \<Rightarrow> Result \<times> sysopenclose_checker" where
  "SysOpenClose_parseClose c fd =
     (if fd_key fd \<noteq> - 1 then
        (case so_opened c (fd_key fd) of
           None \<Rightarrow> (IMPORTANT, c)
         | Some fo \<Rightarrow> (IMPORTANT, c\<lparr>so_opened := (so_opened c)(fd_key fd := None)\<rparr>))
      else (IMPORTANT, c))"

definition SysOpenClose_onCall :: "executor \<Rightarrow> sysopenclose_checker \<Rightarrow> thread_state \<Rightarrow> kinst \<Rightarrow> string \<Rightarrow> expr list \<Rightarrow>
    uint64_t list option \<Rightarrow> (Result \<times> sysopenclose_checker) result" where
  "SysOpenClose_onCall E c thr target funcname arguments args =
     (if funcname = ''open'' then
        (case args of
           Some a \<Rightarrow>
             bind_result (vec_at a 0) (\<lambda>fd.
               (let (r, c') = SysOpenClose_parseOpen c fd (alloc_here target thr) in Inr (r OR NEED_RET, c')))
         | None \<Rightarrow> Inr (IMPORTANT OR NEED_RET, c))
      else if funcname = ''close'' then
        bind_result (int_arg E arguments args 0) (\<lambda>fd.
          (let (r, c') = SysOpenClose_parseClose c fd in Inr (r OR NEED_ARG0, c')))
      else if funcname = ''write'' then
        bind_result (int_arg E arguments args 0) (\<lambda>fd.
          (let (r, c') = SysOpenClose_parseWrite c fd in Inr (r OR NEED_ARG0, c')))
      else Inr (OK, c))"

definition SysOpenClose_onRet :: "executor \<Rightarrow> sysopenclose_checker \<Rightarrow> exec_state \<Rightarrow> thread_state \<Rightarrow> kinst \<Rightarrow> expr \<Rightarrow>
    (Result \<times> sysopenclose_checker) result" where
  "SysOpenClose_onRet E c s thr caller res =
     (case getTargetFunctionFromCaller E s caller of
        None \<Rightarrow> Inr (OK, c)
      | Some funcname \<Rightarrow>
          (if funcname = ''open'' then
             bind_result (getIntFromExp E res) (\<lambda>fd.
               (let (r, c') = SysOpenClose_parseOpen c fd (alloc_here caller thr) in Inr (r OR NEED_RET, c')))
           else Inr (OK, c)))"

text \<open>
  The loop of \<open>report\<close> asks \<open>isReported\<close>, which records the site, before it looks whether the
  file was written.
\<close>

fun fd_report_loop :: "executor \<Rightarrow> string \<Rightarrow> uint64_t \<Rightarrow> bool \<Rightarrow> file_object list \<Rightarrow> reports \<Rightarrow> nat \<Rightarrow>
    (nat \<times> reports) result" where
  "fd_report_loop E place_info place_hash written_only [] reported error = Inr (error, reported)"
| "fd_report_loop E place_info place_hash written_only (fo # fos) reported error =
     bind_result (toString E (fo_alloc fo) False) (\<lambda>case_info.
       (let (seen, reported') = isReported reported place_info place_hash case_info in
        if seen then fd_report_loop E place_info place_hash written_only fos reported' error
        else if written_only \<and> fo_state fo = CLEAN then fd_report_loop E place_info place_hash written_only fos reported' error
        else fd_report_loop E place_info place_hash written_only fos reported' (error + 1)))"

definition SysOpenClose_report :: "executor \<Rightarrow> sysopenclose_checker \<Rightarrow> reports \<Rightarrow> exec_state option \<Rightarrow> (Result \<times> reports) result" where
  "SysOpenClose_report E c reported st =
     bind_result (gatherPlaceInfo E st) (\<lambda>(place_info, place_hash).
     bind_result (fd_report_loop E place_info place_hash (so_written_only c)
         (map (\<lambda>k. the (so_opened c k)) (sorted_list_of_set (dom (so_opened c)))) reported 0) (\<lambda>(error, reported').
       Inr (if error \<noteq> 0 then ERROR else OK, reported')))"

section \<open>Specification: the open descriptors and whether they were written\<close>

datatype fd_event = FOpen uint64_t | FOpenRet expr uint64_t | FWrite uint64_t | FClose uint64_t

fun fd_step :: "executor \<Rightarrow> exec_state \<Rightarrow> fd_event \<times> thread_state \<times> kinst \<Rightarrow> sysopenclose_checker \<Rightarrow>
    (Result \<times> sysopenclose_checker) result" where
  "fd_step E s (FOpen fd, thr, ki) c = SysOpenClose_onCall E c thr ki ''open'' [] (Some [fd])"
| "fd_step E s (FOpenRet e fd, thr, ki) c = SysOpenClose_onRet E c s thr ki e"
| "fd_step E s (FWrite fd, thr, ki) c = SysOpenClose_onCall E c thr ki ''write'' [] (Some [0, 0, fd])"
| "fd_step E s (FClose fd, thr, ki) c = SysOpenClose_onCall E c thr ki ''close'' [] (Some [0, 0, fd])"

fun fd_ok :: "executor \<Rightarrow> exec_state \<Rightarrow> fd_event \<times> thread_state \<times> kinst \<Rightarrow> bool" where
  "fd_ok E s (FOpenRet e fd, thr, ki) \<longleftrightarrow>
     thread_ok thr \<and> ex_getTargetFunction E s ki = Some ''open'' \<and> getIntFromExp E e = Inr fd"
| "fd_ok E s (_, thr, ki) \<longleftrightarrow> thread_ok thr"

text \<open>An open descriptor maps to whether it was written; \<open>-1\<close>, a failed call, is no descriptor.\<close>

fun fd_spec :: "fd_event \<times> thread_state \<times> kinst \<Rightarrow> (uint64_t \<rightharpoonup> bool) \<Rightarrow> (bool \<times> (uint64_t \<rightharpoonup> bool)) result" where
  "fd_spec (FOpen fd, _, _) m = Inr (False, if fd_key fd = - 1 then m else map_insert (fd_key fd) False m)"
| "fd_spec (FOpenRet e fd, _, _) m = Inr (False, if fd_key fd = - 1 then m else map_insert (fd_key fd) False m)"
| "fd_spec (FWrite fd, _, _) m = Inr (False, if fd_key fd = - 1 then m else m(fd_key fd := map_option (\<lambda>_. True) (m (fd_key fd))))"
| "fd_spec (FClose fd, _, _) m = Inr (False, if fd_key fd = - 1 then m else m(fd_key fd := None))"

definition fd_abs :: "sysopenclose_checker \<Rightarrow> (uint64_t \<rightharpoonup> bool)" where
  "fd_abs c = (\<lambda>k. map_option (\<lambda>fo. fo_state fo \<noteq> CLEAN) (so_opened c k))"

definition fd_inv :: "bool \<Rightarrow> sysopenclose_checker \<Rightarrow> bool" where
  "fd_inv wo c \<longleftrightarrow> so_written_only c = wo \<and> finite (dom (so_opened c)) \<and> (\<forall>fo \<in> ran (so_opened c). alloc_ok (fo_alloc fo))"

section \<open>The handlers meet the specification\<close>

lemma parseOpen_fd:
  assumes "fd_inv wo c" "alloc_ok ai"
  shows "\<not> is_error (fst (SysOpenClose_parseOpen c fd ai))"
    and "fd_inv wo (snd (SysOpenClose_parseOpen c fd ai))"
    and "fd_abs (snd (SysOpenClose_parseOpen c fd ai)) =
      (if fd_key fd = - 1 then fd_abs c else map_insert (fd_key fd) False (fd_abs c))"
  using assms
  by (auto simp: SysOpenClose_parseOpen_def fd_inv_def fd_abs_def map_insert_def fun_eq_iff ran_def split: if_splits)

lemma parseWrite_fd:
  assumes "fd_inv wo c"
  shows "\<not> is_error (fst (SysOpenClose_parseWrite c fd))"
    and "fd_inv wo (snd (SysOpenClose_parseWrite c fd))"
    and "fd_abs (snd (SysOpenClose_parseWrite c fd)) =
      (if fd_key fd = - 1 then fd_abs c else (fd_abs c)(fd_key fd := map_option (\<lambda>_. True) (fd_abs c (fd_key fd))))"
  using assms
  by (auto simp: SysOpenClose_parseWrite_def fd_inv_def fd_abs_def fun_eq_iff ran_def split: option.splits if_splits)

lemma parseClose_fd:
  assumes "fd_inv wo c"
  shows "\<not> is_error (fst (SysOpenClose_parseClose c fd))"
    and "fd_inv wo (snd (SysOpenClose_parseClose c fd))"
    and "fd_abs (snd (SysOpenClose_parseClose c fd)) = (if fd_key fd = - 1 then fd_abs c else (fd_abs c)(fd_key fd := None))"
  using assms
  by (auto simp: SysOpenClose_parseClose_def fd_inv_def fd_abs_def fun_eq_iff ran_def split: option.splits if_splits)

lemma fd_step_sim:
  assumes c: "fd_inv wo c" and ok: "fd_ok E s ev"
  shows "abs_step fd_abs (fd_step E s ev c) = fd_spec ev (fd_abs c) \<and>
    (\<forall>r c'. fd_step E s ev c = Inr (r, c') \<longrightarrow> fd_inv wo c')"
proof -
  obtain e thr ki where ev: "ev = (e, thr, ki)" using prod_cases3 by blast
  have "alloc_ok (alloc_here ki thr)" using ok by (cases e) (auto simp: ev intro: alloc_ok_here)
  note O = parseOpen_fd [OF c this] and W = parseWrite_fd [OF c] and C = parseClose_fd [OF c]
  show ?thesis
  proof (cases e)
    case (FOpen fd)
    with O [of fd] show ?thesis by (simp add: ev SysOpenClose_onCall_def case_prod_beta Let_def)
  next
    case (FOpenRet x fd)
    with O [of fd] ok show ?thesis
      by (simp add: ev SysOpenClose_onRet_def getTargetFunctionFromCaller_def case_prod_beta Let_def)
  next
    case (FWrite fd)
    with W [of fd] show ?thesis by (simp add: ev SysOpenClose_onCall_def case_prod_beta Let_def)
  next
    case (FClose fd)
    with C [of fd] show ?thesis by (simp add: ev SysOpenClose_onCall_def case_prod_beta Let_def)
  qed
qed

interpretation sysfd: event_checker "fd_step E s" "fd_inv wo" fd_abs fd_spec "fd_ok E s" for E s wo
  by unfold_locales (use fd_step_sim in blast)+

lemma fd_new: "fd_inv wo (new_SysOpenCloseChecker wo)" "fd_abs (new_SysOpenCloseChecker wo) = Map.empty"
  by (simp_all add: fd_inv_def fd_abs_def new_SysOpenCloseChecker_def)

lemma fd_spec_total: "\<exists>a. spec_events fd_spec evs m = Inr (replicate (length evs) False, a)"
proof (induction evs arbitrary: m)
  case (Cons ev evs)
  obtain e thr ki where ev: "ev = (e, thr, ki)" using prod_cases3 by blast
  have "\<exists>m'. fd_spec ev m = Inr (False, m')" unfolding ev by (cases e) simp_all
  then obtain m' where "fd_spec ev m = Inr (False, m')" by blast
  with Cons.IH [of m'] show ?case by auto
qed simp

text \<open>A reported descriptor is open, and written if only written ones count; without that
  restriction every site that is new at this place is reported.\<close>

lemma fd_report_loop_spec:
  assumes "\<forall>fo \<in> set fos. alloc_ok (fo_alloc fo)"
  shows "\<exists>n reported'. fd_report_loop E place (hash place) wo fos reported error = Inr (n, reported') \<and>
    (n \<noteq> 0 \<longrightarrow> error \<noteq> 0 \<or> (\<exists>fo \<in> set fos. \<not> wo \<or> fo_state fo \<noteq> CLEAN)) \<and>
    (\<not> wo \<longrightarrow> (n \<noteq> 0 \<longleftrightarrow> error \<noteq> 0 \<or> (\<exists>fo \<in> set fos. report_key place (alloc_string E (fo_alloc fo)) \<notin> set reported)))"
  using assms
proof (induction fos arbitrary: reported error)
  case (Cons fo fos)
  let ?k = "report_key place (alloc_string E (fo_alloc fo))"
  let ?rep = "if ?k \<in> set reported then reported else reported @ [?k]"
  let ?err = "if ?k \<in> set reported \<or> wo \<and> fo_state fo = CLEAN then error else error + 1"
  from Cons.prems have "toString E (fo_alloc fo) False = Inr (alloc_string E (fo_alloc fo))"
    by (simp add: toString_alloc_string)
  then have step: "fd_report_loop E place (hash place) wo (fo # fos) reported error =
      fd_report_loop E place (hash place) wo fos ?rep ?err"
    by (simp add: isReported_spec)
  from Cons.IH [of ?rep ?err] Cons.prems obtain n reported' where
    "fd_report_loop E place (hash place) wo fos ?rep ?err = Inr (n, reported')"
    "n \<noteq> 0 \<longrightarrow> ?err \<noteq> 0 \<or> (\<exists>fo \<in> set fos. \<not> wo \<or> fo_state fo \<noteq> CLEAN)"
    "\<not> wo \<longrightarrow> (n \<noteq> 0 \<longleftrightarrow> ?err \<noteq> 0 \<or> (\<exists>fo \<in> set fos. report_key place (alloc_string E (fo_alloc fo)) \<notin> set ?rep))" by auto
  with step show ?case by (auto split: if_splits)
qed simp
lemma fd_report_spec:
  assumes "fd_inv wo c" "state_ok st"
  shows "\<exists>r reported. SysOpenClose_report E c [] st = Inr (r, reported) \<and>
    (\<not> wo \<longrightarrow> (is_error r \<longleftrightarrow> (\<exists>k. fd_abs c k \<noteq> None))) \<and>
    (wo \<longrightarrow> is_error r \<longrightarrow> (\<exists>k. fd_abs c k = Some True))"
proof -
  let ?ks = "sorted_list_of_set (dom (so_opened c))"
  define fos where "fos = map (\<lambda>k. the (so_opened c k)) ?ks"
  have fos: "set fos = ran (so_opened c)" and wo: "so_written_only c = wo"
    using assms(1) by (simp_all add: fos_def ran_image_the fd_inv_def)
  with assms(1) have "\<forall>fo \<in> set fos. alloc_ok (fo_alloc fo)" by (simp add: fd_inv_def)
  from gatherPlaceInfo_total [OF assms(2)] obtain place where g: "gatherPlaceInfo E st = Inr (place, hash place)" by blast
  from fd_report_loop_spec [OF \<open>\<forall>fo \<in> set fos. _\<close>, of E place wo "[]" 0] obtain n reported where
    l: "fd_report_loop E place (hash place) wo fos [] 0 = Inr (n, reported)"
      "n \<noteq> 0 \<longrightarrow> (\<exists>fo \<in> set fos. \<not> wo \<or> fo_state fo \<noteq> CLEAN)" "\<not> wo \<longrightarrow> (n \<noteq> 0 \<longleftrightarrow> (\<exists>fo. fo \<in> set fos))"
    by (simp del: fd_report_loop.simps) blast
  have "(\<exists>k. fd_abs c k \<noteq> None) \<longleftrightarrow> (\<exists>fo. fo \<in> set fos)"
    unfolding fos by (auto simp: fd_abs_def ran_def)
  moreover have "(\<exists>k. fd_abs c k = Some True) \<longleftrightarrow> (\<exists>fo \<in> set fos. fo_state fo \<noteq> CLEAN)"
    unfolding fos by (auto simp: fd_abs_def ran_def)
  ultimately show ?thesis using l g wo by (auto simp: SysOpenClose_report_def fos_def [symmetric])
qed

section \<open>Properties\<close>



text \<open>
  C40: With \<open>written_only\<close>, a leak can be hidden by a file that is no leak. When two descriptors come
  from the same call site, the lower one was not written and the higher one was, and neither is
  closed, the report records the site for the unwritten file, skips it, and then suppresses
  the written one as already reported. The report is \<open>OK\<close> although a written file is not closed.
\<close>

theorem SysOpenClose_unwritten_hides_leak:
  assumes "thread_ok thr" "state_ok st" "fd_key a \<noteq> - 1" "fd_key b \<noteq> - 1" "fd_key a < fd_key b"
  shows "\<exists>rs c reported. run_events (fd_step E s) [(FOpen a, thr, ki), (FOpen b, thr, ki), (FWrite b, thr, ki)]
      (new_SysOpenCloseChecker True) = Inr (rs, c) \<and>
    fd_abs c (fd_key b) = Some True \<and> SysOpenClose_report E c [] st = Inr (OK, reported)"
proof -
  let ?ai = "alloc_here ki thr"
  define fa where "fa = setAllocInfo ?ai (setState CLEAN (new_FileObject [] (- 1) (fd_key a)))"
  define fb where "fb = setState OS_BUFFERED (setAllocInfo ?ai (setState CLEAN (new_FileObject [] (- 1) (fd_key b))))"
  define c where "c = \<lparr>so_opened = [fd_key a \<mapsto> fa, fd_key b \<mapsto> fb], so_written_only = True\<rparr>"
  have run: "\<exists>rs. run_events (fd_step E s) [(FOpen a, thr, ki), (FOpen b, thr, ki), (FWrite b, thr, ki)]
      (new_SysOpenCloseChecker True) = Inr (rs, c)"
    using assms(3-5) by (auto simp: SysOpenClose_onCall_def SysOpenClose_parseOpen_def SysOpenClose_parseWrite_def
        new_SysOpenCloseChecker_def map_insert_def c_def fa_def fb_def Let_def)
  have info: "fo_alloc fa = ?ai" "fo_alloc fb = ?ai" "fo_state fa = CLEAN" "fo_state fb \<noteq> CLEAN"
    by (simp_all add: fa_def fb_def)
  have "sorted_list_of_set {fd_key a, fd_key b} = [fd_key a, fd_key b]"
    by (rule sorted_list_of_set_unique [THEN iffD1]) (use assms(5) in auto)
  then have fos: "map (\<lambda>k. the (so_opened c k)) (sorted_list_of_set (dom (so_opened c))) = [fa, fb]"
    using assms(5) by (auto simp: c_def insert_commute)
  from gatherPlaceInfo_total [OF assms(2)] obtain place where g: "gatherPlaceInfo E st = Inr (place, hash place)" by blast
  have "toString E ?ai False = Inr (alloc_string E ?ai)" by (rule toString_alloc_string [OF alloc_ok_here [OF assms(1)]])
  then have "\<exists>reported. SysOpenClose_report E c [] st = Inr (OK, reported)"
    using g info unfolding SysOpenClose_report_def fos by (simp add: isReported_spec) (simp add: c_def)
  moreover have "fd_abs c (fd_key b) = Some True" using info by (simp add: fd_abs_def c_def)
  ultimately show ?thesis using run by blast
qed

theorem SysOpenClose_unwritten_hides_leak_witness:
  "\<forall>E s ki. \<exists>rs c reported. run_events (fd_step E s)
      (map (\<lambda>ev. (ev, \<lparr>thr_stack = [], thr_id = 0, thr_pc = ki, thr_prevPC = ki\<rparr>, ki)) [FOpen 3, FOpen 4, FWrite 4])
      (new_SysOpenCloseChecker True) = Inr (rs, c) \<and>
    fd_abs c 4 = Some True \<and> SysOpenClose_report E c [] None = Inr (OK, reported)"
proof (intro allI)
  fix E s ki
  let ?thr = "\<lparr>thr_stack = [], thr_id = 0, thr_pc = ki, thr_prevPC = ki\<rparr>"
  have k: "fd_key 3 = 3" "fd_key 4 = 4" by (simp_all add: fd_key_def)
  have "thread_ok ?thr" "state_ok None" "fd_key 3 \<noteq> - 1" "fd_key 4 \<noteq> - 1" "fd_key 3 < fd_key 4"
    by (simp_all add: thread_ok_def state_ok_def k)
  from SysOpenClose_unwritten_hides_leak [OF this, of E s ki]
  show "\<exists>rs c reported. run_events (fd_step E s) (map (\<lambda>ev. (ev, ?thr, ki)) [FOpen 3, FOpen 4, FWrite 4])
      (new_SysOpenCloseChecker True) = Inr (rs, c) \<and>
    fd_abs c 4 = Some True \<and> SysOpenClose_report E c [] None = Inr (OK, reported)"
    unfolding k list.map by blast
qed

end
