(* ===== verification/CheckerMgr.thy ===== *)
theory CheckerMgr
  imports AssertCheckers OpenCloseChecker LockChecker FileChecker DataLossChecker PairwiseChecker FilePermChecker
    SysOpenCloseChecker
begin

text \<open>
  \<open>CheckerMgr\<close> of \<open>include/klee/CheckerMgr.h\<close> and \<open>lib/Core/CheckerMgr.cpp\<close>: the list of checkers an
  execution state or the executor holds, to which every event is passed in order, the results
  joined bit by bit. A pointer to \<open>Checker\<close> is a value of the sum of the checkers, and the
  virtual calls are case distinctions on it. A handler a class does not override is the one of
  \<open>Checker\<close>, which returns \<open>OK\<close>. What the objects of a class share (static members, and the
  \<open>reported\<close> multimap that the copies of a \<open>PairwiseChecker\<close> point to) is a separate record.
\<close>

section \<open>Checkers\<close>

datatype checker =
    AssertCounterC assert_counter
  | AssertCheckerC
  | OpenCloseC openclose_checker
  | LockC lock_checker
  | FileC file_checker
  | DataLossC dataloss_checker
  | PairwiseC nat pairwise_checker
  | LeakC nat leak_checker
  | FilePermC fileperm_checker
  | SysOpenCloseC sysopenclose_checker

record shared =
  sh_counter :: assert_sets
  sh_checker :: assert_sets
  sh_openclose :: reports
  sh_sysopenclose :: reports
  sh_pairwise :: "nat \<Rightarrow> reports"

text \<open>The state a handler returns, put back into its constructor.\<close>

definition as_checker :: "('c \<Rightarrow> checker) \<Rightarrow> (Result \<times> 'c) result \<Rightarrow> (Result \<times> checker) result" where
  "as_checker C x = bind_result x (\<lambda>(r, c). Inr (r, C c))"

fun checker_onCall :: "executor \<Rightarrow> exec_state \<Rightarrow> thread_state \<Rightarrow> kinst \<Rightarrow> string \<Rightarrow> expr list \<Rightarrow> uint64_t list option \<Rightarrow>
    checker \<Rightarrow> (Result \<times> checker) result" where
  "checker_onCall E s thr target f arguments args (OpenCloseC c) =
     as_checker OpenCloseC (OpenClose_onCall E c s thr target f arguments args)"
| "checker_onCall E s thr target f arguments args (LockC c) = as_checker LockC (LockChecker_onCall c f args)"
| "checker_onCall E s thr target f arguments args (FileC c) = as_checker FileC (FileChecker_onCall E c s f arguments args)"
| "checker_onCall E s thr target f arguments args (DataLossC c) =
     as_checker DataLossC (DataLoss_onCall E c s f arguments args)"
| "checker_onCall E s thr target f arguments args (PairwiseC i c) =
     as_checker (PairwiseC i) (Pairwise_onCall (Pairwise_mayBeEvent c) E c thr target f arguments args)"
| "checker_onCall E s thr target f arguments args (LeakC i c) =
     as_checker (LeakC i) (Leak_onCall E c s thr target f arguments args)"
| "checker_onCall E s thr target f arguments args (FilePermC c) =
     as_checker FilePermC (FilePerm_onCall E c s f arguments args)"
| "checker_onCall E s thr target f arguments args (SysOpenCloseC c) =
     as_checker SysOpenCloseC (SysOpenClose_onCall E c thr target f arguments args)"
| "checker_onCall E s thr target f arguments args c = Inr (OK, c)"

text \<open>\<open>result\<close> comes with the address of its node.\<close>

fun checker_onRet :: "executor \<Rightarrow> exec_state \<Rightarrow> thread_state \<Rightarrow> kinst \<Rightarrow> expr \<times> nat \<Rightarrow> checker \<Rightarrow>
    (Result \<times> checker) result" where
  "checker_onRet E s thr caller res (OpenCloseC c) = as_checker OpenCloseC (OpenClose_onRet E c s thr caller res)"
| "checker_onRet E s thr caller res (FileC c) = as_checker FileC (FileChecker_onRet E c s thr caller (fst res))"
| "checker_onRet E s thr caller res (DataLossC c) = as_checker DataLossC (DataLoss_onRet E c s thr caller (fst res))"
| "checker_onRet E s thr caller res (PairwiseC i c) =
     as_checker (PairwiseC i) (Pairwise_onRet (Pairwise_mayBeEvent c) E c s thr caller (fst res))"
| "checker_onRet E s thr caller res (LeakC i c) = as_checker (LeakC i) (Leak_onRet E c s thr caller (fst res))"
| "checker_onRet E s thr caller res (FilePermC c) = as_checker FilePermC (FilePerm_onRet E c s thr caller (fst res))"
| "checker_onRet E s thr caller res (SysOpenCloseC c) =
     as_checker SysOpenCloseC (SysOpenClose_onRet E c s thr caller (fst res))"
| "checker_onRet E s thr caller res c = Inr (OK, c)"

fun checker_onBranch :: "branch_inst \<Rightarrow> kinst \<Rightarrow> expr \<Rightarrow> bool \<Rightarrow> shared \<Rightarrow> checker \<Rightarrow> Result \<times> shared \<times> checker" where
  "checker_onBranch bi inst cond forked G (AssertCounterC c) =
     (let (r, A, c') = AssertCounter_onBranch (sh_counter G) c bi inst cond forked
      in (r, G\<lparr>sh_counter := A\<rparr>, AssertCounterC c'))"
| "checker_onBranch bi inst cond forked G AssertCheckerC =
     (let (r, A) = AssertChecker_onBranch (sh_checker G) bi inst cond in (r, G\<lparr>sh_checker := A\<rparr>, AssertCheckerC))"
| "checker_onBranch bi inst cond forked G c = (OK, G, c)"

fun checker_wantConcrete :: "string \<Rightarrow> checker \<Rightarrow> bool" where
  "checker_wantConcrete f (OpenCloseC c) = OpenClose_wantConcrete f"
| "checker_wantConcrete f (LockC c) = LockChecker_wantConcrete f"
| "checker_wantConcrete f (FileC c) = FileChecker_wantConcrete f"
| "checker_wantConcrete f (DataLossC c) = DataLoss_wantConcrete f"
| "checker_wantConcrete f (PairwiseC i c) = Pairwise_wantConcrete c f"
| "checker_wantConcrete f (LeakC i c) = Leak_wantConcrete c f"
| "checker_wantConcrete f (FilePermC c) = FilePerm_wantConcrete f"
| "checker_wantConcrete f (SysOpenCloseC c) = SysOpenClose_wantConcrete c f"
| "checker_wantConcrete f c = False"

fun checker_report :: "executor \<Rightarrow> exec_state option \<Rightarrow> shared \<Rightarrow> checker \<Rightarrow> (Result \<times> shared) result" where
  "checker_report E st G (AssertCounterC c) = Inr (fst (AssertCounter_report c), G)"
| "checker_report E st G AssertCheckerC = Inr (AssertChecker_report, G)"
| "checker_report E st G (OpenCloseC c) =
     bind_result (OpenClose_report E c (sh_openclose G) st) (\<lambda>(r, rep). Inr (r, G\<lparr>sh_openclose := rep\<rparr>))"
| "checker_report E st G (LockC c) = Inr (LockChecker_report c, G)"
| "checker_report E st G (FileC c) = Inr (FileChecker_report c, G)"
| "checker_report E st G (DataLossC c) = Inr (DataLoss_report c, G)"
| "checker_report E st G (PairwiseC i c) =
     bind_result (Pairwise_report E c (sh_pairwise G i) st) (\<lambda>(r, rep). Inr (r, G\<lparr>sh_pairwise := (sh_pairwise G)(i := rep)\<rparr>))"
| "checker_report E st G (LeakC i c) =
     bind_result (Leak_report E c (sh_pairwise G i) st) (\<lambda>(r, rep). Inr (r, G\<lparr>sh_pairwise := (sh_pairwise G)(i := rep)\<rparr>))"
| "checker_report E st G (FilePermC c) = Inr (OK, G)"
| "checker_report E st G (SysOpenCloseC c) =
     bind_result (SysOpenClose_report E c (sh_sysopenclose G) st) (\<lambda>(r, rep). Inr (r, G\<lparr>sh_sysopenclose := rep\<rparr>))"

text \<open>\<open>clone\<close> calls the copy constructor, which only \<open>FilePermChecker\<close> defines itself.\<close>

fun checker_clone :: "checker \<Rightarrow> checker result" where
  "checker_clone (FilePermC c) = bind_result (FilePerm_clone c) (\<lambda>c'. Inr (FilePermC c'))"
| "checker_clone c = Inr c"

section \<open>The manager\<close>

type_synonym checker_mgr = "checker list"

text \<open>The loop of the macro \<open>CALL_CHECKERS\<close>.\<close>

fun call_checkers :: "('c \<Rightarrow> (Result \<times> 'c) result) \<Rightarrow> 'c list \<Rightarrow> Result \<Rightarrow> (Result \<times> 'c list) result" where
  "call_checkers h [] final_ret = Inr (final_ret, [])"
| "call_checkers h (c # cs) final_ret =
     bind_result (h c) (\<lambda>(ret, c').
     bind_result (call_checkers h cs (final_ret OR ret)) (\<lambda>(r, cs'). Inr (r, c' # cs')))"

definition mgr_onCall :: "executor \<Rightarrow> exec_state \<Rightarrow> thread_state \<Rightarrow> kinst \<Rightarrow> string \<Rightarrow> expr list \<Rightarrow> uint64_t list option \<Rightarrow>
    checker_mgr \<Rightarrow> (Result \<times> checker_mgr) result" where
  "mgr_onCall E s thr target f arguments args cs = call_checkers (checker_onCall E s thr target f arguments args) cs OK"

definition mgr_onRet :: "executor \<Rightarrow> exec_state \<Rightarrow> thread_state \<Rightarrow> kinst \<Rightarrow> expr \<times> nat \<Rightarrow> checker_mgr \<Rightarrow>
    (Result \<times> checker_mgr) result" where
  "mgr_onRet E s thr caller res cs = call_checkers (checker_onRet E s thr caller res) cs OK"

text \<open>The same loop for the handlers that read and write what a class shares.\<close>

fun mgr_onBranch_loop :: "branch_inst \<Rightarrow> kinst \<Rightarrow> expr \<Rightarrow> bool \<Rightarrow> shared \<Rightarrow> checker_mgr \<Rightarrow> Result \<Rightarrow>
    Result \<times> shared \<times> checker_mgr" where
  "mgr_onBranch_loop bi inst cond forked G [] final_ret = (final_ret, G, [])"
| "mgr_onBranch_loop bi inst cond forked G (c # cs) final_ret =
     (let (ret, G1, c') = checker_onBranch bi inst cond forked G c;
          (r, G2, cs') = mgr_onBranch_loop bi inst cond forked G1 cs (final_ret OR ret)
      in (r, G2, c' # cs'))"

definition mgr_onBranch :: "branch_inst \<Rightarrow> kinst \<Rightarrow> expr \<Rightarrow> bool \<Rightarrow> shared \<Rightarrow> checker_mgr \<Rightarrow> Result \<times> shared \<times> checker_mgr" where
  "mgr_onBranch bi inst cond forked G cs = mgr_onBranch_loop bi inst cond forked G cs OK"

fun mgr_wantConcrete_loop :: "string \<Rightarrow> checker_mgr \<Rightarrow> bool \<Rightarrow> bool" where
  "mgr_wantConcrete_loop f [] final_ret = final_ret"
| "mgr_wantConcrete_loop f (c # cs) final_ret = mgr_wantConcrete_loop f cs (final_ret \<or> checker_wantConcrete f c)"

definition mgr_wantConcrete :: "string \<Rightarrow> checker_mgr \<Rightarrow> bool" where
  "mgr_wantConcrete f cs = mgr_wantConcrete_loop f cs False"

fun mgr_report_loop :: "executor \<Rightarrow> exec_state option \<Rightarrow> shared \<Rightarrow> checker_mgr \<Rightarrow> Result \<Rightarrow> (Result \<times> shared) result" where
  "mgr_report_loop E st G [] final_ret = Inr (final_ret, G)"
| "mgr_report_loop E st G (c # cs) final_ret =
     bind_result (checker_report E st G c) (\<lambda>(ret, G'). mgr_report_loop E st G' cs (final_ret OR ret))"

definition mgr_report :: "executor \<Rightarrow> exec_state option \<Rightarrow> shared \<Rightarrow> checker_mgr \<Rightarrow> (Result \<times> shared) result" where
  "mgr_report E st G cs = mgr_report_loop E st G cs OK"

definition addChecker :: "checker_mgr \<Rightarrow> checker \<Rightarrow> checker_mgr" where
  "addChecker cs c = cs @ [c]"

definition mgr_clear :: "checker_mgr \<Rightarrow> checker_mgr" where
  "mgr_clear cs = []"

fun copy_CheckerMgr :: "checker_mgr \<Rightarrow> checker_mgr result" where
  "copy_CheckerMgr [] = Inr []"
| "copy_CheckerMgr (c # cs) =
     bind_result (checker_clone c) (\<lambda>c'. bind_result (copy_CheckerMgr cs) (\<lambda>cs'. Inr (c' # cs')))"

text \<open>
  The checkers the executor installs for the option \<open>-use-one-checker\<close>: the global ones and
  those of the initial state.
\<close>

definition init_checkers :: "string \<Rightarrow> (checker_mgr \<times> checker_mgr) result" where
  "init_checkers UseOneChecker =
     (let globalCheckers = []; localCheckers = [] in
      if UseOneChecker = [] then
        Inr (addChecker globalCheckers AssertCheckerC,
             addChecker (addChecker (addChecker (addChecker (addChecker localCheckers
               (OpenCloseC new_OpenCloseChecker)) (LockC new_LockChecker)) (FileC new_FileChecker))
               (DataLossC new_DataLossChecker)) (SysOpenCloseC (new_SysOpenCloseChecker True)))
      else if UseOneChecker = ''Assert'' then Inr (addChecker globalCheckers AssertCheckerC, localCheckers)
      else if UseOneChecker = ''OpenClose'' then Inr (globalCheckers, addChecker localCheckers (OpenCloseC new_OpenCloseChecker))
      else if UseOneChecker = ''Lock'' then Inr (globalCheckers, addChecker localCheckers (LockC new_LockChecker))
      else if UseOneChecker = ''File'' then Inr (globalCheckers, addChecker localCheckers (FileC new_FileChecker))
      else if UseOneChecker = ''DataLoss'' then Inr (globalCheckers, addChecker localCheckers (DataLossC new_DataLossChecker))
      else if UseOneChecker = ''Leak'' then Inr (globalCheckers, addChecker localCheckers (LeakC 0 new_LeakChecker))
      else if UseOneChecker = ''SOC'' then
        Inr (globalCheckers, addChecker localCheckers (SysOpenCloseC (new_SysOpenCloseChecker True)))
      else if UseOneChecker = ''SOCR'' then
        Inr (globalCheckers, addChecker localCheckers (SysOpenCloseC (new_SysOpenCloseChecker False)))
      else if UseOneChecker = ''None'' then Inr (globalCheckers, localCheckers)
      else Inl AssertionFailed)"

section \<open>Composition\<close>

text \<open>The events of a path that reach the checkers of a state.\<close>

datatype mgr_event =
    CallEvent thread_state kinst string "expr list" "uint64_t list option"
  | RetEvent thread_state kinst "expr \<times> nat"

fun checker_step :: "executor \<Rightarrow> exec_state \<Rightarrow> mgr_event \<Rightarrow> checker \<Rightarrow> (Result \<times> checker) result" where
  "checker_step E s (CallEvent thr ki f arguments args) c = checker_onCall E s thr ki f arguments args c"
| "checker_step E s (RetEvent thr ki res) c = checker_onRet E s thr ki res c"

fun mgr_step :: "executor \<Rightarrow> exec_state \<Rightarrow> mgr_event \<Rightarrow> checker_mgr \<Rightarrow> (Result \<times> checker_mgr) result" where
  "mgr_step E s (CallEvent thr ki f arguments args) cs = mgr_onCall E s thr ki f arguments args cs"
| "mgr_step E s (RetEvent thr ki res) cs = mgr_onRet E s thr ki res cs"

definition join_results :: "Result list \<Rightarrow> Result" where
  "join_results rs = foldl (OR) OK rs"

lemma call_checkers_iff:
  "call_checkers h cs r0 = Inr (r, cs') \<longleftrightarrow>
     (\<exists>ps. list_all2 (\<lambda>c p. h c = Inr p) cs ps \<and> r = foldl (OR) r0 (map fst ps) \<and> cs' = map snd ps)"
proof (induction cs arbitrary: r0 cs')
  case (Cons c cs)
  show ?case
  proof
    assume "call_checkers h (c # cs) r0 = Inr (r, cs')"
    then obtain ret c' cs1 where h: "h c = Inr (ret, c')" "call_checkers h cs (r0 OR ret) = Inr (r, cs1)" "cs' = c' # cs1"
      by auto
    with Cons.IH [of "r0 OR ret" cs1] obtain ps where
      "list_all2 (\<lambda>c p. h c = Inr p) cs ps" "r = foldl (OR) (r0 OR ret) (map fst ps)" "cs1 = map snd ps" by blast
    with h show "\<exists>ps. list_all2 (\<lambda>c p. h c = Inr p) (c # cs) ps \<and> r = foldl (OR) r0 (map fst ps) \<and> cs' = map snd ps"
      by (intro exI [of _ "(ret, c') # ps"]) simp
  next
    assume "\<exists>ps. list_all2 (\<lambda>c p. h c = Inr p) (c # cs) ps \<and> r = foldl (OR) r0 (map fst ps) \<and> cs' = map snd ps"
    then obtain p ps where ps: "h c = Inr p" "list_all2 (\<lambda>c p. h c = Inr p) cs ps"
      "r = foldl (OR) (r0 OR fst p) (map fst ps)" "cs' = snd p # map snd ps" by (auto simp: list_all2_Cons1)
    then have "call_checkers h cs (r0 OR fst p) = Inr (r, map snd ps)" using Cons.IH by blast
    with ps show "call_checkers h (c # cs) r0 = Inr (r, cs')" by (cases p) simp
  qed
qed auto

lemma mgr_step_iff:
  "mgr_step E s ev cs = Inr (r, cs') \<longleftrightarrow>
     (\<exists>ps. list_all2 (\<lambda>c p. checker_step E s ev c = Inr p) cs ps \<and> r = join_results (map fst ps) \<and> cs' = map snd ps)"
  by (cases ev) (simp_all add: mgr_onCall_def mgr_onRet_def call_checkers_iff join_results_def)

lemma run_Cons_iff:
  "run_events step (ev # evs) c = Inr q \<longleftrightarrow>
     (\<exists>p q'. step ev c = Inr p \<and> run_events step evs (snd p) = Inr q' \<and> q = (fst p # fst q', snd q'))"
  by (cases q) (auto simp: case_prod_beta)

text \<open>The result of the manager at each event of a path, from the results of the single checkers.\<close>

definition joined :: "nat \<Rightarrow> Result list list \<Rightarrow> Result list" where
  "joined n rss = map (\<lambda>k. join_results (map (\<lambda>rs. rs ! k) rss)) [0..<n]"

lemma joined_Cons:
  "length ps = length qs \<Longrightarrow>
   joined (Suc n) (map fst (map2 (\<lambda>p q. (fst p # fst q, snd q)) ps qs)) = join_results (map fst ps) # joined n (map fst qs)"
proof -
  assume l: "length ps = length qs"
  define L where "L = map fst (map2 (\<lambda>p q. (fst p # fst q, snd q)) ps qs)"
  have hd: "map (\<lambda>rs. rs ! 0) L = map fst ps" and tl: "map (\<lambda>rs. rs ! Suc k) L = map (\<lambda>rs. rs ! k) (map fst qs)" for k
    unfolding L_def using l by (induction ps qs rule: list_induct2) simp_all
  have "joined (Suc n) L = join_results (map fst ps) # map (\<lambda>k. join_results (map (\<lambda>rs. rs ! k) L)) (map Suc [0..<n])"
    unfolding joined_def upt_conv_Cons [OF zero_less_Suc] map_Suc_upt [symmetric] list.map hd ..
  also have "\<dots> = join_results (map fst ps) # joined n (map fst qs)"
    unfolding joined_def map_map [of _ Suc] comp_def [of _ Suc] tl ..
  finally show ?thesis unfolding L_def .
qed

lemma run_split:
  "list_all2 (\<lambda>c q. run_events step (ev # evs) c = Inr q) cs qs \<longleftrightarrow>
   (\<exists>ps qs'. list_all2 (\<lambda>c p. step ev c = Inr p) cs ps \<and>
      list_all2 (\<lambda>c q. run_events step evs c = Inr q) (map snd ps) qs' \<and>
      qs = map2 (\<lambda>p q. (fst p # fst q, snd q)) ps qs')" (is "_ \<longleftrightarrow> ?R cs qs")
proof (induction cs arbitrary: qs)
  case (Cons c cs)
  show ?case
  proof
    assume "list_all2 (\<lambda>c q. run_events step (ev # evs) c = Inr q) (c # cs) qs"
    then obtain q qs1 where qs: "qs = q # qs1" "run_events step (ev # evs) c = Inr q"
      "list_all2 (\<lambda>c q. run_events step (ev # evs) c = Inr q) cs qs1" unfolding list_all2_Cons1 by blast
    from qs(2) obtain p q' where p: "step ev c = Inr p" "run_events step evs (snd p) = Inr q'" "q = (fst p # fst q', snd q')"
      unfolding run_Cons_iff by blast
    from qs(3) Cons.IH obtain ps qs' where "list_all2 (\<lambda>c p. step ev c = Inr p) cs ps"
      "list_all2 (\<lambda>c q. run_events step evs c = Inr q) (map snd ps) qs'" "qs1 = map2 (\<lambda>p q. (fst p # fst q, snd q)) ps qs'" by blast
    with qs(1) p show "?R (c # cs) qs" by (intro exI [of _ "p # ps"] exI [of _ "q' # qs'"]) simp
  next
    assume "?R (c # cs) qs"
    then obtain p ps q' qs' where p: "step ev c = Inr p" "run_events step evs (snd p) = Inr q'" and
      ps: "list_all2 (\<lambda>c p. step ev c = Inr p) cs ps" "list_all2 (\<lambda>c q. run_events step evs c = Inr q) (map snd ps) qs'"
      "qs = (fst p # fst q', snd q') # map2 (\<lambda>p q. (fst p # fst q, snd q)) ps qs'"
      by (auto simp: list_all2_Cons1)
    have "list_all2 (\<lambda>c q. run_events step (ev # evs) c = Inr q) cs (map2 (\<lambda>p q. (fst p # fst q, snd q)) ps qs')"
      unfolding Cons.IH using ps(1,2) by blast
    moreover have "run_events step (ev # evs) c = Inr (fst p # fst q', snd q')" unfolding run_Cons_iff using p by blast
    ultimately show "list_all2 (\<lambda>c q. run_events step (ev # evs) c = Inr q) (c # cs) qs"
      unfolding ps(3) list_all2_Cons by blast
  qed
qed auto

lemma mgr_run_iff:
  "run_events (mgr_step E s) evs cs = Inr (rs, cs') \<longleftrightarrow>
     (\<exists>qs. list_all2 (\<lambda>c q. run_events (checker_step E s) evs c = Inr q) cs qs \<and>
        rs = joined (length evs) (map fst qs) \<and> cs' = map snd qs)"
proof (induction evs arbitrary: cs rs cs')
  case Nil
  have "list_all2 (\<lambda>c q. run_events (checker_step E s) [] c = Inr q) cs qs \<longleftrightarrow> qs = map (Pair []) cs" for qs
    by (induction cs arbitrary: qs) (auto simp: list_all2_Cons1)
  then show ?case by (auto simp: joined_def comp_def)
next
  case (Cons ev evs)
  let ?join = "\<lambda>ps qs. map2 (\<lambda>p q. (fst p # fst q, snd q)) ps qs"
  have l: "length ps = length qs" if "list_all2 P (map snd ps) qs" for P and ps :: "(Result \<times> checker) list" and qs :: "(Result list \<times> checker) list"
    using list_all2_lengthD [OF that] by simp
  have sn: "map snd (?join ps qs) = map snd qs" if "length ps = length qs" for ps :: "(Result \<times> checker) list" and qs :: "(Result list \<times> checker) list"
    using that by (induction ps qs rule: list_induct2) simp_all
  show ?case
  proof
    assume "run_events (mgr_step E s) (ev # evs) cs = Inr (rs, cs')"
    then obtain r cs1 rs1 where r: "mgr_step E s ev cs = Inr (r, cs1)" "run_events (mgr_step E s) evs cs1 = Inr (rs1, cs')" "rs = r # rs1"
      unfolding run_Cons_iff by auto
    from r(1) obtain ps where ps: "list_all2 (\<lambda>c p. checker_step E s ev c = Inr p) cs ps" "r = join_results (map fst ps)" "cs1 = map snd ps"
      unfolding mgr_step_iff by blast
    from r(2) obtain qs where qs: "list_all2 (\<lambda>c q. run_events (checker_step E s) evs c = Inr q) cs1 qs"
      "rs1 = joined (length evs) (map fst qs)" "cs' = map snd qs" unfolding Cons.IH by blast
    have len: "length ps = length qs" using l qs(1) ps(3) by blast
    have "list_all2 (\<lambda>c q. run_events (checker_step E s) (ev # evs) c = Inr q) cs (?join ps qs)"
      unfolding run_split using ps(1,3) qs(1) by blast
    moreover have "rs = joined (length (ev # evs)) (map fst (?join ps qs))" "cs' = map snd (?join ps qs)"
      unfolding list.size(4) using joined_Cons [OF len] sn [OF len] r(3) ps(2) qs(2,3) by simp_all
    ultimately show "\<exists>qs. list_all2 (\<lambda>c q. run_events (checker_step E s) (ev # evs) c = Inr q) cs qs \<and>
        rs = joined (length (ev # evs)) (map fst qs) \<and> cs' = map snd qs" by blast
  next
    assume "\<exists>qs. list_all2 (\<lambda>c q. run_events (checker_step E s) (ev # evs) c = Inr q) cs qs \<and>
        rs = joined (length (ev # evs)) (map fst qs) \<and> cs' = map snd qs"
    then obtain ps qs where ps: "list_all2 (\<lambda>c p. checker_step E s ev c = Inr p) cs ps"
      and qs: "list_all2 (\<lambda>c q. run_events (checker_step E s) evs c = Inr q) (map snd ps) qs"
      and rs: "rs = joined (length (ev # evs)) (map fst (?join ps qs))" "cs' = map snd (?join ps qs)"
      unfolding run_split by blast
    have len: "length ps = length qs" using l qs by blast
    have "mgr_step E s ev cs = Inr (join_results (map fst ps), map snd ps)" unfolding mgr_step_iff using ps by blast
    moreover have "run_events (mgr_step E s) evs (map snd ps) = Inr (joined (length evs) (map fst qs), map snd qs)"
      unfolding Cons.IH using qs by blast
    ultimately show "run_events (mgr_step E s) (ev # evs) cs = Inr (rs, cs')"
      using rs joined_Cons [OF len] sn [OF len] by simp
  qed
qed

lemma is_error_join: "is_error (join_results rs) \<longleftrightarrow> list_ex is_error rs"
proof -
  have "is_error (foldl (OR) r rs) \<longleftrightarrow> is_error r \<or> list_ex is_error rs" for r
    by (induction rs arbitrary: r) auto
  then show ?thesis by (simp add: join_results_def)
qed

text \<open>
  C15: The checkers of a manager do not influence one another. On any path of calls and returns the
  manager returns exactly when every checker, run alone on the same events, returns; the checkers
  are then in the states they reach alone, and the manager flags an event as an error exactly when
  some checker alone flags it.
\<close>

theorem CheckerMgr_composition:
  "run_events (mgr_step E s) evs cs = Inr (rs, cs') \<longleftrightarrow>
     (\<exists>qs. list_all2 (\<lambda>c q. run_events (checker_step E s) evs c = Inr q) cs qs \<and> cs' = map snd qs \<and>
        rs = map (\<lambda>k. join_results (map (\<lambda>q. fst q ! k) qs)) [0..<length evs] \<and>
        map is_error rs = map (\<lambda>k. list_ex (\<lambda>q. is_error (fst q ! k)) qs) [0..<length evs])"
  unfolding mgr_run_iff by (auto simp: joined_def is_error_join list_ex_iff comp_def)

end
