(* ===== verification/Spec2Isabelle.thy ===== *)
theory Spec2Isabelle
  imports TreeProps Bits ExprCompare ExprSound MemoryProps ConcreteCopy CheckerMgr
begin

text \<open>
  A verification development of the core of the symbolic execution engine under \<open>src/klee\<close>: the
  immutable containers, the expression language, the memory model, and the event checkers that watch
  the paths the engine explores.

  \<^bold>\<open>The program.\<close> The engine runs a program on symbolic inputs. A value is an \<open>Expr\<close>; the memory of
  an execution state is an \<open>AddressSpace\<close>, an immutable map from memory objects to \<open>ObjectState\<close>s
  which the states of a fork share and copy on write; every call, return and branch of a path
  is passed to the \<open>CheckerMgr\<close>s, which hand it to the checkers they hold.

  \<^bold>\<open>Theories and sources.\<close>
  \<^item> \<open>Prelude\<close>: machine words, the result type \<open>fault + 'a\<close> of code that may fault (failed assertion,
    index out of bounds, use after free, null dereference), vectors, \<open>std::map::insert\<close>.
  \<^item> \<open>ImmutableTree\<close>, \<open>ImmutableMap\<close>, \<open>TreeProps\<close>: \<open>include/klee/Internal/ADT/ImmutableTree.h\<close>,
    \<open>ImmutableMap.h\<close>, \<open>ImmutableSet.h\<close>. One function per operation of the AVL tree and of its iterators,
    which are stacks of nodes. \<open>ImmutableMap\<close> has the locale of ordered maps that the address space
    relies on and its interpretation on the tree. Shown: the search-tree, height and balance
    invariant and the refinement of a finite map over any sequence of updates; \<open>lookup_previous\<close>; the
    logarithmic height; iteration in both directions.
  \<^item> \<open>Bits\<close>: \<open>include/klee/util/Bits.h\<close>; the rightmost-bit search of both widths.
  \<^item> \<open>Expr\<close>, \<open>ExprCompare\<close>, \<open>ExprSound\<close>: \<open>include/klee/Expr.h\<close>, \<open>lib/Expr/Expr.cpp\<close>, \<open>lib/Expr/Updates.cpp\<close>.
    The constructors with all their simplifications return \<open>None\<close> where the code asserts. Shown: every
    constructor returns a well-typed expression with the value of its operator under all assignments;
    \<open>compare\<close> is a total order; concatenation and extraction are inverse; temporary reads are little
    endian. LLVM's \<open>APInt\<close> is the parameter \<open>expr_env\<close>, its documented arithmetic the locale
    \<open>apint_lib\<close>, interpreted on \<open>llvm_env\<close>. The option \<open>const-array-opt\<close> is off in the
    soundness theorems.
  \<^item> \<open>Memory\<close>, \<open>MemoryProps\<close>: \<open>lib/Core/Memory.h\<close>, \<open>lib/Core/Memory.cpp\<close>, \<open>lib/Core/Context.h\<close>,
    \<open>include/klee/util/BitArray.h\<close>. An object is its concrete bytes, masks, cached expressions and
    update list. Shown: all operations keep the caches coherent; writes change exactly the bytes
    they cover; write then read gives the value back; reads at symbolic offsets see
    symbolic writes; reads are typed and change no byte.
  \<^item> \<open>AddressSpace\<close>, \<open>CopyOnWrite\<close>, \<open>Resolve\<close>, \<open>ConcreteCopy\<close>: \<open>lib/Core/AddressSpace.h\<close> and \<open>.cpp\<close>. Object
    states live in a heap of addresses so that sharing is visible. Shown: forks and writes have the
    outcome they have on separate memories; an owned object state is bound nowhere else;
    resolution of constant addresses is exact and of symbolic addresses ends and is complete; copying
    the concrete bytes out and in is the identity. The solver is the parameter \<open>solver_ops\<close> with
    the hypothesis \<open>solver_ok\<close>; \<open>solver0\<close> satisfies it.
  \<^item> \<open>Checker\<close>, \<open>FileObject\<close>, \<open>CheckerRuns\<close>: \<open>include/klee/Checker.h\<close>, \<open>lib/Core/Checker.cpp\<close> and the records
    \<open>ThreadInfo\<close>, \<open>AllocInfo\<close> and \<open>FileObject\<close> of \<open>BasicCheckers\<close>. \<open>CheckerRuns\<close> has the locale
    \<open>event_checker\<close>: a handler, an invariant, an abstraction and a specification of one event; its
    lemma lifts one event to paths.
  \<^item> \<open>AssertCheckers\<close>, \<open>LockChecker\<close>, \<open>OpenCloseChecker\<close>, \<open>FileChecker\<close>, \<open>DataLossChecker\<close>, \<open>PairwiseChecker\<close>
    (with \<open>LeakChecker\<close>), \<open>FilePermChecker\<close>, \<open>SysOpenCloseChecker\<close>: the classes of
    \<open>include/klee/BasicCheckers.h\<close> and \<open>lib/Core/BasicCheckers.cpp\<close>. One definition per handler, with every
    early return; the state is a record, \<open>mayBeEvent\<close>, \<open>wantConcrete\<close>, \<open>onCall\<close>, \<open>onRet\<close>, \<open>onBranch\<close> and
    \<open>report\<close> are functions on it. Shown: over any path each checker follows the automaton or
    the resource set it is meant to follow and flags exactly the forbidden events.
    \<open>PairwiseChecker\<close>, \<open>FilePermChecker\<close> and \<open>SysOpenCloseChecker\<close> interpret \<open>event_checker\<close>.
    Four theorems show where the code goes wrong: \<open>fileno\<close> writing past the end of the vector of
    files, the deleted object left in \<open>files_by_fd\<close>, the leak checker blinded by external calls,
    and the leak hidden by an unwritten file. \<open>OpenCloseChecker\<close> also uses an erased iterator.
  \<^item> \<open>CheckerMgr\<close>: \<open>include/klee/CheckerMgr.h\<close>, \<open>lib/Core/CheckerMgr.cpp\<close> and the choice of checkers in
    \<open>Executor::runFunctionAsMain\<close>. Shown: the checkers of a manager do not influence one another.

  \<^bold>\<open>State, effects and bounds.\<close> A method that changes its object returns the new record; statics and
  what clones share through a pointer (\<open>asserts\<close>, \<open>reported\<close>) are passed beside it. Machine integers are words
  where their width matters; the counters of \<open>AssertCounter\<close>, \<open>ignore_ops\<close>, thread numbers and the
  copy-on-write key are unbounded, so their overflow after \<open>2^31\<close> or \<open>2^32\<close> steps is not covered.
  Recursion is structural or has a termination proof. The four loops of address resolution take the
  number of objects plus one as fuel, which the theorems on resolution show to be enough: they state
  that a result is produced. Collecting the elements an iterator visits takes the size of the tree.

  \<^bold>\<open>Not modelled.\<close> Messages and debug output. Reference counts: nodes and expressions are values.
  Printing of expressions and \<open>MemoryObject::getAllocInfo\<close>. The interpreter loop of \<open>Executor.cpp\<close>, the
  searchers and the module passes, which are driven by LLVM's instruction classes, outside the repository;
  what the checkers ask of the executor is the parameter \<open>executor\<close>. The solver stack, which ends
  in the decision procedure, is used through \<open>solver_ops\<close>. The instrumentation passes, the builds of the
  checked applications and the evaluation scripts are tools around the engine. The C library under \<open>uclibc\<close>, the
  decision procedure under \<open>stp\<close> and the POSIX runtime are separate programs that the engine links or
  interprets. The code under \<open>WITHOUT_LIB_CALLS\<close> and the debug macros is not compiled.
\<close>

end
